(* ===== verification/Kernel_Prelude.thy ===== *)
theory Kernel_Prelude
  imports Main "HOL-Library.Word"
begin

text \<open>
  Shared vocabulary of the development: the machine integers of the x86_64 build, the flat
  byte-addressed memory every pointer of the kernel refers to, regions of it, C strings in it,
  and the lemma collections the component theories use.
\<close>

unbundle bit_operations_syntax

named_theorems mem_simps \<open>reads and writes of regions of memory\<close>
named_theorems word_arith \<open>address arithmetic without wrap-around\<close>

section \<open>Machine integers and memory\<close>

type_synonym u8 = "8 word"
type_synonym u16 = "16 word"
type_synonym u32 = "32 word"
type_synonym u64 = "64 word"

type_synonym addr = u64
type_synonym mem = "addr \<Rightarrow> u8"

text \<open>
  A region is a start address and a length. \<open>fits a n\<close> says that it does not run past the top of
  the 64-bit address space; \<open>in_region a n x\<close> that the byte \<open>x\<close> belongs to it.
\<close>

definition fits :: "addr \<Rightarrow> nat \<Rightarrow> bool" where
  "fits a n \<longleftrightarrow> unat a + n \<le> 2 ^ 64"

definition in_region :: "addr \<Rightarrow> nat \<Rightarrow> addr \<Rightarrow> bool" where
  "in_region a n x \<longleftrightarrow> unat (x - a) < n"

definition disjoint_regions :: "addr \<Rightarrow> nat \<Rightarrow> addr \<Rightarrow> nat \<Rightarrow> bool" where
  "disjoint_regions a n b k \<longleftrightarrow> (\<forall>i < n. \<forall>j < k. a + of_nat i \<noteq> b + of_nat j)"

text \<open>
  The bytes of a region, lowest address first; the store of one byte, and of a byte list at an
  address.
\<close>

definition bytes_at :: "mem \<Rightarrow> addr \<Rightarrow> nat \<Rightarrow> u8 list" where
  "bytes_at m a n = map (\<lambda>i. m (a + of_nat i)) [0..<n]"

definition write8 :: "mem \<Rightarrow> addr \<Rightarrow> u8 \<Rightarrow> mem" where
  "write8 m a v = m(a := v)"

fun store_bytes :: "mem \<Rightarrow> addr \<Rightarrow> u8 list \<Rightarrow> mem" where
  "store_bytes m a [] = m"
| "store_bytes m a (b # bs) = store_bytes (write8 m a b) (a + 1) bs"

text \<open>\<open>cstr m s bs\<close>: the bytes \<open>bs\<close>, none of them NUL, and then a NUL, stand at \<open>s\<close>.\<close>

definition cstr :: "mem \<Rightarrow> addr \<Rightarrow> u8 list \<Rightarrow> bool" where
  "cstr m s bs \<longleftrightarrow> bytes_at m s (length bs) = bs \<and> 0 \<notin> set bs
     \<and> m (s + of_nat (length bs)) = 0 \<and> length bs < 2 ^ 64"

section \<open>Addresses\<close>

lemma unat_of_nat_64 [word_arith]: "n < 2 ^ 64 \<Longrightarrow> unat (of_nat n :: u64) = n"
  by (simp add: unat_of_nat take_bit_nat_eq_self)

lemma of_nat_unat_64 [word_arith, simp]: "of_nat (unat (a :: u64)) = a"
  by simp

lemma unat_lt_64: "unat (a :: u64) < 2 ^ 64"
  using unsigned_less [of a, where 'a = nat] by simp

lemma offset_eq_iff [word_arith]:
  "i < 2 ^ 64 \<Longrightarrow> j < 2 ^ 64 \<Longrightarrow> (a + of_nat i = (a + of_nat j :: u64)) \<longleftrightarrow> i = j"
  by (metis add_left_cancel unat_of_nat_64)

lemma of_nat_eq_iff_64 [word_arith]:
  "i < 2 ^ 64 \<Longrightarrow> j < 2 ^ 64 \<Longrightarrow> (of_nat i = (of_nat j :: u64)) \<longleftrightarrow> i = j"
  using offset_eq_iff [of i j 0] by simp

lemma offset_self_iff [word_arith]:
  "i < 2 ^ 64 \<Longrightarrow> ((a :: u64) + of_nat i = a) \<longleftrightarrow> i = 0"
  using offset_eq_iff [of i 0 a] by simp

lemma unat_add_fits [word_arith]:
  "unat a + i < 2 ^ 64 \<Longrightarrow> unat (a + of_nat i :: u64) = unat a + i"
proof -
  assume h: "unat a + i < 2 ^ 64"
  then have "i < 2 ^ 64" by simp
  with h show ?thesis by (simp add: unat_word_ariths unat_of_nat_64)
qed

lemma fits_mono: "fits a n \<Longrightarrow> k \<le> n \<Longrightarrow> fits a k"
  by (simp add: fits_def)

lemma fits_length: "fits a n \<Longrightarrow> n \<le> 2 ^ 64"
  by (simp add: fits_def)

lemma fits_offset: "fits a n \<Longrightarrow> i < n \<Longrightarrow> unat (a + of_nat i) = unat a + i"
  by (simp add: fits_def unat_add_fits)

lemma in_region_offset [word_arith]:
  "i < 2 ^ 64 \<Longrightarrow> in_region a n (a + of_nat i) \<longleftrightarrow> i < n"
  by (simp add: in_region_def unat_of_nat_64)

lemma in_regionE:
  assumes "in_region a n x"
  obtains i where "i < n" and "i < 2 ^ 64" and "x = a + of_nat i"
proof
  show "unat (x - a) < n" using assms by (simp add: in_region_def)
  show "unat (x - a) < 2 ^ 64" by (rule unat_lt_64)
  show "x = a + of_nat (unat (x - a))" by simp
qed

lemma in_region_0 [simp]: "\<not> in_region a 0 x"
  by (simp add: in_region_def)

lemma in_region_mono: "in_region a n x \<Longrightarrow> n \<le> k \<Longrightarrow> in_region a k x"
  by (simp add: in_region_def)

text \<open>In a region that does not wrap, membership is an interval of unsigned addresses.\<close>

lemma in_region_fits:
  assumes "fits a n"
  shows "in_region a n x \<longleftrightarrow> unat a \<le> unat x \<and> unat x < unat a + n"
proof
  assume "in_region a n x"
  then obtain i where i: "i < n" "x = a + of_nat i" by (rule in_regionE)
  with assms show "unat a \<le> unat x \<and> unat x < unat a + n" by (simp add: fits_offset)
next
  assume h: "unat a \<le> unat x \<and> unat x < unat a + n"
  then have "a \<le> x" by (simp add: word_le_nat_alt)
  then have "unat (x - a) = unat x - unat a" by (rule unat_sub)
  with h show "in_region a n x" unfolding in_region_def by linarith
qed

section \<open>Regions of memory\<close>

lemma write8_apply [mem_simps]: "write8 m a v x = (if x = a then v else m x)"
  by (simp add: write8_def)

lemma length_bytes_at [simp]: "length (bytes_at m a n) = n"
  by (simp add: bytes_at_def)

lemma nth_bytes_at [simp]: "i < n \<Longrightarrow> bytes_at m a n ! i = m (a + of_nat i)"
  by (simp add: bytes_at_def)

lemma bytes_at_0 [simp]: "bytes_at m a 0 = []"
  by (simp add: bytes_at_def)

lemma bytes_at_Suc [mem_simps]: "bytes_at m a (Suc n) = m a # bytes_at m (a + 1) n"
  by (rule nth_equalityI) (auto simp: nth_Cons split: nat.split simp: algebra_simps)

lemma bytes_at_Suc_end: "bytes_at m a (Suc n) = bytes_at m a n @ [m (a + of_nat n)]"
  by (simp add: bytes_at_def)

lemma bytes_at_add: "bytes_at m a (k + n) = bytes_at m a k @ bytes_at m (a + of_nat k) n"
  by (rule nth_equalityI) (auto simp: nth_append algebra_simps)

lemma bytes_at_cong:
  "(\<And>x. in_region a n x \<Longrightarrow> m x = m' x) \<Longrightarrow> n \<le> 2 ^ 64 \<Longrightarrow> bytes_at m a n = bytes_at m' a n"
  by (rule nth_equalityI) (auto simp: in_region_offset)

lemma bytes_at_upd_other [mem_simps]:
  "(\<And>i. i < n \<Longrightarrow> a \<noteq> s + of_nat i) \<Longrightarrow> bytes_at (write8 m a v) s n = bytes_at m s n"
  by (rule nth_equalityI) (auto simp: write8_apply)

lemma store_bytes_append:
  "store_bytes m a (xs @ ys) = store_bytes (store_bytes m a xs) (a + of_nat (length xs)) ys"
  by (induction xs arbitrary: m a) (simp_all add: algebra_simps)

text \<open>The effect of a store: the region holds the bytes, everything else is unchanged.\<close>

lemma store_bytes_apply [mem_simps]:
  assumes "length bs \<le> 2 ^ 64"
  shows "store_bytes m a bs x = (if in_region a (length bs) x then bs ! unat (x - a) else m x)"
  using assms
proof (induction bs rule: rev_induct)
  case Nil
  then show ?case by simp
next
  case (snoc b bs)
  show ?case
  proof (cases "x = a + of_nat (length bs)")
    case True
    with snoc.prems show ?thesis
      by (simp add: store_bytes_append in_region_def unat_of_nat_64 write8_apply)
  next
    case False
    then have "unat (x - a) \<noteq> length bs"
      by (metis add.commute diff_add_cancel of_nat_unat_64)
    with False snoc show ?thesis
      by (auto simp: store_bytes_append in_region_def nth_append write8_apply)
  qed
qed

lemma store_bytes_outside:
  "length bs \<le> 2 ^ 64 \<Longrightarrow> \<not> in_region a (length bs) x \<Longrightarrow> store_bytes m a bs x = m x"
  by (simp add: store_bytes_apply)

lemma bytes_at_store_bytes [mem_simps]:
  "length bs \<le> 2 ^ 64 \<Longrightarrow> bytes_at (store_bytes m a bs) a (length bs) = bs"
  by (rule nth_equalityI) (auto simp: store_bytes_apply in_region_offset unat_of_nat_64)

text \<open>Storing the tail of a byte list first and its head afterwards is storing the list.\<close>

lemma store_bytes_tail_head:
  assumes "length xs + length ys \<le> 2 ^ 64"
  shows "store_bytes (store_bytes m (a + of_nat (length xs)) ys) a xs = store_bytes m a (xs @ ys)"
proof
  fix x
  define k where "k = unat (x - a)"
  have k: "k < 2 ^ 64" and x: "x = a + of_nat k" using unat_lt_64 by (simp_all add: k_def)
  have tail: "unat (x - (a + of_nat (length xs))) = k - length xs" if "length xs \<le> k"
  proof -
    have "x - (a + of_nat (length xs)) = of_nat (k - length xs)" using that by (simp add: x of_nat_diff)
    then show ?thesis using k by (simp add: unat_of_nat_64)
  qed
  show "store_bytes (store_bytes m (a + of_nat (length xs)) ys) a xs x = store_bytes m a (xs @ ys) x"
  proof (cases "k < length xs")
    case True
    with assms show ?thesis by (simp add: store_bytes_apply in_region_def k_def [symmetric] nth_append)
  next
    case False
    with assms tail show ?thesis
      by (auto simp: store_bytes_apply in_region_def k_def [symmetric] nth_append)
  qed
qed

lemma store_bytes_eqI:
  assumes "length bs \<le> 2 ^ 64" and "bytes_at m' a (length bs) = bs"
    and "\<And>x. \<not> in_region a (length bs) x \<Longrightarrow> m' x = m x"
  shows "m' = store_bytes m a bs"
proof
  fix x
  show "m' x = store_bytes m a bs x"
  proof (cases "in_region a (length bs) x")
    case True
    then obtain i where i: "i < length bs" "i < 2 ^ 64" "x = a + of_nat i" by (rule in_regionE)
    then have "m' x = bs ! i" using assms(2) nth_bytes_at by metis
    with i True assms(1) show ?thesis by (simp add: store_bytes_apply unat_of_nat_64)
  qed (use assms in \<open>simp add: store_bytes_apply\<close>)
qed

text \<open>Lexicographic order of byte strings under an order of the elements, as a program.\<close>

fun lex_less :: "('a \<Rightarrow> 'a \<Rightarrow> bool) \<Rightarrow> 'a list \<Rightarrow> 'a list \<Rightarrow> bool" where
  "lex_less lt [] ys = (ys \<noteq> [])"
| "lex_less lt (x # xs) [] = False"
| "lex_less lt (x # xs) (y # ys) = (lt x y \<or> (x = y \<and> lex_less lt xs ys))"

section \<open>Little-endian integers in memory\<close>

fun le_nat :: "u8 list \<Rightarrow> nat" where
  "le_nat [] = 0"
| "le_nat (b # bs) = unat b + 256 * le_nat bs"

definition read32 :: "mem \<Rightarrow> addr \<Rightarrow> u32" where
  "read32 m a = of_nat (le_nat (bytes_at m a 4))"

definition read64 :: "mem \<Rightarrow> addr \<Rightarrow> u64" where
  "read64 m a = of_nat (le_nat (bytes_at m a 8))"

lemma bytes_at_part: "k + j \<le> n \<Longrightarrow> bytes_at m (a + of_nat k) j = take j (drop k (bytes_at m a n))"
  by (rule nth_equalityI) (simp_all add: add.assoc)

lemma read64_part: "8 * i + 8 \<le> n \<Longrightarrow> read64 m (a + 8 * of_nat i) = of_nat (le_nat (take 8 (drop (8 * i) (bytes_at m a n))))"
  using bytes_at_part [of "8 * i" 8 n m a] by (simp add: read64_def)

lemma le_nat_less: "le_nat bs < 256 ^ length bs"
proof (induction bs)
  case (Cons b bs)
  have "unat b < 256" using unsigned_less [of b, where 'a = nat] by simp
  with Cons show ?case by simp
qed simp

section \<open>Disjoint regions\<close>

text \<open>Two ways of showing that regions do not meet: unsigned order, and disjoint memberships.\<close>

lemma disjoint_regionsI_below:
  assumes "fits a n" and "fits b k" and "unat a + n \<le> unat b"
  shows "disjoint_regions a n b k"
  unfolding disjoint_regions_def
proof (intro allI impI)
  fix i j assume ij: "i < n" "j < k"
  have "unat (a + of_nat i) = unat a + i" and "unat (b + of_nat j) = unat b + j"
    using assms ij by (simp_all add: fits_offset)
  with assms(3) ij(1) show "a + of_nat i \<noteq> b + of_nat j" by auto
qed

lemma disjoint_regions_sym: "disjoint_regions a n b k \<longleftrightarrow> disjoint_regions b k a n"
  unfolding disjoint_regions_def by metis

lemma disjoint_regions_mono:
  "disjoint_regions a n b k \<Longrightarrow> n' \<le> n \<Longrightarrow> k' \<le> k \<Longrightarrow> disjoint_regions a n' b k'"
  by (auto simp: disjoint_regions_def)

lemma disjoint_regions_notin:
  "disjoint_regions a n b k \<Longrightarrow> j < k \<Longrightarrow> \<not> in_region a n (b + of_nat j)"
  unfolding disjoint_regions_def by (metis in_regionE)

lemma bytes_at_store_disjoint [mem_simps]:
  assumes "disjoint_regions a (length bs) b k" and "length bs \<le> 2 ^ 64"
  shows "bytes_at (store_bytes m a bs) b k = bytes_at m b k"
  using assms
  by (intro nth_equalityI) (simp_all add: store_bytes_outside disjoint_regions_notin)

section \<open>C strings in memory\<close>

lemma cstr_nth: "cstr m s bs \<Longrightarrow> i < length bs \<Longrightarrow> m (s + of_nat i) = bs ! i"
  unfolding cstr_def by (metis nth_bytes_at)

lemma cstr_nonzero: "cstr m s bs \<Longrightarrow> i < length bs \<Longrightarrow> m (s + of_nat i) \<noteq> 0"
  by (metis cstr_def cstr_nth nth_mem)

lemma cstr_end: "cstr m s bs \<Longrightarrow> m (s + of_nat (length bs)) = 0"
  by (simp add: cstr_def)

lemma cstr_length: "cstr m s bs \<Longrightarrow> length bs < 2 ^ 64"
  by (simp add: cstr_def)

lemma cstr_Nil: "cstr m s [] \<longleftrightarrow> m s = 0"
  by (simp add: cstr_def)

lemma cstr_Cons: "cstr m s (b # bs) \<Longrightarrow> m s = b \<and> b \<noteq> 0 \<and> cstr m (s + 1) bs"
  by (auto simp: cstr_def bytes_at_Suc algebra_simps)

lemma cstr_upd_other:
  "cstr m s bs \<Longrightarrow> (\<And>i. i \<le> length bs \<Longrightarrow> a \<noteq> s + of_nat i) \<Longrightarrow> cstr (write8 m a v) s bs"
  by (auto simp: cstr_def bytes_at_upd_other write8_apply)

lemma cstrI:
  assumes "\<And>i. i < n \<Longrightarrow> m (s + of_nat i) \<noteq> 0" and "m (s + of_nat n) = 0" and "n < 2 ^ 64"
  shows "cstr m s (bytes_at m s n)"
  using assms by (auto simp: cstr_def in_set_conv_nth)

end
