(* ===== verification/String_Lib.thy ===== *)
theory String_Lib
  imports Kernel_Prelude
begin

text \<open>
  The routines of \<open>src/libc/src/string/string.c\<close> over the flat memory, in the order of the file
  (\<open>strnlen\<close> and \<open>strncpy\<close> are in the theory \<open>Strnlen\<close>). A pointer is an address; a loop counted by a
  \<open>size_t\<close> recurses on the count; a loop that stops at a NUL may run for ever and is a
  \<open>partial_function (option)\<close>, whose \<open>None\<close> means that the call does not return. Every store goes to the memory the later
  iterations read, so overlapping arguments behave as in the code. \<open>char\<close> is signed, as the
  x86_64 ABI has it.
\<close>

section \<open>memset, bzero, strlen\<close>

fun memset_loop :: "mem \<Rightarrow> addr \<Rightarrow> u8 \<Rightarrow> nat \<Rightarrow> mem" where
  "memset_loop m ptr val 0 = m"
| "memset_loop m ptr val (Suc n) = memset_loop (write8 m ptr val) (ptr + 1) val n"

definition memset :: "mem \<Rightarrow> addr \<Rightarrow> u32 \<Rightarrow> u64 \<Rightarrow> mem \<times> addr" where
  "memset m dest val len = (memset_loop m dest (ucast val) (unat len), dest)"

definition bzero :: "mem \<Rightarrow> addr \<Rightarrow> u64 \<Rightarrow> mem" where
  "bzero m dest len = fst (memset m dest 0 len)"

partial_function (option) strlen_loop :: "mem \<Rightarrow> addr \<Rightarrow> u64 \<Rightarrow> u64 option" where
  "strlen_loop m str len = (if m (str + len) \<noteq> 0 then strlen_loop m str (len + 1) else Some len)"

definition strlen :: "mem \<Rightarrow> addr \<Rightarrow> u64 option" where
  "strlen m str = strlen_loop m str 0"

section \<open>Comparison\<close>

partial_function (option) strcmp :: "mem \<Rightarrow> addr \<Rightarrow> addr \<Rightarrow> u32 option" where
  "strcmp m src dest =
     (if m src \<noteq> 0 \<and> m dest \<noteq> 0 \<and> m src = m dest then strcmp m (src + 1) (dest + 1)
      else Some (scast (m src) - scast (m dest)))"

fun strncmp_loop :: "mem \<Rightarrow> addr \<Rightarrow> addr \<Rightarrow> nat \<Rightarrow> u32" where
  "strncmp_loop m s1 s2 0 = 0"
| "strncmp_loop m s1 s2 (Suc n) =
     (if m s1 \<noteq> m s2 then ucast (m s1) - ucast (m s2)
      else if m s1 = 0 then 0
      else strncmp_loop m (s1 + 1) (s2 + 1) n)"

definition strncmp :: "mem \<Rightarrow> addr \<Rightarrow> addr \<Rightarrow> u64 \<Rightarrow> u32" where
  "strncmp m s1 s2 n = (if n = 0 then 0 else strncmp_loop m s1 s2 (unat n))"

fun memcmp_loop :: "mem \<Rightarrow> addr \<Rightarrow> addr \<Rightarrow> nat \<Rightarrow> u32" where
  "memcmp_loop m s1 s2 0 = 0"
| "memcmp_loop m s1 s2 (Suc n) =
     (if m s1 \<noteq> m s2 then (if m s1 < m s2 then - 1 else 1)
      else memcmp_loop m (s1 + 1) (s2 + 1) n)"

definition memcmp :: "mem \<Rightarrow> addr \<Rightarrow> addr \<Rightarrow> u64 \<Rightarrow> u32" where
  "memcmp m str1 str2 count = memcmp_loop m str1 str2 (unat count)"

section \<open>Copies\<close>

partial_function (option) strcpy_loop :: "mem \<Rightarrow> addr \<Rightarrow> addr \<Rightarrow> mem option" where
  "strcpy_loop m dest src =
     (let c = m src; m' = write8 m dest c
      in if c \<noteq> 0 then strcpy_loop m' (dest + 1) (src + 1) else Some m')"

definition strcpy :: "mem \<Rightarrow> addr \<Rightarrow> addr \<Rightarrow> (mem \<times> addr) option" where
  "strcpy m dest src = map_option (\<lambda>m'. (m', dest)) (strcpy_loop m dest src)"

fun memcpy_loop :: "mem \<Rightarrow> addr \<Rightarrow> addr \<Rightarrow> nat \<Rightarrow> mem" where
  "memcpy_loop m d s 0 = m"
| "memcpy_loop m d s (Suc n) = memcpy_loop (write8 m d (m s)) (d + 1) (s + 1) n"

definition memcpy :: "mem \<Rightarrow> addr \<Rightarrow> addr \<Rightarrow> u64 \<Rightarrow> mem \<times> addr" where
  "memcpy m dest src len = (memcpy_loop m dest src (unat len), dest)"

fun memmove_down_loop :: "mem \<Rightarrow> addr \<Rightarrow> addr \<Rightarrow> nat \<Rightarrow> mem" where
  "memmove_down_loop m lastd lasts 0 = m"
| "memmove_down_loop m lastd lasts (Suc n) =
     memmove_down_loop (write8 m lastd (m lasts)) (lastd - 1) (lasts - 1) n"

definition memmove :: "mem \<Rightarrow> addr \<Rightarrow> addr \<Rightarrow> u64 \<Rightarrow> mem \<times> addr" where
  "memmove m dest src len =
     (if dest < src then memcpy_loop m dest src (unat len)
      else memmove_down_loop m (dest + (len - 1)) (src + (len - 1)) (unat len), dest)"

section \<open>Editing a string in place\<close>

definition backspace :: "mem \<Rightarrow> addr \<Rightarrow> mem option" where
  "backspace m src = map_option (\<lambda>len. write8 m (src + (len - 1)) 0) (strlen m src)"

definition append_char :: "mem \<Rightarrow> addr \<Rightarrow> u8 \<Rightarrow> mem option" where
  "append_char m src c =
     map_option (\<lambda>len. write8 (write8 m (src + len) c) (src + (len + 1)) 0) (strlen m src)"

partial_function (option) find_nul :: "mem \<Rightarrow> addr \<Rightarrow> addr option" where
  "find_nul m add_d = (if m add_d \<noteq> 0 then find_nul m (add_d + 1) else Some add_d)"

partial_function (option) strcat_copy :: "mem \<Rightarrow> addr \<Rightarrow> addr \<Rightarrow> mem option" where
  "strcat_copy m add_d src =
     (if m src \<noteq> 0 then strcat_copy (write8 m add_d (m src)) (add_d + 1) (src + 1) else Some m)"

definition strcat :: "mem \<Rightarrow> addr \<Rightarrow> addr \<Rightarrow> (mem \<times> addr) option" where
  "strcat m dest src =
     (if dest \<noteq> 0 \<and> src \<noteq> 0
      then (case find_nul m dest of
              None \<Rightarrow> None
            | Some add_d \<Rightarrow> map_option (\<lambda>m'. (m', dest)) (strcat_copy m add_d src))
      else Some (m, dest))"

partial_function (option) strchr :: "mem \<Rightarrow> addr \<Rightarrow> u32 \<Rightarrow> addr option" where
  "strchr m s c =
     (if scast (m s) = c then Some s
      else if m s \<noteq> 0 then strchr m (s + 1) c
      else Some 0)"

text \<open>
  \<open>strrev\<close> keeps its indices in variables of type \<open>int\<close>. They start at 0 and \<open>len - 1\<close> (the length
  truncated to \<open>unsigned\<close>, then read as a signed value) and move towards each other while
  \<open>i < j\<close>, so neither can overflow; the model uses \<open>int\<close> for both.
\<close>

function strrev_loop :: "mem \<Rightarrow> addr \<Rightarrow> int \<Rightarrow> int \<Rightarrow> mem" where
  "strrev_loop m str i j =
     (if i < j
      then strrev_loop (write8 (write8 m (str + of_int i) (m (str + of_int j))) (str + of_int j) (m (str + of_int i)))
             str (i + 1) (j - 1)
      else m)"
  by pat_completeness auto
termination
  by (relation "measure (\<lambda>(m, str, i, j). nat (j - i))") auto

declare strrev_loop.simps [simp del]

definition strrev :: "mem \<Rightarrow> addr \<Rightarrow> mem option" where
  "strrev m str =
     map_option (\<lambda>n. let len = ucast n :: u32 in strrev_loop m str 0 (sint (len - 1))) (strlen m str)"

section \<open>Lemmas: loops as stores\<close>

text \<open>
  An ascending copy from \<open>s\<close> to \<open>d\<close> is right when no store reaches a byte that is still to be
  read; a descending one when the mirrored condition holds.
\<close>

definition reads_ahead :: "addr \<Rightarrow> addr \<Rightarrow> nat \<Rightarrow> bool" where
  "reads_ahead d s n \<longleftrightarrow> (\<forall>i < n. \<forall>j < i. d + of_nat j \<noteq> s + of_nat i)"

definition reads_behind :: "addr \<Rightarrow> addr \<Rightarrow> nat \<Rightarrow> bool" where
  "reads_behind d s n \<longleftrightarrow> (\<forall>j < n. \<forall>i < j. d + of_nat j \<noteq> s + of_nat i)"

lemma reads_ahead_Suc:
  assumes "reads_ahead d s (Suc n)"
  shows "reads_ahead (d + 1) (s + 1) n" and "i < n \<Longrightarrow> d \<noteq> s + 1 + of_nat i"
proof -
  have h: "d + of_nat j \<noteq> s + of_nat i" if "i < Suc n" "j < i" for i j
    using assms that by (simp add: reads_ahead_def)
  show "reads_ahead (d + 1) (s + 1) n"
    unfolding reads_ahead_def
    using h [of "Suc _" "Suc _"] by (auto simp: algebra_simps)
  show "d \<noteq> s + 1 + of_nat i" if "i < n"
    using h [of "Suc i" 0] that by (simp add: algebra_simps)
qed

lemma reads_behind_Suc:
  assumes "reads_behind d s (Suc n)"
  shows "reads_behind d s n" and "i < n \<Longrightarrow> d + of_nat n \<noteq> s + of_nat i"
  using assms by (auto simp: reads_behind_def)

lemma disjoint_reads_ahead: "disjoint_regions d n s n \<Longrightarrow> reads_ahead d s n"
  by (auto simp: reads_ahead_def disjoint_regions_def)

lemma below_reads_ahead:
  assumes "fits d n" and "fits s n" and "d \<le> s"
  shows "reads_ahead d s n"
  unfolding reads_ahead_def
proof (intro allI impI)
  fix i j assume "i < n" "j < i"
  with assms have "unat (d + of_nat j) < unat (s + of_nat i)"
    by (simp add: fits_offset word_le_nat_alt)
  then show "d + of_nat j \<noteq> s + of_nat i" by auto
qed

lemma above_reads_behind:
  assumes "fits d n" and "fits s n" and "s \<le> d"
  shows "reads_behind d s n"
  using below_reads_ahead [OF assms(2,1,3)]
  unfolding reads_ahead_def reads_behind_def by metis

lemma memset_loop_store: "memset_loop m ptr val n = store_bytes m ptr (replicate n val)"
  by (induction n arbitrary: m ptr) simp_all

lemma memcpy_loop_store:
  "reads_ahead d s n \<Longrightarrow> memcpy_loop m d s n = store_bytes m d (bytes_at m s n)"
proof (induction n arbitrary: m d s)
  case (Suc n)
  note ahead = reads_ahead_Suc [OF Suc.prems]
  show ?case
    using ahead(2) by (simp add: Suc.IH [OF ahead(1)] bytes_at_Suc bytes_at_upd_other)
qed simp

lemma store_bytes_upd_end:
  assumes "length xs < 2 ^ 64"
  shows "store_bytes (write8 m (d + of_nat (length xs)) b) d xs = store_bytes m d (xs @ [b])"
proof
  fix x
  have "\<not> in_region d (length xs) (d + of_nat (length xs))" using assms by (simp add: in_region_offset)
  then show "store_bytes (write8 m (d + of_nat (length xs)) b) d xs x = store_bytes m d (xs @ [b]) x"
    using assms by (simp add: store_bytes_append store_bytes_apply write8_apply)
qed

lemma memmove_down_store:
  "reads_behind d s n \<Longrightarrow> n \<le> 2 ^ 64 \<Longrightarrow>
    memmove_down_loop m (d + of_nat n - 1) (s + of_nat n - 1) n = store_bytes m d (bytes_at m s n)"
proof (induction n arbitrary: m)
  case (Suc n)
  note behind = reads_behind_Suc [OF Suc.prems(1)]
  show ?case
    using behind(2) Suc.prems(2) store_bytes_upd_end [of "bytes_at m s n" m d "m (s + of_nat n)"]
    by (simp add: Suc.IH [OF behind(1)] bytes_at_Suc_end bytes_at_upd_other add.assoc)
qed simp

section \<open>Lemmas: the string loops\<close>

lemma strlen_loop_reach:
  assumes "\<And>i. i < n \<Longrightarrow> m (str + (len + of_nat i)) \<noteq> 0" and "m (str + (len + of_nat n)) = 0"
  shows "strlen_loop m str len = Some (len + of_nat n)"
  using assms
proof (induction n arbitrary: len)
  case 0
  then show ?case by (simp add: strlen_loop.simps)
next
  case (Suc n)
  have "strlen_loop m str (len + 1) = Some (len + 1 + of_nat n)"
    using Suc.prems(1) [of "Suc i" for i] Suc.prems(2)
    by (intro Suc.IH) (simp_all add: algebra_simps)
  moreover have "m (str + len) \<noteq> 0" using Suc.prems(1) [of 0] by simp
  ultimately show ?case by (simp add: strlen_loop.simps [of m str len] algebra_simps)
qed

lemma strlen_cstr: "cstr m s bs \<Longrightarrow> strlen m s = Some (of_nat (length bs))"
  using strlen_loop_reach [of "length bs" m s 0]
  by (simp add: strlen_def cstr_nonzero cstr_end)

text \<open>Wherever memory holds a NUL at all, a C string starts at every address.\<close>

lemma cstr_exists:
  assumes "m x = 0"
  shows "\<exists>bs. cstr m s bs"
proof -
  let ?P = "\<lambda>n. m (s + of_nat n) = 0"
  define n where "n = (LEAST n. ?P n)"
  have px: "?P (unat (x - s))" using assms by simp
  then have "?P n" unfolding n_def by (rule LeastI)
  moreover have "\<not> ?P i" if "i < n" for i using not_less_Least that n_def by blast
  moreover have "n < 2 ^ 64"
    using Least_le [of ?P, OF px] unat_lt_64 [of "x - s"] unfolding n_def by linarith
  ultimately have "cstr m s (bytes_at m s n)" by (intro cstrI) auto
  then show ?thesis ..
qed

lemma strlen_loop_stops_at_nul:
  assumes "strlen_loop m str len = Some r"
  shows "m (str + r) = 0"
proof (rule strlen_loop.raw_induct [where P = "\<lambda>m str len r. m (str + r) = 0", OF _ assms])
  fix f :: "mem \<Rightarrow> addr \<Rightarrow> u64 \<Rightarrow> u64 option" and m str len r
  assume "\<And>m str len r. f m str len = Some r \<Longrightarrow> m (str + r) = 0"
    and "(if m (str + len) \<noteq> 0 then f m str (len + 1) else Some len) = Some r"
  then show "m (str + r) = 0" by (cases "m (str + len) = 0") auto
qed

text \<open>
  The two copying loops that stop at a NUL differ in whether they store it. \<open>cstr_step\<close> is the
  step both inductions take.
\<close>

lemma cstr_step:
  assumes "cstr m s (b # bs)" and "reads_ahead d s (Suc (length (b # bs)))"
  shows "m s = b" and "b \<noteq> 0" and "cstr (write8 m d b) (s + 1) bs"
    and "reads_ahead (d + 1) (s + 1) (Suc (length bs))"
proof -
  from cstr_Cons [OF assms(1)] show "m s = b" "b \<noteq> 0" by auto
  from assms(2) have ahead: "reads_ahead d s (Suc (Suc (length bs)))" by simp
  show "reads_ahead (d + 1) (s + 1) (Suc (length bs))" by (rule reads_ahead_Suc(1) [OF ahead])
  show "cstr (write8 m d b) (s + 1) bs"
    using cstr_Cons [OF assms(1)] reads_ahead_Suc(2) [OF ahead]
    by (intro cstr_upd_other) (auto simp: less_Suc_eq_le)
qed

lemma strcpy_loop_store:
  "cstr m s bs \<Longrightarrow> reads_ahead d s (Suc (length bs)) \<Longrightarrow>
    strcpy_loop m d s = Some (store_bytes m d (bs @ [0]))"
proof (induction bs arbitrary: m d s)
  case Nil
  then have "m s = 0" by (simp add: cstr_Nil)
  then show ?case by (subst strcpy_loop.simps) (simp add: Let_def)
next
  case (Cons b bs)
  note st = cstr_step [OF Cons.prems]
  show ?case
    using st(1,2) Cons.IH [OF st(3,4)] by (simp add: strcpy_loop.simps [of m d s] Let_def)
qed

lemma strcat_copy_store:
  "cstr m s bs \<Longrightarrow> reads_ahead d s (Suc (length bs)) \<Longrightarrow>
    strcat_copy m d s = Some (store_bytes m d bs)"
proof (induction bs arbitrary: m d s)
  case Nil
  then show ?case by (simp add: cstr_Nil strcat_copy.simps)
next
  case (Cons b bs)
  note st = cstr_step [OF Cons.prems]
  show ?case
    using st(1,2) Cons.IH [OF st(3,4)] by (simp add: strcat_copy.simps [of m d s])
qed

lemma find_nul_cstr: "cstr m s bs \<Longrightarrow> find_nul m s = Some (s + of_nat (length bs))"
proof (induction bs arbitrary: s)
  case Nil
  then show ?case by (simp add: cstr_Nil find_nul.simps)
next
  case (Cons b bs)
  from cstr_Cons [OF Cons.prems] Cons.IH [of "s + 1"] show ?case
    by (simp add: find_nul.simps [of m s] algebra_simps)
qed

end
