(* ===== verification/Strnlen.thy ===== *)
theory Strnlen
  imports String_Lib
begin

text \<open>
  \<open>strnlen\<close> of \<open>src/libc/src/string/string.c\<close>: the word-at-a-time scan for a NUL, with its magic
  masks, its unaligned prefix and its clamping, and \<open>strncpy\<close>, which calls it. The lemmas show
  that a word without an alarm holds no NUL byte, and that the whole routine returns what a
  byte-at-a-time scan returns.
\<close>

section \<open>The code\<close>

definition himagic :: u64 where
  "himagic = (let h = 0x80808080 in push_bit 16 (push_bit 16 h) OR h)"

definition lomagic :: u64 where
  "lomagic = (let l = 0x01010101 in push_bit 16 (push_bit 16 l) OR l)"

text \<open>
  The unaligned prefix: \<open>Inl n\<close> is an early return, \<open>Inr p\<close> the first aligned address.
\<close>

lemma unat_and_7: "unat ((p :: u64) AND 7) = unat p mod 8"
proof -
  have "p AND 7 = take_bit 3 p" by (simp add: take_bit_eq_mask mask_eq_exp_minus_1)
  then show ?thesis by (simp add: take_bit_eq_mod unat_mod_distrib)
qed

lemma to_boundary_less:
  assumes "r < 8" and "r \<noteq> 0"
  shows "(8 - (r + 1) mod 8) mod 8 < (8 - r) mod (8 :: nat)"
proof (cases "r = 7")
  case False
  with assms show ?thesis by simp
qed simp

function align_loop :: "mem \<Rightarrow> addr \<Rightarrow> addr \<Rightarrow> addr \<Rightarrow> u64 + addr" where
  "align_loop m str end_ptr char_ptr =
     (if char_ptr AND 7 \<noteq> 0
      then (if m char_ptr = 0
            then Inl ((if char_ptr > end_ptr then end_ptr else char_ptr) - str)
            else align_loop m str end_ptr (char_ptr + 1))
      else Inr char_ptr)"
  by pat_completeness auto
termination
proof (relation "measure (\<lambda>(m, str, end_ptr, p). (8 - unat p mod 8) mod 8)"; clarsimp)
  fix p :: u64
  assume "p AND 7 \<noteq> 0"
  then have p: "unat p mod 8 \<noteq> 0" by (metis unat_and_7 unat_eq_zero)
  have "unat (p + 1) mod 8 = (unat p mod 8 + 1) mod 8"
    by (simp add: unat_word_ariths mod_mod_cancel mod_simps)
  with p show "(8 - unat (p + 1) mod 8) mod 8 < (8 - unat p mod 8) mod 8"
    using to_boundary_less [of "unat p mod 8"] by simp
qed

declare align_loop.simps [simp del]

text \<open>The first NUL of the eight bytes at \<open>cp\<close>, tested one by one, as the loop body does.\<close>

definition zero_byte :: "mem \<Rightarrow> addr \<Rightarrow> addr option" where
  "zero_byte m cp =
     (if m cp = 0 then Some cp
      else if m (cp + 1) = 0 then Some (cp + 1)
      else if m (cp + 2) = 0 then Some (cp + 2)
      else if m (cp + 3) = 0 then Some (cp + 3)
      else if m (cp + 4) = 0 then Some (cp + 4)
      else if m (cp + 5) = 0 then Some (cp + 5)
      else if m (cp + 6) = 0 then Some (cp + 6)
      else if m (cp + 7) = 0 then Some (cp + 7)
      else None)"

partial_function (option) word_loop :: "mem \<Rightarrow> addr \<Rightarrow> addr \<Rightarrow> addr \<Rightarrow> addr option" where
  "word_loop m end_ptr longword_ptr char_ptr =
     (if longword_ptr < end_ptr
      then (let longword = read64 m longword_ptr; longword_ptr' = longword_ptr + 8
            in if (longword - lomagic) AND himagic \<noteq> 0
               then (case zero_byte m (longword_ptr' - 8) of
                       Some cp \<Rightarrow> Some cp
                     | None \<Rightarrow> word_loop m end_ptr longword_ptr' end_ptr)
               else word_loop m end_ptr longword_ptr' end_ptr)
      else Some char_ptr)"

definition strnlen :: "mem \<Rightarrow> addr \<Rightarrow> u64 \<Rightarrow> u64 option" where
  "strnlen m str maxlen =
     (if maxlen = 0 then Some 0
      else (let end_ptr = (if str + maxlen < str then - 1 else str + maxlen)
            in (case align_loop m str end_ptr str of
                  Inl n \<Rightarrow> Some n
                | Inr p \<Rightarrow>
                    map_option
                      (\<lambda>char_ptr. (if char_ptr > end_ptr then end_ptr else char_ptr) - str)
                      (word_loop m end_ptr p p))))"

definition strncpy :: "mem \<Rightarrow> addr \<Rightarrow> addr \<Rightarrow> u64 \<Rightarrow> (mem \<times> addr) option" where
  "strncpy m s1 s2 n =
     map_option
       (\<lambda>size. memcpy (if size \<noteq> n then fst (memset m (s1 + size) 0 (n - size)) else m) s1 s2 size)
       (strnlen m s2 n)"

section \<open>The reference: a byte-at-a-time scan\<close>

definition scan :: "mem \<Rightarrow> addr \<Rightarrow> nat \<Rightarrow> nat" where
  "scan m p k = length (takeWhile (\<lambda>b. b \<noteq> 0) (bytes_at m p k))"

lemma scan_le: "scan m p k \<le> k"
  by (metis scan_def length_takeWhile_le length_bytes_at)

lemma scan_eqI:
  assumes "j \<le> k" and "\<And>i. i < j \<Longrightarrow> m (p + of_nat i) \<noteq> 0" and "j < k \<Longrightarrow> m (p + of_nat j) = 0"
  shows "scan m p k = j"
proof -
  have "takeWhile (\<lambda>b. b \<noteq> 0) (bytes_at m p k) = take j (bytes_at m p k)"
    using assms by (intro takeWhile_eq_take_P_nth) auto
  with assms(1) show ?thesis by (simp add: scan_def)
qed

lemma scan_add:
  assumes "\<And>i. i < j \<Longrightarrow> m (p + of_nat i) \<noteq> 0"
  shows "scan m p (j + k) = j + scan m (p + of_nat j) k"
proof -
  have "\<forall>b \<in> set (bytes_at m p j). b \<noteq> 0" using assms by (auto simp: in_set_conv_nth)
  then show ?thesis by (simp add: scan_def bytes_at_add takeWhile_append2)
qed

lemma scan_nonzero: "i < scan m p k \<Longrightarrow> m (p + of_nat i) \<noteq> 0"
proof -
  assume i: "i < scan m p k"
  then have "bytes_at m p k ! i \<noteq> 0"
    using nth_mem [of i "takeWhile (\<lambda>b. b \<noteq> 0) (bytes_at m p k)"]
    by (auto simp: scan_def takeWhile_nth dest: set_takeWhileD)
  with i scan_le [of m p k] show ?thesis by simp
qed

lemma scan_zero: "scan m p k < k \<Longrightarrow> m (p + of_nat (scan m p k)) = 0"
  using nth_length_takeWhile [of "\<lambda>b. b \<noteq> 0" "bytes_at m p k"] by (simp add: scan_def)

section \<open>The magic masks\<close>

fun ones_nat :: "nat \<Rightarrow> nat" where
  "ones_nat 0 = 0"
| "ones_nat (Suc n) = 1 + 256 * ones_nat n"

lemma ones_nat_less: "ones_nat n < 256 ^ n"
  by (induction n) simp_all

text \<open>
  Subtracting one from every byte sets the top bit of the lowest zero byte: no borrow reaches it
  from the bytes below, which are not zero.
\<close>

lemma borrow_bit:
  assumes "k < length bs" and "bs ! k = 0" and "\<And>i. i < k \<Longrightarrow> bs ! i \<noteq> 0"
  shows "odd ((le_nat bs + 256 ^ length bs - ones_nat (length bs)) div (128 * 256 ^ k))"
  using assms
proof (induction bs arbitrary: k)
  case (Cons b bs)
  define q where "q = le_nat bs + 256 ^ length bs - ones_nat (length bs)"
  have q: "le_nat bs + 256 ^ length bs = q + ones_nat (length bs)" "1 \<le> q"
    using ones_nat_less [of "length bs"] unfolding q_def by linarith+
  show ?case
  proof (cases k)
    case 0
    with Cons.prems q have "le_nat (b # bs) + 256 ^ length (b # bs) - ones_nat (length (b # bs))
        = 127 + 128 * (1 + 2 * (q - 1))" by simp
    moreover have "(127 + 128 * (1 + 2 * (q - 1))) div 128 = 1 + 2 * (q - 1)" by simp
    ultimately show ?thesis using 0 by simp
  next
    case (Suc k')
    have "unat b \<noteq> 0" using Cons.prems(3) [of 0] Suc by (simp add: unat_eq_zero)
    moreover have "unat b < 256" using unsigned_less [of b, where 'a = nat] by simp
    ultimately have "(le_nat (b # bs) + 256 ^ length (b # bs) - ones_nat (length (b # bs))) div 256 = q"
      using q by simp
    moreover have "odd (q div (128 * 256 ^ k'))"
      unfolding q_def using Cons.prems Suc by (intro Cons.IH) fastforce+
    moreover have "(128 * 256 ^ k :: nat) = 256 * (128 * 256 ^ k')" using Suc by simp
    ultimately show ?thesis using div_mult2_eq [of _ 256 "128 * 256 ^ k'"] by metis
  qed
qed simp

lemma himagic_eq: "himagic = 0x8080808080808080"
  by (simp add: himagic_def Let_def)

lemma himagic_bit: "k < 8 \<Longrightarrow> bit himagic (8 * k + 7)"
proof -
  assume "k < 8"
  then have "k \<in> {0, 1, 2, 3, 4, 5, 6, 7}" by auto
  then show ?thesis by (auto simp: himagic_eq bit_iff_odd)
qed

lemma ones_nat_8: "ones_nat 8 = 0x0101010101010101"
proof -
  have "ones_nat (Suc (Suc (Suc (Suc (Suc (Suc (Suc (Suc 0)))))))) = 0x0101010101010101" by simp
  moreover have "8 = Suc (Suc (Suc (Suc (Suc (Suc (Suc (Suc 0)))))))" by simp
  ultimately show ?thesis by metis
qed

lemma lomagic_ones: "lomagic = of_nat (ones_nat 8)"
  by (simp add: lomagic_def Let_def ones_nat_8)

text \<open>A word that holds a NUL byte raises the alarm.\<close>

lemma alarm:
  assumes k: "k < 8" "m (p + of_nat k) = 0" "\<And>i. i < k \<Longrightarrow> m (p + of_nat i) \<noteq> 0"
  shows "(read64 m p - lomagic) AND himagic \<noteq> 0"
proof -
  define bs where "bs = bytes_at m p 8"
  define d where "d = le_nat bs + 256 ^ 8 - ones_nat 8"
  have "read64 m p - lomagic = of_nat d"
    using ones_nat_less [of 8] by (simp add: d_def read64_def bs_def lomagic_ones of_nat_diff)
  moreover have "bit (of_nat d :: u64) (8 * k + 7)"
  proof -
    have "odd (d div (128 * 256 ^ k))"
      using borrow_bit [of k bs] k by (simp add: bs_def d_def)
    moreover have "(128 * 256 ^ k :: nat) = 2 ^ (8 * k + 7)" by (simp add: power_add power_mult)
    ultimately show ?thesis using k(1) by (simp add: bit_iff_odd [of d] bit_of_nat_iff)
  qed
  ultimately have "bit ((read64 m p - lomagic) AND himagic) (8 * k + 7)"
    using himagic_bit [OF k(1)] by (simp add: bit_and_iff)
  then show ?thesis by (metis bit_0_eq bot_apply bot_bool_def)
qed

lemma zero_byte_find:
  "zero_byte m p = map_option (\<lambda>k. p + of_nat k) (find (\<lambda>k. m (p + of_nat k) = 0) [0..<8])"
  by (simp add: zero_byte_def upt_conv_Cons)

lemma zero_byte_Some:
  assumes "k < 8" "m (p + of_nat k) = 0" "\<And>i. i < k \<Longrightarrow> m (p + of_nat i) \<noteq> 0"
  shows "zero_byte m p = Some (p + of_nat k)"
proof -
  have "find (\<lambda>k. m (p + of_nat k) = 0) [0..<8] = Some k"
    unfolding find_Some_iff using assms by (intro exI [of _ k]) auto
  then show ?thesis by (simp add: zero_byte_find)
qed

lemma zero_byte_None:
  assumes "\<And>i. i < 8 \<Longrightarrow> m (p + of_nat i) \<noteq> 0"
  shows "zero_byte m p = None"
proof -
  have "find (\<lambda>k. m (p + of_nat k) = 0) [0..<8] = None"
    using assms by (simp only: find_None_iff) auto
  then show ?thesis by (simp add: zero_byte_find)
qed

section \<open>The loops against the reference\<close>

text \<open>
  \<open>clamped e q\<close> is the final clamping of the code: the returned pointer, cut at the end pointer.
\<close>

abbreviation clamped :: "addr \<Rightarrow> addr \<Rightarrow> addr" where
  "clamped e q \<equiv> (if q > e then e else q)"

lemma unat_clamped: "unat (clamped e q) = min (unat q) (unat e)"
  by (auto simp: word_less_nat_alt)

lemma unat_plus_8: "unat (p :: addr) + 8 < 2 ^ 64 \<Longrightarrow> unat (p + 8) = unat p + 8"
  using unat_add_fits [of p 8] by simp

text \<open>
  One round of the word loop over eight bytes that may hold a NUL: it either stops at the first
  NUL or goes on behind them.
\<close>

lemma word_loop_round:
  assumes "longword_ptr < end_ptr"
  shows "scan m longword_ptr 8 < 8 \<Longrightarrow>
      word_loop m end_ptr longword_ptr cp = Some (longword_ptr + of_nat (scan m longword_ptr 8))"
    and "scan m longword_ptr 8 = 8 \<Longrightarrow>
      word_loop m end_ptr longword_ptr cp = word_loop m end_ptr (longword_ptr + 8) end_ptr"
proof -
  let ?p = longword_ptr
  show "word_loop m end_ptr ?p cp = Some (?p + of_nat (scan m ?p 8))" if s: "scan m ?p 8 < 8"
  proof -
    note z = s scan_zero [OF s] scan_nonzero [of _ m ?p 8]
    have "(read64 m ?p - lomagic) AND himagic \<noteq> 0" by (rule alarm) (use z in auto)
    moreover have "zero_byte m ?p = Some (?p + of_nat (scan m ?p 8))"
      by (rule zero_byte_Some) (use z in auto)
    ultimately show ?thesis
      using assms
      by (simp add: word_loop.simps [of m end_ptr ?p] Let_def)
  qed
  show "word_loop m end_ptr ?p cp = word_loop m end_ptr (?p + 8) end_ptr" if s: "scan m ?p 8 = 8"
  proof -
    have "zero_byte m ?p = None" using s scan_nonzero [of _ m ?p 8] by (intro zero_byte_None) simp
    then show ?thesis using assms by (simp add: word_loop.simps [of m end_ptr ?p] Let_def)
  qed
qed

lemma scan_mono_eq:
  assumes "k \<le> n"
  shows "scan m p k = min (scan m p n) k"
proof (rule scan_eqI)
  show "min (scan m p n) k \<le> k" by simp
  show "m (p + of_nat i) \<noteq> 0" if "i < min (scan m p n) k" for i
    using that scan_nonzero [of i m p n] by simp
  show "m (p + of_nat (min (scan m p n) k)) = 0" if "min (scan m p n) k < k"
    using that assms scan_zero [of m p n] by (auto simp: min_def split: if_splits)
qed

lemma word_loop_scan:
  assumes "unat end_ptr + 8 < 2 ^ 64" and "cp = end_ptr \<or> cp = longword_ptr"
  shows "\<exists>q. word_loop m end_ptr longword_ptr cp = Some q \<and>
    unat (clamped end_ptr q)
      = min (unat longword_ptr + scan m longword_ptr (unat end_ptr - unat longword_ptr)) (unat end_ptr)"
  using assms(2)
proof (induction "unat end_ptr - unat longword_ptr" arbitrary: longword_ptr cp rule: less_induct)
  case less
  let ?p = longword_ptr and ?e = end_ptr
  show ?case
  proof (cases "?p < ?e")
    case False
    then show ?thesis
      using less.prems scan_le [of m ?p 0]
      by (auto simp: word_loop.simps [of m ?e ?p] unat_clamped word_less_nat_alt)
  next
    case True
    then have pe: "unat ?p < unat ?e" by (simp add: word_less_nat_alt)
    show ?thesis
    proof (cases "scan m ?p 8 < 8")
      case s: True
      have "unat (?p + of_nat (scan m ?p 8)) = unat ?p + scan m ?p 8"
        using pe s assms(1) by (intro unat_add_fits) linarith
      moreover have "scan m ?p (unat ?e - unat ?p) = min (scan m ?p 8) (unat ?e - unat ?p)"
      proof (cases "8 \<le> unat ?e - unat ?p")
        case True
        then have "scan m ?p 8 = min (scan m ?p (unat ?e - unat ?p)) 8" by (rule scan_mono_eq)
        with s True show ?thesis by linarith
      next
        case False
        then have "unat ?e - unat ?p \<le> 8" by linarith
        then show ?thesis by (rule scan_mono_eq)
      qed
      ultimately have "unat (clamped ?e (?p + of_nat (scan m ?p 8)))
          = min (unat ?p + scan m ?p (unat ?e - unat ?p)) (unat ?e)"
        unfolding unat_clamped using pe by linarith
      with word_loop_round(1) [OF True s] show ?thesis by blast
    next
      case False
      then have s: "scan m ?p 8 = 8" using scan_le [of m ?p 8] by linarith
      have p8: "unat (?p + 8) = unat ?p + 8" using pe assms(1) by (intro unat_plus_8) linarith
      with pe have "unat ?e - unat (?p + 8) < unat ?e - unat ?p" by linarith
      from less.hyps [OF this, of ?e] obtain q where q: "word_loop m ?e (?p + 8) ?e = Some q"
        "unat (clamped ?e q)
          = min (unat (?p + 8) + scan m (?p + 8) (unat ?e - unat (?p + 8))) (unat ?e)" by auto
      have "min (unat (?p + 8) + scan m (?p + 8) (unat ?e - unat (?p + 8))) (unat ?e)
          = min (unat ?p + scan m ?p (unat ?e - unat ?p)) (unat ?e)"
      proof (cases "8 \<le> unat ?e - unat ?p")
        case True
        then have "scan m ?p (unat ?e - unat ?p) = 8 + scan m (?p + 8) (unat ?e - unat ?p - 8)"
          using scan_add [of 8 m ?p "unat ?e - unat ?p - 8"] s scan_nonzero [of _ m ?p 8] by simp
        with True p8 show ?thesis by simp
      next
        case False
        then have "scan m ?p (unat ?e - unat ?p) = unat ?e - unat ?p"
          using scan_mono_eq [of "unat ?e - unat ?p" 8 m ?p] s by simp
        with False p8 pe show ?thesis by simp
      qed
      with q word_loop_round(2) [OF True s] show ?thesis by auto
    qed
  qed
qed

text \<open>
  The prefix loop passes \<open>j\<close> bytes that are not NUL and then stops, at a boundary or at a NUL; it
  stops before the next boundary of eight.
\<close>

definition align_stops :: "mem \<Rightarrow> addr \<Rightarrow> addr \<Rightarrow> addr \<Rightarrow> nat \<Rightarrow> bool" where
  "align_stops m s e p j \<longleftrightarrow> (\<forall>i < j. m (p + of_nat i) \<noteq> 0) \<and>
     (align_loop m s e p = Inr (p + of_nat j)
      \<or> m (p + of_nat j) = 0 \<and> align_loop m s e p = Inl (clamped e (p + of_nat j) - s))"

lemma align_stops_step:
  assumes "p AND 7 \<noteq> 0" and "m p \<noteq> 0" and "align_stops m s e (p + 1) j"
  shows "align_stops m s e p (Suc j)"
proof -
  have al: "align_loop m s e p = align_loop m s e (p + 1)"
    using assms by (simp add: align_loop.simps [of m s e p])
  have p: "p + of_nat (Suc j) = p + 1 + of_nat j" by simp
  have "\<forall>i < Suc j. m (p + of_nat i) \<noteq> 0"
    using assms(2,3) by (auto simp: align_stops_def less_Suc_eq_0_disj algebra_simps)
  then show ?thesis
    unfolding align_stops_def al p using assms(3) [unfolded align_stops_def] by blast
qed

lemma align_stops_bound: "\<exists>j \<le> (8 - unat p mod 8) mod 8. align_stops m s e p j"
proof (induction m s e p rule: align_loop.induct)
  case (1 m s e p)
  show ?case
  proof (cases "p AND 7 \<noteq> 0 \<and> m p \<noteq> 0")
    case False
    then have "align_stops m s e p 0" by (auto simp: align_stops_def align_loop.simps [of m s e p])
    then show ?thesis by blast
  next
    case True
    then obtain j where j: "j \<le> (8 - unat (p + 1) mod 8) mod 8" "align_stops m s e (p + 1) j"
      using "1.IH" by blast
    have "unat p mod 8 \<noteq> 0" using True by (metis unat_and_7 unat_eq_zero)
    then have "(8 - unat (p + 1) mod 8) mod 8 < (8 - unat p mod 8) mod 8"
      using to_boundary_less [of "unat p mod 8"] by (simp add: unat_word_ariths mod_mod_cancel mod_simps)
    with j(1) have "Suc j \<le> (8 - unat p mod 8) mod 8" by linarith
    with align_stops_step True j(2) show ?thesis by blast
  qed
qed

lemma align_loop_cases: "\<exists>j < 8. align_stops m s e p j"
proof -
  obtain j where j: "j \<le> (8 - unat p mod 8) mod 8" "align_stops m s e p j"
    using align_stops_bound by blast
  have "(8 - unat p mod 8) mod 8 < 8" by simp
  with j show ?thesis by (meson le_less_trans)
qed

lemma pointer_diff:
  assumes "unat c = unat s + k"
  shows "c - s = (of_nat k :: u64)"
proof -
  have "of_nat (unat c) = (of_nat (unat s + k) :: u64)" using assms by (rule arg_cong)
  then show ?thesis by simp
qed

lemma strnlen_scan:
  assumes "unat s + unat n + 8 < 2 ^ 64"
  shows "strnlen m s n = Some (of_nat (scan m s (unat n)))"
proof (cases "n = 0")
  case True
  then show ?thesis using scan_le [of m s 0] by (simp add: strnlen_def)
next
  case n: False
  let ?e = "s + n"
  have e: "unat ?e = unat s + unat n" using assms unat_add_fits [of s "unat n"] by simp
  then have "\<not> ?e < s" by (simp add: word_less_nat_alt)
  then have strnlen: "strnlen m s n = (case align_loop m s ?e s of Inl n \<Rightarrow> Some n
      | Inr p \<Rightarrow> map_option (\<lambda>q. clamped ?e q - s) (word_loop m ?e p p))"
    using n by (simp add: strnlen_def Let_def)
  obtain j where j: "j < 8" "\<forall>i < j. m (s + of_nat i) \<noteq> 0" and
    al: "align_loop m s ?e s = Inr (s + of_nat j)
      \<or> m (s + of_nat j) = 0 \<and> align_loop m s ?e s = Inl (clamped ?e (s + of_nat j) - s)"
    using align_loop_cases unfolding align_stops_def by metis
  have sj: "unat (s + of_nat j) = unat s + j" using j(1) assms by (intro unat_add_fits) linarith
  have scan_n: "scan m s (unat n) = (if j \<le> unat n then j + scan m (s + of_nat j) (unat n - j) else unat n)"
  proof (cases "j \<le> unat n")
    case True
    then show ?thesis using scan_add [of j m s "unat n - j"] j(2) by simp
  next
    case False
    then show ?thesis using j(2) by (intro scan_eqI) auto
  qed
  from al show ?thesis
  proof
    assume al: "align_loop m s ?e s = Inr (s + of_nat j)"
    obtain q where q: "word_loop m ?e (s + of_nat j) (s + of_nat j) = Some q"
      "unat (clamped ?e q) = min (unat (s + of_nat j)
         + scan m (s + of_nat j) (unat ?e - unat (s + of_nat j))) (unat ?e)"
      using word_loop_scan [of ?e "s + of_nat j" "s + of_nat j" m] assms e by auto
    have "unat (clamped ?e q) = unat s + scan m s (unat n)"
      using q(2) scan_n sj e scan_le [of m "s + of_nat j" "unat n - j"] by (auto simp: min_def)
    from pointer_diff [OF this] q(1) al strnlen show ?thesis by simp
  next
    assume al: "m (s + of_nat j) = 0 \<and> align_loop m s ?e s = Inl (clamped ?e (s + of_nat j) - s)"
    then have "scan m (s + of_nat j) (unat n - j) = 0" by (intro scan_eqI) auto
    then have "unat (clamped ?e (s + of_nat j)) = unat s + scan m s (unat n)"
      using scan_n sj e unfolding unat_clamped by auto
    from pointer_diff [OF this] al strnlen show ?thesis by simp
  qed
qed

end
