(* ===== verification/String_Props.thy ===== *)
theory String_Props
  imports Strnlen
begin

text \<open>
  What the routines of \<open>string.c\<close> promise: copies that respect overlap, scans that stop exactly
  where memory has a NUL, comparisons as lexicographic orders, in-place edits of C strings, and
  where the promises stop.
\<close>

section \<open>Comparison loops\<close>

lemma memcmp_loop_spec:
  "memcmp_loop m a b n =
     (if bytes_at m a n = bytes_at m b n then 0
      else if lex_less (<) (bytes_at m a n) (bytes_at m b n) then - 1 else 1)"
  by (induction n arbitrary: a b) (auto simp: bytes_at_Suc)

fun strcmp_spec :: "u8 list \<Rightarrow> u8 list \<Rightarrow> u32" where
  "strcmp_spec (b # bs) (c # cs) = (if b = c then strcmp_spec bs cs else scast b - scast c)"
| "strcmp_spec [] [] = 0"
| "strcmp_spec [] (c # cs) = 0 - scast c"
| "strcmp_spec (b # bs) [] = scast b - 0"

lemma strcmp_cstr: "cstr m a bs \<Longrightarrow> cstr m b cs \<Longrightarrow> strcmp m a b = Some (strcmp_spec bs cs)"
proof (induction bs cs arbitrary: a b rule: strcmp_spec.induct)
  case (1 b' bs c' cs)
  from cstr_Cons [OF "1.prems"(1)] cstr_Cons [OF "1.prems"(2)] "1.IH" [of "a + 1" "b + 1"]
  show ?case by (simp add: strcmp.simps [of m a b])
qed (auto simp: strcmp.simps [of m a b for m a b] cstr_Nil dest!: cstr_Cons)

lemma sint_diff_bytes: "sint (scast (b :: u8) - scast (c :: u8) :: u32) = sint b - sint c"
proof -
  have "- 128 \<le> sint b" "sint b < 128" "- 128 \<le> sint c" "sint c < 128"
    using sint_ge [of b] sint_lt [of b] sint_ge [of c] sint_lt [of c] by simp_all
  then show ?thesis
    by (simp add: sint_word_ariths signed_take_bit_int_eq_self signed_scast_eq)
qed

text \<open>\<open>strcmp\<close> compares the strings with their NUL, byte by byte, as signed \<open>char\<close>.\<close>

abbreviation char_less :: "u8 \<Rightarrow> u8 \<Rightarrow> bool" where
  "char_less b c \<equiv> sint b < sint c"

lemma strcmp_spec_sign:
  assumes "0 \<notin> set bs" and "0 \<notin> set cs"
  shows "sint (strcmp_spec bs cs) < 0 \<longleftrightarrow> lex_less char_less (bs @ [0]) (cs @ [0])"
    and "strcmp_spec bs cs = 0 \<longleftrightarrow> bs = cs"
proof -
  have z: "sint (- scast c :: u32) = - sint c" "sint (scast c :: u32) = sint c" for c :: u8
    using sint_diff_bytes [of 0 c] sint_diff_bytes [of c 0] by simp_all
  have eq: "scast b = (scast c :: u32) \<longleftrightarrow> b = c" for b c :: u8
    using z(2) by (metis signed_word_eqI)
  have eq0: "scast c = (0 :: u32) \<longleftrightarrow> c = 0" for c :: u8 using eq [of c 0] by simp
  show "sint (strcmp_spec bs cs) < 0 \<longleftrightarrow> lex_less char_less (bs @ [0]) (cs @ [0])"
    using assms by (induction bs cs rule: strcmp_spec.induct) (auto simp: sint_diff_bytes z)
  show "strcmp_spec bs cs = 0 \<longleftrightarrow> bs = cs"
    using assms by (induction bs cs rule: strcmp_spec.induct) (auto simp: eq eq0)
qed

section \<open>The reversal loop\<close>

lemma strrev_loop_apply:
  assumes "b < 2 ^ 64"
  shows "strrev_loop m str (int a) (int b) x =
    (let k = unat (x - str) in if a \<le> k \<and> k \<le> b then m (str + of_nat (a + b - k)) else m x)"
  using assms
proof (induction "b - a" arbitrary: a b m rule: less_induct)
  case less
  define k where "k = unat (x - str)"
  have x: "x = str + of_nat k" by (simp add: k_def)
  have k: "k < 2 ^ 64" using unat_lt_64 by (simp add: k_def)
  show ?case
  proof (cases "a < b")
    case False
    then have "strrev_loop m str (int a) (int b) = m" by (simp add: strrev_loop.simps)
    moreover have "m (str + of_nat (a + b - k)) = m x" if "a \<le> k" "k \<le> b"
    proof -
      have "a + b - k = k" using that False by linarith
      then show ?thesis by (simp only: x)
    qed
    ultimately show ?thesis by (simp add: k_def [symmetric] Let_def)
  next
    case True
    let ?m = "write8 (write8 m (str + of_nat a) (m (str + of_nat b))) (str + of_nat b) (m (str + of_nat a))"
    have at: "?m (str + of_nat l) = m (str + of_nat (if l = a then b else if l = b then a else l))"
      if "l < 2 ^ 64" for l
      using that True less.prems by (simp add: write8_apply of_nat_eq_iff_64)
    have "strrev_loop m str (int a) (int b) x = strrev_loop ?m str (int (Suc a)) (int (b - 1)) x"
      using True by (subst strrev_loop.simps) (simp add: of_nat_diff algebra_simps)
    also have "\<dots> = (if Suc a \<le> k \<and> k \<le> b - 1 then ?m (str + of_nat (Suc a + (b - 1) - k)) else ?m x)"
      using less.hyps [of "b - 1" "Suc a" ?m] True less.prems by (simp add: k_def Let_def)
    also have "\<dots> = (if a \<le> k \<and> k \<le> b then m (str + of_nat (a + b - k)) else m x)"
      using True less.prems k at [of k] at [of "a + b - k"] unfolding x by auto
    finally show ?thesis by (simp add: k_def Let_def)
  qed
qed

lemma strrev_cstr:
  assumes "cstr m s bs" and "length bs < 2 ^ 31"
  shows "strrev m s = Some (store_bytes m s (rev bs))"
proof (cases "bs = []")
  case True
  then show ?thesis
    using assms by (simp add: strrev_def strlen_cstr strrev_loop.simps)
next
  case False
  let ?n = "length bs" let ?b = "?n - 1"
  have n: "0 < ?n" "?n < 2 ^ 31" using False assms(2) by auto
  have "sint (ucast (of_nat ?n :: u64) - 1 :: u32) = int ?b"
  proof -
    obtain l where l: "?n = Suc l" using n by (cases ?n) auto
    have "(ucast (of_nat ?n :: u64) - 1 :: u32) = word_of_nat ?b"
      using n unfolding l by (simp add: unsigned_of_nat take_bit_nat_eq_self del: of_nat_Suc) simp
    then have "sint (ucast (of_nat ?n :: u64) - 1 :: u32) = sint (word_of_nat ?b :: u32)"
      by (rule arg_cong)
    also have "\<dots> = int ?b" using n by (simp only: signed_of_nat) (simp add: signed_take_bit_int_eq_self)
    finally show ?thesis .
  qed
  then have rev: "strrev m s = Some (strrev_loop m s (int 0) (int ?b))"
    using assms(1) by (simp add: strrev_def strlen_cstr Let_def)
  have "strrev_loop m s (int 0) (int ?b) = store_bytes m s (rev bs)"
  proof
    fix x
    let ?k = "unat (x - s)"
    have loop: "strrev_loop m s (int 0) (int ?b) x = (if ?k \<le> ?b then m (s + of_nat (?b - ?k)) else m x)"
      using n strrev_loop_apply [of ?b m s 0 x] by (simp only: Let_def) auto
    show "strrev_loop m s (int 0) (int ?b) x = store_bytes m s (rev bs) x"
    proof (cases "?k < ?n")
      case True
      then have "?k \<le> ?b" and "m (s + of_nat (?b - ?k)) = bs ! (?n - Suc ?k)"
        using cstr_nth [OF assms(1), of "?b - ?k"] by simp_all
      with True n show ?thesis
        unfolding loop by (simp add: store_bytes_apply in_region_def rev_nth)
    next
      case False
      with n have "\<not> ?k \<le> ?b" by linarith
      with False n show ?thesis unfolding loop by (simp add: store_bytes_apply in_region_def)
    qed
  qed
  with rev show ?thesis by simp
qed

section \<open>Properties\<close>

text \<open>C19: \<open>memmove\<close> moves the bytes the source region held before the call, however the two
  regions overlap, changes nothing else, and returns the destination.\<close>

theorem memmove_correct:
  assumes "fits d (unat n)" and "fits s (unat n)"
  shows "memmove m d s n = (store_bytes m d (bytes_at m s (unat n)), d)"
proof (cases "d < s")
  case True
  with assms have "reads_ahead d s (unat n)" by (simp add: below_reads_ahead)
  with True show ?thesis by (simp add: memmove_def memcpy_loop_store)
next
  case False
  with assms have "reads_behind d s (unat n)" by (simp add: above_reads_behind)
  from memmove_down_store [OF this] False unat_lt_64 [of n] show ?thesis
    by (simp add: memmove_def algebra_simps)
qed

theorem memmove_correct_witness:
  "memmove (store_bytes (\<lambda>_. 0) 100 [1, 2, 3, 4]) 102 100 4
     = (store_bytes (store_bytes (\<lambda>_. 0) 100 [1, 2, 3, 4]) 102 [1, 2, 3, 4], 102)"
proof -
  have "fits 102 (unat (4 :: u64))" "fits 100 (unat (4 :: u64))" by (simp_all add: fits_def)
  from memmove_correct [OF this, of "store_bytes (\<lambda>_. 0) 100 [1, 2, 3, 4]"]
  show ?thesis by (simp add: bytes_at_def write8_def upt_conv_Cons)
qed

text \<open>C20: \<open>strlen\<close> returns exactly the number of bytes before the first NUL, and it fails to
  return only if no byte of the whole address space is NUL.\<close>

theorem strlen_exact:
  "(strlen m s = Some n \<longleftrightarrow> cstr m s (bytes_at m s (unat n)))
   \<and> (strlen m s = None \<longleftrightarrow> (\<forall>x. m x \<noteq> 0))"
proof (intro conjI iffI)
  have ex: "\<exists>bs. cstr m s bs" if "strlen m s = Some k" for k
    using that strlen_loop_stops_at_nul [of m s 0 k] cstr_exists by (auto simp: strlen_def)
  show "cstr m s (bytes_at m s (unat n))" if len: "strlen m s = Some n"
  proof -
    obtain bs where bs: "cstr m s bs" using ex [OF len] by blast
    with len have "n = of_nat (length bs)" by (simp add: strlen_cstr)
    with bs show ?thesis by (simp add: cstr_def unat_of_nat_64)
  qed
  show "strlen m s = Some n" if "cstr m s (bytes_at m s (unat n))"
    using strlen_cstr [OF that] by simp
  show "\<forall>x. m x \<noteq> 0" if "strlen m s = None"
    using that cstr_exists [of m _ s] strlen_cstr [of m s] by auto
  show "strlen m s = None" if "\<forall>x. m x \<noteq> 0"
    using that ex cstr_end by (metis not_None_eq)
qed

text \<open>C21: the word-at-a-time \<open>strnlen\<close>, with its magic masks, returns what a byte-at-a-time scan
  returns: the number of bytes before the first NUL, at most \<open>n\<close>. The hypothesis keeps the last word it
  may read below the top of the address space.\<close>

theorem strnlen_equals_scan:
  assumes "unat s + unat n + 8 < 2 ^ 64"
  shows "strnlen m s n = Some (of_nat (length (takeWhile (\<lambda>b. b \<noteq> 0) (bytes_at m s (unat n)))))"
  using strnlen_scan [OF assms] by (simp add: scan_def)

theorem strnlen_equals_scan_witness:
  "strnlen (store_bytes (\<lambda>_. 0) 0x1003 [65, 0x81, 66]) 0x1003 20 = Some 3"
proof -
  have "unat (0x1003 :: u64) + unat (20 :: u64) + 8 < 2 ^ 64" by simp
  from strnlen_equals_scan [OF this, of "store_bytes (\<lambda>_. 0) 0x1003 [65, 0x81, 66]"]
  show ?thesis by (simp add: bytes_at_def write8_def upt_conv_Cons)
qed

text \<open>\<open>strncpy\<close> stores exactly \<open>n\<close> bytes: the source up to its NUL or to \<open>n\<close> bytes, padded with
  NULs.\<close>

theorem strncpy_pads:
  assumes "unat s + unat n + 8 < 2 ^ 64" and "disjoint_regions d (unat n) s (unat n)"
  shows "strncpy m d s n =
    (let src = takeWhile (\<lambda>b. b \<noteq> 0) (bytes_at m s (unat n))
     in Some (store_bytes m d (src @ replicate (unat n - length src) 0), d))"
proof -
  let ?k = "scan m s (unat n)" and ?src = "takeWhile (\<lambda>b. b \<noteq> 0) (bytes_at m s (unat n))"
  let ?pad = "replicate (unat n - ?k) (0 :: u8)"
  let ?m = "store_bytes m (d + of_nat ?k) ?pad"
  have k: "?k \<le> unat n" "?k < 2 ^ 64" using scan_le [of m s "unat n"] unat_lt_64 [of n] by linarith+
  have src: "bytes_at m s ?k = ?src"
    using takeWhile_eq_take [of "\<lambda>b. b \<noteq> 0" "bytes_at m s (unat n)"] k(1)
    by (simp add: scan_def bytes_at_def take_map)
  have len: "length ?src = ?k" by (simp add: scan_def)
  have "disjoint_regions (d + of_nat ?k) (unat n - ?k) s ?k"
    unfolding disjoint_regions_def
  proof (intro allI impI)
    fix i j assume "i < unat n - ?k" "j < ?k"
    then have "d + of_nat (?k + i) \<noteq> s + of_nat j"
      using assms(2) k(1) unfolding disjoint_regions_def by (simp only: less_diff_conv) auto
    then show "d + of_nat ?k + of_nat i \<noteq> s + of_nat j" by (simp add: add.assoc)
  qed
  then have keep: "bytes_at ?m s ?k = ?src"
    using unat_lt_64 [of n] by (simp add: bytes_at_store_disjoint src)
  have "reads_ahead d s ?k"
    using disjoint_regions_mono [OF assms(2) k(1) k(1)] by (rule disjoint_reads_ahead)
  then have copy: "memcpy_loop ?m d s ?k = store_bytes m d (?src @ ?pad)"
    using store_bytes_tail_head [of ?src ?pad m d] unat_lt_64 [of n] k(1) len
    by (simp add: memcpy_loop_store keep)
  have fill: "(if of_nat ?k \<noteq> n then fst (memset m (d + of_nat ?k) 0 (n - of_nat ?k)) else m) = ?m"
  proof (cases "?k = unat n")
    case False
    with k have "unat (n - of_nat ?k) = unat n - ?k"
      by (subst unat_sub) (simp_all add: word_le_nat_alt unat_of_nat_64)
    with False k show ?thesis by (auto simp: memset_def memset_loop_store unat_of_nat_64)
  qed simp
  show ?thesis
    using strnlen_scan [OF assms(1), of m] fill copy k(2)
    by (simp add: strncpy_def memcpy_def unat_of_nat_64 Let_def len)
qed

theorem strncpy_pads_witness:
  "strncpy (store_bytes (\<lambda>_. 9) 100 [65, 66, 0]) 200 100 4
     = Some (store_bytes (store_bytes (\<lambda>_. 9) 100 [65, 66, 0]) 200 [65, 66, 0, 0], 200)"
proof -
  have "disjoint_regions 200 (unat (4 :: u64)) 100 (unat (4 :: u64))"
    unfolding disjoint_regions_sym [of 200] by (rule disjoint_regionsI_below) (simp_all add: fits_def)
  moreover have "unat (100 :: u64) + unat (4 :: u64) + 8 < 2 ^ 64" by simp
  moreover have "replicate 2 (0 :: u8) = [0, 0]" by (simp add: numeral_2_eq_2)
  ultimately show ?thesis
    using strncpy_pads [of 100 4 200 "store_bytes (\<lambda>_. 9) 100 [65, 66, 0]"]
    by (simp add: bytes_at_def write8_def upt_conv_Cons Let_def)
qed

text \<open>\<open>strcat\<close> copies the bytes of the source behind the destination string and nothing else.
  It stores no NUL: the result is the concatenation exactly when the byte after it was NUL before
  the call.\<close>

theorem strcat_leaves_no_terminator:
  assumes "cstr m d ds" and "cstr m s ss" and "d \<noteq> 0" and "s \<noteq> 0"
    and "length ds + length ss < 2 ^ 64"
    and "disjoint_regions (d + of_nat (length ds)) (Suc (length ss)) s (Suc (length ss))"
  shows "\<exists>m'. strcat m d s = Some (m', d) \<and> m' = store_bytes m (d + of_nat (length ds)) ss
    \<and> (cstr m' d (ds @ ss) \<longleftrightarrow> m (d + of_nat (length ds + length ss)) = 0)"
proof -
  let ?e = "d + of_nat (length ds)"
  let ?m = "store_bytes m ?e ss"
  have "strcat m d s = Some (?m, d)"
    using assms strcat_copy_store [OF assms(2) disjoint_reads_ahead [OF assms(6)]]
    by (simp add: strcat_def find_nul_cstr)
  moreover have "?m (d + of_nat (length ds + length ss)) = m (d + of_nat (length ds + length ss))"
    using assms(5) in_region_offset [of "length ss" ?e "length ss"]
    by (intro store_bytes_outside) (simp_all add: add.assoc)
  moreover have "bytes_at ?m d (length ds) = ds"
  proof -
    have "disjoint_regions ?e (length ss) d (length ds)"
      unfolding disjoint_regions_def using assms(5)
      by (auto simp: add.assoc of_nat_eq_iff_64 simp flip: of_nat_add)
    then show ?thesis using assms(1,5) by (simp add: bytes_at_store_disjoint cstr_def)
  qed
  moreover have "bytes_at ?m ?e (length ss) = ss" using assms(5) by (simp add: bytes_at_store_bytes)
  ultimately show ?thesis using assms(1,2,5) by (auto simp: cstr_def bytes_at_add)
qed

theorem strcat_leaves_no_terminator_witness:
  "\<exists>m'. strcat (store_bytes (\<lambda>_. 9) 100 [65, 0, 9, 9, 66, 67, 0]) 100 104 = Some (m', 100)
     \<and> \<not> cstr m' 100 [65, 66, 67]"
proof -
  let ?m = "store_bytes (\<lambda>_. 9) 100 [65, 0, 9, 9, 66, 67, 0] :: mem"
  have "cstr ?m 100 [65]" "cstr ?m 104 [66, 67]"
    by (simp_all add: cstr_def bytes_at_def write8_def upt_conv_Cons)
  moreover have "disjoint_regions (100 + of_nat (length [65 :: u8])) (Suc (length [66 :: u8, 67]))
      104 (Suc (length [66 :: u8, 67]))"
    by (rule disjoint_regionsI_below) (simp_all add: fits_def)
  moreover have "?m 103 \<noteq> 0" by (simp add: write8_def)
  ultimately show ?thesis
    using strcat_leaves_no_terminator [of ?m 100 "[65]" 104 "[66, 67]"] by force
qed

text \<open>appending a character and then removing it gives the string back.\<close>

theorem backspace_undoes_append:
  assumes "cstr m s bs" and "c \<noteq> 0" and "length bs + 1 < 2 ^ 64"
  shows "\<exists>m1 m2. append_char m s c = Some m1 \<and> cstr m1 s (bs @ [c])
    \<and> backspace m1 s = Some m2 \<and> cstr m2 s bs"
proof -
  let ?n = "length bs"
  let ?m1 = "write8 (write8 m (s + of_nat ?n) c) (s + of_nat (Suc ?n)) 0"
  have app: "append_char m s c = Some ?m1"
    using assms(1) by (simp add: append_char_def strlen_cstr algebra_simps)
  have off: "s + of_nat i = s + of_nat j \<longleftrightarrow> i = j" if "i \<le> Suc ?n" "j \<le> Suc ?n" for i j
    using that assms(3) by (intro offset_eq_iff) linarith+
  have keep: "bytes_at ?m1 s ?n = bs"
    using assms(1) off by (subst bytes_at_upd_other, simp del: of_nat_Suc, subst bytes_at_upd_other)
      (simp_all add: cstr_def)
  have at: "?m1 (s + of_nat ?n) = c" "?m1 (s + of_nat (Suc ?n)) = 0"
    using off [of ?n "Suc ?n"] by (simp_all add: write8_apply del: of_nat_Suc)
  have c1: "cstr ?m1 s (bs @ [c])"
    using assms keep at by (simp add: cstr_def bytes_at_Suc_end del: of_nat_Suc)
  then have "backspace ?m1 s = Some (write8 ?m1 (s + of_nat ?n) 0)"
    by (simp add: backspace_def strlen_cstr)
  moreover have "cstr (write8 ?m1 (s + of_nat ?n) 0) s bs"
    using assms(1) keep off by (auto simp: cstr_def write8_apply bytes_at_upd_other simp del: of_nat_Suc)
  ultimately show ?thesis using app c1 by blast
qed

theorem backspace_undoes_append_witness:
  "\<exists>m1 m2. append_char (store_bytes (\<lambda>_. 9) 100 [65, 0]) 100 66 = Some m1
     \<and> cstr m1 100 [65, 66] \<and> backspace m1 100 = Some m2 \<and> cstr m2 100 [65]"
proof -
  have "cstr (store_bytes (\<lambda>_. 9) 100 [65, 0]) 100 [65]"
    by (simp add: cstr_def bytes_at_def write8_def)
  from backspace_undoes_append [OF this, of 66] show ?thesis by simp
qed

text \<open>on the empty string \<open>backspace\<close> stores its NUL at the byte before the string, which does
  not belong to it.\<close>

theorem backspace_underflows:
  "m s = 0 \<Longrightarrow> backspace m s = Some (write8 m (s - 1) 0)"
  using strlen_cstr [of m s "[]"] by (simp add: backspace_def cstr_Nil)

theorem backspace_underflows_witness:
  "backspace (\<lambda>x. if x = 100 then 0 else 7) 100 = Some (write8 (\<lambda>x. if x = 100 then 0 else 7) 99 0)"
  using backspace_underflows [of "\<lambda>x. if x = 100 then 0 else 7" 100] by simp

text \<open>\<open>memcmp\<close> returns 0 on equal regions, and otherwise -1 or 1 by the lexicographic order of
  the unsigned bytes.\<close>

theorem memcmp_lexicographic:
  "memcmp m a b n =
     (let xs = bytes_at m a (unat n); ys = bytes_at m b (unat n)
      in if xs = ys then 0 else if lex_less (<) xs ys then - 1 else 1)"
  by (simp add: memcmp_def memcmp_loop_spec Let_def)

text \<open>\<open>strcmp\<close> returns on C strings; its result is 0 exactly on equal strings and negative
  exactly when the first string with its NUL is lexicographically below the second, the characters taken as signed.\<close>

theorem strcmp_signed_order:
  assumes "cstr m a bs" and "cstr m b cs"
  shows "\<exists>r. strcmp m a b = Some r \<and> (r = 0 \<longleftrightarrow> bs = cs)
    \<and> (sint r < 0 \<longleftrightarrow> lex_less (\<lambda>x y. sint x < sint y) (bs @ [0]) (cs @ [0]))"
proof -
  have "0 \<notin> set bs" "0 \<notin> set cs" using assms by (simp_all add: cstr_def)
  from strcmp_spec_sign [OF this] strcmp_cstr [OF assms] show ?thesis by blast
qed

theorem strcmp_signed_order_witness:
  "\<exists>r. strcmp (store_bytes (\<lambda>_. 0) 100 [65, 0, 65, 66, 0]) 100 102 = Some r \<and> sint r < 0"
proof -
  let ?m = "store_bytes (\<lambda>_. 0) 100 [65, 0, 65, 66, 0] :: mem"
  have "cstr ?m 100 [65]" "cstr ?m 102 [65, 66]"
    by (simp_all add: cstr_def bytes_at_def write8_def upt_conv_Cons)
  from strcmp_signed_order [OF this] show ?thesis by auto
qed

text \<open>\<open>strcmp\<close> and \<open>strncmp\<close> disagree on characters above 127: the first compares them as
  negative numbers, the second as unsigned ones.\<close>

theorem strcmp_strncmp_disagree:
  "\<exists>m a b r. strcmp m a b = Some r \<and> sint r < 0 \<and> 0 < sint (strncmp m a b 2)"
proof -
  let ?m = "store_bytes (\<lambda>_. 0) 100 [0xE4, 0, 65, 0] :: mem"
  have "cstr ?m 100 [0xE4]" "cstr ?m 102 [65]"
    by (simp_all add: cstr_def bytes_at_def write8_def)
  then have "strcmp ?m 100 102 = Some (strcmp_spec [0xE4] [65])" by (rule strcmp_cstr)
  moreover have "sint (strcmp_spec [0xE4] [65]) < 0" by simp
  moreover have loop: "strncmp_loop ?m 100 102 (Suc 1) = 0xA3"
    by (simp only: strncmp_loop.simps) (simp add: write8_def)
  have "unat (2 :: u64) = Suc 1" by simp
  then have "strncmp ?m 100 102 2 = 0xA3" unfolding strncmp_def by (simp only: loop) simp
  then have "0 < sint (strncmp ?m 100 102 2)" by simp
  ultimately show ?thesis by blast
qed

text \<open>\<open>strrev\<close> reverses a C string in place, touches nothing else, and undoes itself.\<close>

theorem strrev_reverses:
  assumes "cstr m s bs" and "length bs < 2 ^ 31"
  shows "strrev m s = Some (store_bytes m s (rev bs)) \<and> strrev (store_bytes m s (rev bs)) s = Some m"
proof
  let ?m = "store_bytes m s (rev bs)"
  show "strrev m s = Some ?m" using assms by (rule strrev_cstr)
  have n: "length (rev bs) \<le> 2 ^ 64" using assms(2) by simp
  have "?m (s + of_nat (length bs)) = 0"
    using assms in_region_offset [of "length bs" s "length bs"]
    by (subst store_bytes_outside) (simp_all add: cstr_end)
  then have "cstr ?m s (rev bs)"
    using assms bytes_at_store_bytes [OF n, of m s] by (simp add: cstr_def)
  then have "strrev ?m s = Some (store_bytes ?m s bs)"
    using strrev_cstr [of ?m s "rev bs"] assms(2) by simp
  moreover have "m = store_bytes ?m s bs"
    using assms by (intro store_bytes_eqI) (simp_all add: cstr_def store_bytes_outside)
  ultimately show "strrev ?m s = Some m" by simp
qed

theorem strrev_reverses_witness:
  "strrev (store_bytes (\<lambda>_. 0) 100 [65, 66, 67]) 100
     = Some (store_bytes (store_bytes (\<lambda>_. 0) 100 [65, 66, 67]) 100 [67, 66, 65])"
proof -
  have "cstr (store_bytes (\<lambda>_. 0) 100 [65, 66, 67]) 100 [65, 66, 67]"
    by (simp add: cstr_def bytes_at_def write8_def upt_conv_Cons)
  from strrev_reverses [OF this] show ?thesis by simp
qed

end
