(* ===== verification/Machine.thy ===== *)
theory Machine
  imports Kernel_Prelude
begin

text \<open>
  The machine the kernel runs on, as far as its C++ code touches it: the flat memory, the I/O
  ports, and the ways a run can go wrong. A port instruction is an event of the trace \<open>ports\<close>
  (newest first); what a device answers to a read is the field \<open>device\<close>, a function of the trace so
  far and of the port, which no code changes. Port numbers are the 16 low bits of the 32-bit
  argument, as the \<open>%w1\<close> operand of the instructions in
  \<open>src/platform/x86_64/src/port.cpp\<close> has it.
\<close>

section \<open>Runs\<close>

text \<open>
  \<open>None\<close> is a run that does not return, \<open>Some (Inl f)\<close> one that leaves the language (an access outside
  an array, an overflow of a signed integer, a variable argument of the wrong kind, a call
  through a null pointer, a shift by the width or more, an interrupt without a gate),
  \<open>Some (Inr x)\<close> one that returns \<open>x\<close>.
\<close>

datatype fault = Out_of_bounds | Signed_overflow | Bad_argument | Division_by_zero | Null_pointer | Invalid_shift | No_gate

type_synonym 'a exec = "(fault + 'a) option"

definition ret :: "'a \<Rightarrow> 'a exec" where
  "ret x = Some (Inr x)"

definition fail :: "fault \<Rightarrow> 'a exec" where
  "fail f = Some (Inl f)"

definition seq :: "'a exec \<Rightarrow> ('a \<Rightarrow> 'b exec) \<Rightarrow> 'b exec" where
  "seq m f = (case m of
     None \<Rightarrow> None
   | Some (Inl e) \<Rightarrow> Some (Inl e)
   | Some (Inr x) \<Rightarrow> f x)"

definition lift_sum :: "fault + 'a \<Rightarrow> 'a exec" where
  "lift_sum r = Some r"

named_theorems exec_simps \<open>running through sequences of calls\<close>

lemma seq_ret [simp, exec_simps]: "seq (ret x) f = f x"
  by (simp add: seq_def ret_def)

lemma seq_fail [simp, exec_simps]: "seq (fail e) f = fail e"
  by (simp add: seq_def fail_def)

lemma seq_assoc [exec_simps]: "seq (seq m f) g = seq m (\<lambda>x. seq (f x) g)"
  by (auto simp: seq_def split: option.splits sum.splits)

lemma seq_return [simp, exec_simps]: "seq m ret = m"
  by (auto simp: seq_def ret_def split: option.splits sum.splits)

lemma ret_neq [simp]: "ret x \<noteq> None" "ret x \<noteq> fail f" "fail f \<noteq> ret x" "fail f \<noteq> None"
  by (simp_all add: ret_def fail_def)

lemma ret_inject [simp]: "ret x = ret y \<longleftrightarrow> x = y" "fail e = fail f \<longleftrightarrow> e = f"
  by (simp_all add: ret_def fail_def)

lemma lift_sum_simps [simp, exec_simps]: "lift_sum (Inr x) = ret x" "lift_sum (Inl e) = fail e"
  by (simp_all add: lift_sum_def ret_def fail_def)

lemma seq_eq_ret: "seq m f = ret y \<longleftrightarrow> (\<exists>x. m = ret x \<and> f x = ret y)"
  by (auto simp: seq_def ret_def split: option.splits sum.splits)

lemma seq_cong [fundef_cong]:
  "m = m' \<Longrightarrow> (\<And>x. m' = ret x \<Longrightarrow> f x = g x) \<Longrightarrow> seq m f = seq m' g"
  by (auto simp: seq_def ret_def split: option.splits sum.splits)

lemma seq_bind: "seq m f = Option.bind m (case_sum (\<lambda>e. Some (Inl e)) f)"
  by (auto simp: seq_def split: option.splits sum.splits)

lemma seq_mono [partial_function_mono]:
  assumes "mono_option B" and "\<And>y. mono_option (\<lambda>f. C y f)"
  shows "mono_option (\<lambda>f. seq (B f) (\<lambda>y. C y f))"
proof -
  have "mono_option (\<lambda>f. case_sum (\<lambda>e. Some (Inl e)) (\<lambda>y. C y f) r)" for r
  proof (cases r)
    case (Inl e)
    then show ?thesis by (simp add: monotone_def flat_ord_def)
  next
    case (Inr y)
    then show ?thesis by (simp add: assms(2))
  qed
  with assms(1) show ?thesis unfolding seq_bind by (rule bind_mono)
qed

section \<open>Words in memory\<close>

text \<open>The 16-bit cells of the text screen are little-endian words.\<close>

definition load16 :: "mem \<Rightarrow> addr \<Rightarrow> u16" where
  "load16 m a = ucast (m a) OR push_bit 8 (ucast (m (a + 1)))"

definition store16 :: "mem \<Rightarrow> addr \<Rightarrow> u16 \<Rightarrow> mem" where
  "store16 m a v = write8 (write8 m a (ucast v)) (a + 1) (ucast (drop_bit 8 v))"

lemma load16_store16 [mem_simps]: "load16 (store16 m a v) a = v"
proof -
  have "a + 1 \<noteq> a" by simp
  then show ?thesis
    by (auto intro!: bit_word_eqI simp: load16_def store16_def write8_def bit_or_iff bit_ucast_iff
        bit_push_bit_iff bit_drop_bit_eq)
qed

lemma load16_store16_other:
  "a \<noteq> b \<Longrightarrow> a + 1 \<noteq> b \<Longrightarrow> b + 1 \<noteq> a \<Longrightarrow> load16 (store16 m a v) b = load16 m b"
  by (simp add: load16_def store16_def write8_def)

lemma store16_outside:
  "x \<noteq> a \<Longrightarrow> x \<noteq> a + 1 \<Longrightarrow> store16 m a v x = m x"
  by (simp add: store16_def write8_def)

section \<open>Ports\<close>

datatype port_event =
    In8 u16 | In16 u16 | In32 u16
  | Out8 u16 u8 | Out16 u16 u16 | Out32 u16 u32

record machine =
  ram :: mem
  ports :: "port_event list"
  device :: "port_event list \<Rightarrow> u16 \<Rightarrow> u32"

definition port_inb :: "'a machine_scheme \<Rightarrow> u32 \<Rightarrow> u8 \<times> 'a machine_scheme" where
  "port_inb s port = (ucast (device s (ports s) (ucast port)),
     s\<lparr>ports := In8 (ucast port) # ports s\<rparr>)"

definition port_outb :: "'a machine_scheme \<Rightarrow> u32 \<Rightarrow> u8 \<Rightarrow> 'a machine_scheme" where
  "port_outb s port data = s\<lparr>ports := Out8 (ucast port) data # ports s\<rparr>"

definition port_inw :: "'a machine_scheme \<Rightarrow> u32 \<Rightarrow> u16 \<times> 'a machine_scheme" where
  "port_inw s port = (ucast (device s (ports s) (ucast port)),
     s\<lparr>ports := In16 (ucast port) # ports s\<rparr>)"

definition port_outw :: "'a machine_scheme \<Rightarrow> u32 \<Rightarrow> u16 \<Rightarrow> 'a machine_scheme" where
  "port_outw s port data = s\<lparr>ports := Out16 (ucast port) data # ports s\<rparr>"

definition port_ind :: "'a machine_scheme \<Rightarrow> u32 \<Rightarrow> u32 \<times> 'a machine_scheme" where
  "port_ind s port = (device s (ports s) (ucast port),
     s\<lparr>ports := In32 (ucast port) # ports s\<rparr>)"

definition port_outd :: "'a machine_scheme \<Rightarrow> u32 \<Rightarrow> u32 \<Rightarrow> 'a machine_scheme" where
  "port_outd s port data = s\<lparr>ports := Out32 (ucast port) data # ports s\<rparr>"

text \<open>The same functions with C linkage, for the C files (\<open>src/platform/x86_64/src/c_port.cpp\<close>).\<close>

definition c_port_inb :: "u32 \<Rightarrow> 'a machine_scheme \<Rightarrow> u8 \<times> 'a machine_scheme" where
  "c_port_inb port s = port_inb s port"

definition c_port_outb :: "u32 \<Rightarrow> u8 \<Rightarrow> 'a machine_scheme \<Rightarrow> 'a machine_scheme" where
  "c_port_outb port data s = port_outb s port data"

definition c_port_inw :: "u32 \<Rightarrow> 'a machine_scheme \<Rightarrow> u16 \<times> 'a machine_scheme" where
  "c_port_inw port s = port_inw s port"

definition c_port_outw :: "u32 \<Rightarrow> u16 \<Rightarrow> 'a machine_scheme \<Rightarrow> 'a machine_scheme" where
  "c_port_outw port data s = port_outw s port data"

definition c_port_ind :: "u32 \<Rightarrow> 'a machine_scheme \<Rightarrow> u32 \<times> 'a machine_scheme" where
  "c_port_ind port s = port_ind s port"

definition c_port_outd :: "u32 \<Rightarrow> u32 \<Rightarrow> 'a machine_scheme \<Rightarrow> 'a machine_scheme" where
  "c_port_outd port data s = port_outd s port data"

text \<open>The bytes the trace wrote to a port, in the order of the writes.\<close>

fun written :: "u16 \<Rightarrow> port_event list \<Rightarrow> u8 list" where
  "written p [] = []"
| "written p (Out8 q v # es) = written p es @ (if p = q then [v] else [])"
| "written p (_ # es) = written p es"

end
