(* ===== verification/Text_Screen.thy ===== *)
theory Text_Screen
  imports Machine
begin

text \<open>
  The text screen both consoles write to: 80 x 25 cells of 16 bits from \<open>0xB8000\<close> on, and the
  abstract screen they implement, a list of cells with a cursor. The lemmas turn the loops over
  memory of \<open>vgaprint.cpp\<close> and \<open>tui.cpp\<close> into operations on that list.
\<close>

section \<open>Loops\<close>

text \<open>A loop over an index is a \<open>fold\<close> over the list of its values.\<close>

lemma upto_map_int: "[0..int n - 1] = map int [0..<n]"
  by (induction n) (simp_all add: upto_rec2)

lemma fold_abs:
  assumes "\<And>x s. x \<in> set xs \<Longrightarrow> F (f x s) = g x (F s)"
  shows "F (fold f xs s) = fold g xs (F s)"
  using assms by (induction xs arbitrary: s) simp_all

lemma fold_keeps:
  assumes "\<And>x s. x \<in> set xs \<Longrightarrow> P s \<Longrightarrow> P (f x s)" and "P s"
  shows "P (fold f xs s)"
  using assms by (induction xs arbitrary: s) simp_all

lemma fold_nested:
  "fold (\<lambda>y. fold (\<lambda>x. g (w * y + x)) [0..<w]) [0..<h] s = fold g [0..<w * h] s"
proof (induction h)
  case (Suc h)
  have inner: "fold (\<lambda>x. g (w * h + x)) [0..<w] t = fold g (map ((+) (w * h)) [0..<w]) t" for t
    by (simp add: fold_map comp_def)
  have shift: "map ((+) (w * h)) [0..<w] = [w * h..<w * h + w]"
    by (rule nth_equalityI) auto
  have "[0..<w * Suc h] = [0..<w * h] @ [w * h..<w * h + w]"
    by (metis add.commute le0 mult_Suc_right upt_add_eq_append)
  then show ?case by (simp only: Suc upt_Suc_append le0 fold_append comp_def fold_simps inner shift)
qed simp

lemma fold_shift:
  "k + w \<le> length xs \<Longrightarrow>
    fold (\<lambda>i xs. xs[i := xs ! (i + w)]) [0..<k] xs = take k (drop w xs) @ drop k xs"
proof (induction k)
  case (Suc k)
  then have "fold (\<lambda>i xs. xs[i := xs ! (i + w)]) [0..<Suc k] xs
    = (take k (drop w xs) @ drop k xs)[k := (take k (drop w xs) @ drop k xs) ! (k + w)]"
    by simp
  also have "(take k (drop w xs) @ drop k xs) ! (k + w) = xs ! (k + w)"
  proof -
    have "k < length xs - w" "k \<le> length xs" using Suc.prems by simp_all
    then show ?thesis by (simp add: nth_append)
  qed
  also have "(take k (drop w xs) @ drop k xs)[k := xs ! (k + w)]
    = take k (drop w xs) @ (drop k xs)[0 := xs ! (k + w)]"
    using Suc.prems by (simp add: list_update_append min_def)
  also have "(drop k xs)[0 := xs ! (k + w)] = xs ! (k + w) # drop (Suc k) xs"
    using Suc.prems Cons_nth_drop_Suc [of k xs] by (metis add_leD1 le_simps(3) add_Suc list_update_code(2))
  also have "take k (drop w xs) @ xs ! (k + w) # drop (Suc k) xs
    = take (Suc k) (drop w xs) @ drop (Suc k) xs"
    using Suc.prems by (simp add: take_Suc_conv_app_nth add.commute)
  finally show ?case .
qed simp

lemma fold_fill:
  "b + k \<le> length xs \<Longrightarrow>
    fold (\<lambda>i xs. xs[b + i := v]) [0..<k] xs = take b xs @ replicate k v @ drop (b + k) xs"
proof (induction k)
  case (Suc k)
  then have "fold (\<lambda>i xs. xs[b + i := v]) [0..<Suc k] xs
    = (take b xs @ replicate k v @ drop (b + k) xs)[b + k := v]"
    by simp
  also have "\<dots> = take b xs @ replicate k v @ (drop (b + k) xs)[0 := v]"
    using Suc.prems by (simp add: list_update_append min_def)
  also have "(drop (b + k) xs)[0 := v] = v # drop (b + Suc k) xs"
    using Suc.prems by (simp add: Cons_nth_drop_Suc [symmetric])
  finally show ?case by (simp add: replicate_append_same)
qed simp

section \<open>Cells\<close>

definition cell_addr :: "nat \<Rightarrow> addr" where
  "cell_addr i = 0xB8000 + 2 * of_nat i"

definition cells :: "mem \<Rightarrow> nat \<Rightarrow> u16 list" where
  "cells m n = map (\<lambda>i. load16 m (cell_addr i)) [0..<n]"

lemma length_cells [simp]: "length (cells m n) = n"
  by (simp add: cells_def)

lemma nth_cells [simp]: "i < n \<Longrightarrow> cells m n ! i = load16 m (cell_addr i)"
  by (simp add: cells_def)

lemma cell_addr_unat: "i < 2 ^ 32 \<Longrightarrow> unat (cell_addr i) = 0xB8000 + 2 * i"
proof -
  assume i: "i < 2 ^ 32"
  have "cell_addr i = of_nat (0xB8000 + 2 * i)" by (simp add: cell_addr_def)
  moreover have "unat (of_nat (0xB8000 + 2 * i) :: u64) = 0xB8000 + 2 * i"
    using i by (intro unat_of_nat_64) simp
  ultimately show ?thesis by simp
qed

lemma cell_addr_unat_Suc: "i < 2 ^ 32 \<Longrightarrow> unat (cell_addr i + 1) = 0xB8000 + 2 * i + 1"
  using unat_add_fits [of "cell_addr i" 1] by (simp add: cell_addr_unat)

lemma cell_addr_neq:
  assumes "i < 2 ^ 32" "j < 2 ^ 32" "i \<noteq> j"
  shows "cell_addr i \<noteq> cell_addr j" "cell_addr i + 1 \<noteq> cell_addr j"
proof -
  have "unat (cell_addr i) \<noteq> unat (cell_addr j)" "unat (cell_addr i + 1) \<noteq> unat (cell_addr j)"
    using assms by (simp_all add: cell_addr_unat cell_addr_unat_Suc, presburger?)
  then show "cell_addr i \<noteq> cell_addr j" "cell_addr i + 1 \<noteq> cell_addr j" by auto
qed

lemma cells_store16:
  assumes "i < n" "n \<le> 2 ^ 32"
  shows "cells (store16 m (cell_addr i) v) n = (cells m n)[i := v]"
proof (rule nth_equalityI)
  fix j assume "j < length (cells (store16 m (cell_addr i) v) n)"
  with assms show "cells (store16 m (cell_addr i) v) n ! j = (cells m n)[i := v] ! j"
    by (cases "i = j") (simp_all add: load16_store16 load16_store16_other cell_addr_neq)
qed simp

text \<open>The screen is the region of the first 2000 cells.\<close>

definition outside_screen :: "addr \<Rightarrow> bool" where
  "outside_screen a \<longleftrightarrow> \<not> in_region 0xB8000 4000 a"

lemma store16_outside_screen:
  assumes "i < 2000" "outside_screen a"
  shows "store16 m (cell_addr i) v a = m a"
proof -
  have "fits 0xB8000 4000" by (simp add: fits_def)
  then have "in_region 0xB8000 4000 (cell_addr i)" "in_region 0xB8000 4000 (cell_addr i + 1)"
    using assms(1) by (simp_all add: in_region_fits cell_addr_unat cell_addr_unat_Suc)
  with assms(2) show ?thesis
    by (intro store16_outside) (auto simp: outside_screen_def)
qed

section \<open>The abstract screen\<close>

text \<open>Scrolling drops the first line and appends a blank one.\<close>

definition scroll_up :: "u16 \<Rightarrow> u16 list \<Rightarrow> u16 list" where
  "scroll_up blank cs = drop 80 cs @ replicate 80 blank"

lemma length_scroll_up [simp]: "80 \<le> length cs \<Longrightarrow> length (scroll_up blank cs) = length cs"
  by (simp add: scroll_up_def)

text \<open>The two loops of a scroll, on the list of the 2000 cells.\<close>

lemma scroll_loops:
  assumes "length cs = 2000"
  shows "fold (\<lambda>i xs. xs[1920 + i := blank]) [0..<80]
      (fold (\<lambda>i xs. xs[i := xs ! (i + 80)]) [0..<1920] cs) = scroll_up blank cs"
  using assms by (simp add: fold_shift fold_fill scroll_up_def)

text \<open>
  The abstract screen is the list of its cells and the number of the cell the cursor is on: a
  newline moves to the next multiple of 80, any other character is stored and moves on by one,
  and reaching the end scrolls by one line.
\<close>

definition screen_put :: "u16 \<Rightarrow> u16 \<Rightarrow> char \<Rightarrow> u16 list \<times> nat \<Rightarrow> u16 list \<times> nat" where
  "screen_put blank entry c = (\<lambda>(cs, p).
     let (cs', p') = (if c = CHR 0x0A then (cs, (p div 80 + 1) * 80) else (cs[p := entry], p + 1))
     in if p' < 2000 then (cs', p') else (scroll_up blank cs', 1920))"

lemma screen_put_inv:
  "length cs = 2000 \<Longrightarrow> p < 2000 \<Longrightarrow> screen_put blank entry c (cs, p) = (cs', p') \<Longrightarrow>
    length cs' = 2000 \<and> p' < 2000"
  by (auto simp: screen_put_def split: if_splits)

end
