(* ===== verification/Vga.thy ===== *)
theory Vga
  imports Text_Screen
begin

text \<open>
  The debug console of \<open>src/libk/src/vgaprint.cpp\<close>: the 80 x 25 text screen at \<open>0xB8000\<close> with its
  cursor, the first serial port, and \<open>vga_printf\<close>, which writes to both. The static variables
  of the file are the fields the record \<open>vga\<close> adds to the machine. A C string that is passed to
  these routines is the list of its characters without the NUL; the NUL stands behind the end of
  the list, and a read behind the NUL is the fault \<open>Out_of_bounds\<close>.
\<close>

section \<open>Serial port\<close>

partial_function (option) serial_wait :: "'a machine_scheme \<Rightarrow> 'a machine_scheme exec" where
  "serial_wait s =
     (case port_inb s (0x3F8 + 5) of (v, s') \<Rightarrow>
        if v AND 0x20 = 0 then serial_wait s' else ret s')"

function serial_putc :: "'a machine_scheme \<Rightarrow> char \<Rightarrow> 'a machine_scheme exec" where
  "serial_putc s c =
     seq (serial_wait s) (\<lambda>s1.
       let s2 = port_outb s1 0x3F8 (of_char c)
       in if c = CHR 0x0A then serial_putc s2 CHR 0x0D else ret s2)"
  by auto
termination
  by (relation "measure (\<lambda>(s, c). if c = CHR 0x0A then 1 else 0)") auto

declare serial_putc.simps [simp del]

fun serial_puts :: "'a machine_scheme \<Rightarrow> string \<Rightarrow> 'a machine_scheme exec" where
  "serial_puts s [] = ret s"
| "serial_puts s (c # cs) =
     (if c \<noteq> CHR 0x00 then seq (serial_putc s c) (\<lambda>s'. serial_puts s' cs) else ret s)"

section \<open>Screen\<close>

datatype vga_color = VGA_BLACK | VGA_GREEN | VGA_RED | VGA_WHITE

fun vga_color_code :: "vga_color \<Rightarrow> u8" where
  "vga_color_code VGA_BLACK = 0"
| "vga_color_code VGA_GREEN = 2"
| "vga_color_code VGA_RED = 4"
| "vga_color_code VGA_WHITE = 7"

record vga = machine +
  cursor_x :: int
  cursor_y :: int
  current_color :: vga_color

definition VGA_WIDTH :: int where
  "VGA_WIDTH = 80"

definition VGA_HEIGHT :: int where
  "VGA_HEIGHT = 25"

definition VGA_MEM :: "int \<Rightarrow> addr" where
  "VGA_MEM i = 0xB8000 + 2 * of_int i"

definition vga_entry :: "char \<Rightarrow> vga_color \<Rightarrow> u16" where
  "vga_entry c fg =
     (let color = vga_color_code fg OR push_bit 4 (vga_color_code VGA_BLACK)
      in scast (of_char c :: u8) OR push_bit 8 (ucast color))"

definition vga_store :: "int \<Rightarrow> u16 \<Rightarrow> 'a vga_scheme \<Rightarrow> 'a vga_scheme" where
  "vga_store i v s = s\<lparr>ram := store16 (ram s) (VGA_MEM i) v\<rparr>"

definition vga_scroll :: "'a vga_scheme \<Rightarrow> 'a vga_scheme" where
  "vga_scroll s =
     (let s1 = fold (\<lambda>y. fold (\<lambda>x s.
                  vga_store (y * VGA_WIDTH + x) (load16 (ram s) (VGA_MEM ((y + 1) * VGA_WIDTH + x))) s)
                [0..VGA_WIDTH - 1]) [0..VGA_HEIGHT - 1 - 1] s;
          s2 = fold (\<lambda>x s.
                  vga_store ((VGA_HEIGHT - 1) * VGA_WIDTH + x) (vga_entry CHR '' '' (current_color s)) s)
                [0..VGA_WIDTH - 1] s1
      in s2\<lparr>cursor_y := VGA_HEIGHT - 1, cursor_x := 0\<rparr>)"

definition vga_putchar :: "'a vga_scheme \<Rightarrow> char \<Rightarrow> 'a vga_scheme" where
  "vga_putchar s c =
     (let s1 = (if c = CHR 0x0A then s\<lparr>cursor_x := 0, cursor_y := cursor_y s + 1\<rparr>
                else let s' = vga_store (cursor_y s * VGA_WIDTH + cursor_x s)
                                (vga_entry c (current_color s)) s;
                         x = cursor_x s' + 1
                     in if x = VGA_WIDTH then s'\<lparr>cursor_x := 0, cursor_y := cursor_y s' + 1\<rparr>
                        else s'\<lparr>cursor_x := x\<rparr>)
      in if cursor_y s1 \<ge> VGA_HEIGHT then vga_scroll s1 else s1)"

fun vga_puts :: "'a vga_scheme \<Rightarrow> string \<Rightarrow> 'a vga_scheme" where
  "vga_puts s [] = s"
| "vga_puts s (c # cs) = (if c \<noteq> CHR 0x00 then vga_puts (vga_putchar s c) cs else s)"

definition vga_init :: "'a vga_scheme \<Rightarrow> 'a vga_scheme" where
  "vga_init s =
     (let s1 = fold (\<lambda>i s. vga_store i (vga_entry CHR '' '' (current_color s)) s)
                [0..VGA_WIDTH * VGA_HEIGHT - 1] s
      in s1\<lparr>cursor_x := 0, cursor_y := 0\<rparr>)"

definition vga_setcolor :: "'a vga_scheme \<Rightarrow> vga_color \<Rightarrow> 'a vga_scheme" where
  "vga_setcolor s fg = s\<lparr>current_color := fg\<rparr>"

section \<open>Formatted output\<close>

text \<open>
  The buffer \<open>buf[32]\<close> of \<open>vga_printf\<close> is filled downwards from its NUL at index 31: the list
  holds the characters from \<open>p\<close> to the NUL, and \<open>*--p = c\<close> puts one in front unless \<open>p\<close> is
  already \<open>buf\<close>. The value is the non-negative number the code divides; \<open>- v\<close> of the smallest
  \<open>int\<close> or \<open>long\<close> overflows, which C++ leaves undefined.
\<close>

definition push_buf :: "char \<Rightarrow> string \<Rightarrow> string exec" where
  "push_buf c p = (if length p < 31 then ret (c # p) else fail Out_of_bounds)"

function fmt_dec :: "nat \<Rightarrow> string \<Rightarrow> string exec" where
  "fmt_dec v p =
     seq (push_buf (char_of (of_char CHR ''0'' + v mod 10)) p)
       (\<lambda>p. if v div 10 \<noteq> 0 then fmt_dec (v div 10) p else ret p)"
  by auto
termination
  by (relation "measure fst") auto

function fmt_hex :: "nat \<Rightarrow> string \<Rightarrow> string exec" where
  "fmt_hex v p =
     seq (push_buf (''0123456789abcdef'' ! (v AND 0xf)) p)
       (\<lambda>p. if drop_bit 4 v \<noteq> 0 then fmt_hex (drop_bit 4 v) p else ret p)"
  by auto
termination
  by (relation "measure fst") (auto simp: drop_bit_eq_div)

declare fmt_dec.simps [simp del]
declare fmt_hex.simps [simp del]

text \<open>\<open>%p\<close> prints a fixed number of digits.\<close>

fun fmt_hex_digits :: "nat \<Rightarrow> nat \<Rightarrow> string \<Rightarrow> string exec" where
  "fmt_hex_digits 0 v p = ret p"
| "fmt_hex_digits (Suc i) v p =
     seq (push_buf (''0123456789abcdef'' ! (v AND 0xf)) p) (\<lambda>p. fmt_hex_digits i (drop_bit 4 v) p)"

definition fmt_signed :: "int \<Rightarrow> int \<Rightarrow> string exec" where
  "fmt_signed least v =
     (if v = least then fail Signed_overflow
      else seq (fmt_dec (nat (if v < 0 then - v else v)) [])
             (\<lambda>p. if v < 0 then push_buf CHR ''-'' p else ret p))"

text \<open>
  A variable argument is a machine word or a pointer to a string. \<open>vga_out\<close> is the pair of calls
  that sends a piece of text to the screen and to the serial port.
\<close>

datatype va_arg = VaWord u64 | VaStr string

definition vga_out :: "'a vga_scheme \<Rightarrow> string \<Rightarrow> 'a vga_scheme exec" where
  "vga_out s p = serial_puts (vga_puts s p) p"

definition vga_outc :: "'a vga_scheme \<Rightarrow> char \<Rightarrow> 'a vga_scheme exec" where
  "vga_outc s c = serial_putc (vga_putchar s c) c"

text \<open>
  One conversion, given the characters behind the \<open>%\<close>: what it prints, the rest of the format and
  the rest of the arguments. At the end of the format the conversion character is the NUL, the
  default branch prints it, and the loop goes on behind the end of the string.
\<close>

fun vga_word :: "va_arg list \<Rightarrow> (u64 \<times> va_arg list) exec" where
  "vga_word (VaWord w # args) = ret (w, args)"
| "vga_word _ = fail Bad_argument"

fun vga_conv :: "'a vga_scheme \<Rightarrow> string \<Rightarrow> va_arg list \<Rightarrow>
    ('a vga_scheme \<times> string \<times> va_arg list) exec" where
  "vga_conv s [] args =
     seq (serial_putc (vga_putchar (vga_putchar s CHR ''%'') CHR 0x00) CHR ''%'') (\<lambda>s.
     seq (serial_putc s CHR 0x00) (\<lambda>s. fail Out_of_bounds))"
| "vga_conv s (c # fmt) args =
     (if c = CHR ''d'' then
        seq (vga_word args) (\<lambda>(w, args).
        seq (fmt_signed (- (2 ^ 31)) (sint (ucast w :: u32))) (\<lambda>p.
        seq (vga_out s p) (\<lambda>s. ret (s, fmt, args))))
      else if c = CHR ''u'' then
        seq (vga_word args) (\<lambda>(w, args).
        seq (fmt_dec (unat (ucast w :: u32)) []) (\<lambda>p.
        seq (vga_out s p) (\<lambda>s. ret (s, fmt, args))))
      else if c = CHR ''x'' then
        seq (vga_word args) (\<lambda>(w, args).
        seq (fmt_hex (unat (ucast w :: u32)) []) (\<lambda>p.
        seq (vga_out s p) (\<lambda>s. ret (s, fmt, args))))
      else if c = CHR ''p'' then
        seq (vga_word args) (\<lambda>(w, args).
        seq (fmt_hex_digits 8 (unat w) []) (\<lambda>p.
        seq (serial_putc (vga_puts (vga_puts s ''0x'') p) CHR ''0'') (\<lambda>s.
        seq (serial_putc s CHR ''x'') (\<lambda>s.
        seq (serial_puts s p) (\<lambda>s. ret (s, fmt, args))))))
      else if c = CHR ''l'' then
        (case fmt of
           [] \<Rightarrow> fail Out_of_bounds
         | d # fmt \<Rightarrow>
             if d = CHR ''d'' then
               seq (vga_word args) (\<lambda>(w, args).
               seq (fmt_signed (- (2 ^ 63)) (sint w)) (\<lambda>p.
               seq (vga_out s p) (\<lambda>s. ret (s, fmt, args))))
             else if d = CHR ''u'' then
               seq (vga_word args) (\<lambda>(w, args).
               seq (fmt_dec (unat w) []) (\<lambda>p.
               seq (vga_out s p) (\<lambda>s. ret (s, fmt, args))))
             else if d = CHR ''x'' then
               seq (vga_word args) (\<lambda>(w, args).
               seq (fmt_hex (unat w) []) (\<lambda>p.
               seq (vga_out s p) (\<lambda>s. ret (s, fmt, args))))
             else ret (s, fmt, args))
      else if c = CHR ''c'' then
        seq (vga_word args) (\<lambda>(w, args).
        seq (vga_outc s (char_of (unat w))) (\<lambda>s. ret (s, fmt, args)))
      else if c = CHR ''s'' then
        (case args of
           VaStr str # args \<Rightarrow> seq (vga_out s str) (\<lambda>s. ret (s, fmt, args))
         | _ \<Rightarrow> fail Bad_argument)
      else
        seq (serial_putc (vga_putchar (vga_putchar s CHR ''%'') c) CHR ''%'') (\<lambda>s.
        seq (serial_putc s c) (\<lambda>s. ret (s, fmt, args))))"

lemma vga_conv_length: "vga_conv s fmt args = ret (s', fmt', args') \<Longrightarrow> length fmt' < length fmt"
  by (cases "(s, fmt, args)" rule: vga_conv.cases)
    (auto simp: seq_eq_ret split: if_splits list.splits va_arg.splits)

function vga_printf :: "'a vga_scheme \<Rightarrow> string \<Rightarrow> va_arg list \<Rightarrow> 'a vga_scheme exec" where
  "vga_printf s [] args = ret s"
| "vga_printf s (c # fmt) args =
     (if c = CHR 0x00 then ret s
      else if c \<noteq> CHR ''%'' then seq (vga_outc s c) (\<lambda>s. vga_printf s fmt args)
      else seq (vga_conv s fmt args) (\<lambda>(s, fmt, args). vga_printf s fmt args))"
  by pat_completeness auto
termination
  by (relation "measure (\<lambda>(s, fmt, args). length fmt)") (auto dest: vga_conv_length)

end
