(* ===== verification/Tui.thy ===== *)
theory Tui
  imports Vga String_Lib
begin

text \<open>
  The text console of the kernel proper: \<open>src/libk/src/tui.cpp\<close>, \<open>src/libk/include/tui.h\<close> and the
  colours of \<open>src/libk/include/color.h\<close>. The static members \<open>pos\<close> and \<open>color\<close> of the class \<open>TUI\<close> are the
  fields the record \<open>tui\<close> adds to the state; a \<open>char_t\<close> is two bytes of the text buffer at \<open>0xB8000\<close>,
  the character in the low and the two four-bit fields of its colour in the high one. The hardware
  cursor is programmed through the two ports of the CRT controller.
\<close>

section \<open>Colours\<close>

datatype color_t = BLACK | BLUE | GREEN | CYAN | RED | PURPLE | BROWN | GREY
  | DARK_GREY | LIGHT_BLUE | LIGHT_GREEN | LIGHT_CYAN | LIGHT_RED | LIGHT_PURPLE | YELLOW | WHITE

definition all_colors :: "color_t list" where
  "all_colors = [BLACK, BLUE, GREEN, CYAN, RED, PURPLE, BROWN, GREY,
     DARK_GREY, LIGHT_BLUE, LIGHT_GREEN, LIGHT_CYAN, LIGHT_RED, LIGHT_PURPLE, YELLOW, WHITE]"

fun color_code :: "color_t \<Rightarrow> u8" where
  "color_code BLACK = 0" | "color_code BLUE = 1" | "color_code GREEN = 2" | "color_code CYAN = 3"
| "color_code RED = 4" | "color_code PURPLE = 5" | "color_code BROWN = 6" | "color_code GREY = 7"
| "color_code DARK_GREY = 8" | "color_code LIGHT_BLUE = 9" | "color_code LIGHT_GREEN = 10"
| "color_code LIGHT_CYAN = 11" | "color_code LIGHT_RED = 12" | "color_code LIGHT_PURPLE = 13"
| "color_code YELLOW = 14" | "color_code WHITE = 15"

text \<open>The cast of a number below 16 to the enumeration.\<close>

definition color_cast :: "u8 \<Rightarrow> color_t" where
  "color_cast v = all_colors ! unat v"

section \<open>Positions, colours, characters\<close>

record pos_t =
  pos_col :: u8
  pos_row :: u8

record col_t =
  col_fore :: "4 word"
  col_back :: "4 word"

record char_t =
  char_c :: u8
  char_color :: col_t

definition new_pos :: "u8 \<Rightarrow> u8 \<Rightarrow> pos_t" where
  "new_pos c r = \<lparr>pos_col = c, pos_row = r\<rparr>"

definition new_col :: "color_t \<Rightarrow> color_t \<Rightarrow> col_t" where
  "new_col fore back = \<lparr>col_fore = ucast (color_code fore), col_back = ucast (color_code back)\<rparr>"

definition new_char :: "u8 \<Rightarrow> col_t \<Rightarrow> char_t" where
  "new_char c color = \<lparr>char_c = c, char_color = color\<rparr>"

definition default_char :: char_t where
  "default_char = new_char 0 (new_col WHITE BLACK)"

text \<open>The two bytes of a \<open>char_t\<close> in memory.\<close>

definition char_encode :: "char_t \<Rightarrow> u16" where
  "char_encode x = ucast (char_c x) OR push_bit 8 (ucast (col_fore (char_color x)))
     OR push_bit 12 (ucast (col_back (char_color x)))"

definition char_decode :: "u16 \<Rightarrow> char_t" where
  "char_decode v = \<lparr>char_c = ucast v,
     char_color = \<lparr>col_fore = ucast (drop_bit 8 v), col_back = ucast (drop_bit 12 v)\<rparr>\<rparr>"

section \<open>The console\<close>

record tui = vga +
  tui_pos :: pos_t
  tui_color :: col_t

definition TUI_ADDR :: u32 where "TUI_ADDR = 0x3D4"
definition TUI_DATA :: u32 where "TUI_DATA = 0x3D5"
definition TUI_CURSOR_H :: u32 where "TUI_CURSOR_H = 0xE"
definition TUI_CURSOR_L :: u32 where "TUI_CURSOR_L = 0xF"
definition TUI_MEM_BASE :: u32 where "TUI_MEM_BASE = 0xB8000"
definition TUI_MEM_SIZE :: u64 where "TUI_MEM_SIZE = 0x8000"
definition TUI_WIDTH :: u64 where "TUI_WIDTH = 80"
definition TUI_HEIGHT :: u64 where "TUI_HEIGHT = 25"

definition tui_buffer :: "u64 \<Rightarrow> addr" where
  "tui_buffer idx = ucast TUI_MEM_BASE + 2 * idx"

definition tui_write :: "u64 \<Rightarrow> char_t \<Rightarrow> 'a tui_scheme \<Rightarrow> 'a tui_scheme" where
  "tui_write idx d s = s\<lparr>ram := store16 (ram s) (tui_buffer idx) (char_encode d)\<rparr>"

definition tui_read :: "u64 \<Rightarrow> 'a tui_scheme \<Rightarrow> char_t" where
  "tui_read idx s = char_decode (load16 (ram s) (tui_buffer idx))"

definition tui_set_color :: "color_t \<Rightarrow> color_t \<Rightarrow> 'a tui_scheme \<Rightarrow> 'a tui_scheme" where
  "tui_set_color fore back s = s\<lparr>tui_color := new_col fore back\<rparr>"

definition tui_get_color :: "'a tui_scheme \<Rightarrow> color_t" where
  "tui_get_color s = color_cast (ucast (col_back (tui_color s)) OR ucast (col_fore (tui_color s)))"

definition tui_set_pos :: "pos_t \<Rightarrow> 'a tui_scheme \<Rightarrow> 'a tui_scheme" where
  "tui_set_pos p s =
     (let index = ucast (ucast (pos_row p) * TUI_WIDTH + ucast (pos_col p)) :: u16;
          s = s\<lparr>tui_pos := p\<rparr>;
          s = port_outb s TUI_ADDR (ucast TUI_CURSOR_H);
          s = port_outb s TUI_DATA (ucast (drop_bit 8 index));
          s = port_outb s TUI_ADDR (ucast TUI_CURSOR_L)
      in port_outb s TUI_DATA (ucast index))"

definition tui_set_pos_row :: "u64 \<Rightarrow> 'a tui_scheme \<Rightarrow> 'a tui_scheme" where
  "tui_set_pos_row row s =
     (let s = s\<lparr>tui_pos := (tui_pos s)\<lparr>pos_row := ucast row\<rparr>\<rparr> in tui_set_pos (tui_pos s) s)"

definition tui_set_pos_col :: "u64 \<Rightarrow> 'a tui_scheme \<Rightarrow> 'a tui_scheme" where
  "tui_set_pos_col col s =
     (let s = s\<lparr>tui_pos := (tui_pos s)\<lparr>pos_col := ucast col\<rparr>\<rparr> in tui_set_pos (tui_pos s) s)"

definition tui_get_pos :: "'a tui_scheme \<Rightarrow> pos_t \<times> 'a tui_scheme" where
  "tui_get_pos s =
     (let s = port_outb s TUI_ADDR (ucast TUI_CURSOR_H) in
      case port_inb s TUI_DATA of (cursor_pos_h, s) \<Rightarrow>
      let s = port_outb s TUI_ADDR (ucast TUI_CURSOR_L) in
      case port_inb s TUI_DATA of (cursor_pos_l, s) \<Rightarrow>
      (new_pos cursor_pos_l cursor_pos_h, s))"

definition TUI_init :: "'a tui_scheme \<Rightarrow> 'a tui_scheme" where
  "TUI_init s = tui_set_pos (new_pos 0 0) (tui_set_color WHITE BLACK s)"

definition put_entry_at :: "char \<Rightarrow> col_t \<Rightarrow> u64 \<Rightarrow> u64 \<Rightarrow> 'a tui_scheme \<Rightarrow> 'a tui_scheme" where
  "put_entry_at c color x y s = tui_write (y * TUI_WIDTH + x) (new_char (of_char c) color) s"

definition escapeconv :: "char \<Rightarrow> 'a tui_scheme \<Rightarrow> (bool \<times> 'a tui_scheme) exec" where
  "escapeconv c s =
     (let p = tui_pos s in
      if c = CHR 0x0A then
        let s = s\<lparr>tui_pos := \<lparr>pos_col = 0, pos_row = pos_row p + 1\<rparr>\<rparr>
        in seq (serial_putc s c) (\<lambda>s. ret (True, s))
      else if c = CHR 0x09 then
        ret (True, s\<lparr>tui_pos := p\<lparr>pos_col := pos_col p +
          (if pos_col p mod 4 = 0 then 4 else 4 - pos_col p mod 4)\<rparr>\<rparr>)
      else if c = CHR 0x08 then
        ret (True, if pos_col p > 0
          then let s = s\<lparr>tui_pos := p\<lparr>pos_col := pos_col p - 1\<rparr>\<rparr>
               in tui_write (ucast (pos_row (tui_pos s)) * TUI_WIDTH + ucast (pos_col (tui_pos s)))
                    (new_char (of_char CHR '' '') (tui_color s)) s
          else s)
      else ret (False, s))"

definition tui_scroll :: "'a tui_scheme \<Rightarrow> 'a tui_scheme" where
  "tui_scroll s =
     (if ucast (pos_row (tui_pos s)) \<ge> TUI_HEIGHT
      then let s = fold (\<lambda>i s. tui_write (of_nat i) (tui_read (of_nat i + TUI_WIDTH) s) s)
                     [0..<unat ((TUI_HEIGHT - 1) * TUI_WIDTH)] s;
               s = fold (\<lambda>i s. tui_write (of_nat i) (new_char (of_char CHR '' '') (tui_color s)) s)
                     [unat ((TUI_HEIGHT - 1) * TUI_WIDTH)..<unat (TUI_HEIGHT * TUI_WIDTH)] s
           in s\<lparr>tui_pos := (tui_pos s)\<lparr>pos_row := ucast (TUI_HEIGHT - 1)\<rparr>\<rparr>
      else s)"

definition tui_put_char :: "char \<Rightarrow> 'a tui_scheme \<Rightarrow> 'a tui_scheme exec" where
  "tui_put_char c s =
     seq (escapeconv c s) (\<lambda>(escaped, s).
     seq (if \<not> escaped
          then let s = put_entry_at c (tui_color s) (ucast (pos_col (tui_pos s))) (ucast (pos_row (tui_pos s))) s
               in seq (serial_putc s c) (\<lambda>s.
                    let p = (tui_pos s)\<lparr>pos_col := pos_col (tui_pos s) + 1\<rparr>
                    in ret (s\<lparr>tui_pos := if ucast (pos_col p) \<ge> TUI_WIDTH
                                      then \<lparr>pos_col = 0, pos_row = pos_row p + 1\<rparr> else p\<rparr>))
          else ret s)
     (\<lambda>s. let s = tui_scroll s in ret (tui_set_pos (tui_pos s) s)))"

definition tui_get_char :: "'a tui_scheme \<Rightarrow> u8" where
  "tui_get_char s = 0"

text \<open>\<open>write(_s, _len)\<close>: the characters are read from memory one by one, each after the one before it was printed.\<close>

fun tui_write_loop :: "addr \<Rightarrow> u64 \<Rightarrow> nat \<Rightarrow> 'a tui_scheme \<Rightarrow> 'a tui_scheme exec" where
  "tui_write_loop str i 0 s = ret s"
| "tui_write_loop str i (Suc n) s =
     seq (tui_put_char (char_of (unat (ram s (str + i)))) s) (\<lambda>s. tui_write_loop str (i + 1) n s)"

definition tui_write_len :: "addr \<Rightarrow> u64 \<Rightarrow> 'a tui_scheme \<Rightarrow> 'a tui_scheme exec" where
  "tui_write_len str len s = tui_write_loop str 0 (unat len) s"

definition tui_write_string :: "addr \<Rightarrow> 'a tui_scheme \<Rightarrow> 'a tui_scheme exec" where
  "tui_write_string str s =
     (case strlen (ram s) str of None \<Rightarrow> None | Some n \<Rightarrow> tui_write_len str n s)"

definition tui_clear :: "'a tui_scheme \<Rightarrow> 'a tui_scheme" where
  "tui_clear s =
     (let s = fold (\<lambda>y. fold (\<lambda>x s.
                 tui_write (of_nat y * TUI_WIDTH + of_nat x) (new_char (of_char CHR '' '') (tui_color s)) s)
               [0..<unat TUI_WIDTH]) [0..<unat TUI_HEIGHT] s
      in tui_set_pos (new_pos 0 0) s)"

end
