(* ===== verification/Allocator.thy ===== *)
theory Allocator
  imports Machine
begin

text \<open>
  The constants and the alignment of \<open>src/libk/include/common.h\<close>, the state of the abstract class
  \<open>ALLOCATOR\<close> (\<open>allocator.h\<close>, \<open>allocator.cpp\<close>), and its contract as the locale \<open>page_allocator\<close>: what a
  client of the virtual functions may rely on, with the lemmas clients use. \<open>FIRSTFIT\<close> provides
  it (theory \<open>Firstfit_Props\<close>) and \<open>PMM\<close> uses it (theory \<open>Pmm\<close>).
\<close>

section \<open>common.h\<close>

definition KB :: u64 where "KB = 0x400"
definition MB :: u64 where "MB = 0x100000"
definition PAGE_SIZE :: u64 where "PAGE_SIZE = 4 * KB"
definition KERNEL_SPACE_SIZE :: u32 where "KERNEL_SPACE_SIZE = ucast (8 * MB)"

definition ALIGN :: "u64 \<Rightarrow> u64 \<Rightarrow> u64" where
  "ALIGN x align = (x + align - 1) AND NOT (align - 1)"

text \<open>
  The \<open>uint32_t\<close> version converts its argument to \<open>size_t\<close> for the sum and truncates the result.
\<close>

definition ALIGN32 :: "u32 \<Rightarrow> u64 \<Rightarrow> u32" where
  "ALIGN32 x align = ucast ((ucast x + align - 1) AND NOT (align - 1))"

lemma PAGE_SIZE_val [simp]: "PAGE_SIZE = 4096"
  by (simp add: PAGE_SIZE_def KB_def)

lemma KERNEL_SPACE_SIZE_val [simp]: "KERNEL_SPACE_SIZE = 0x800000"
  by (simp add: KERNEL_SPACE_SIZE_def MB_def)

section \<open>State of an allocator\<close>

record ALLOCATOR =
  tag :: string
  allocator_start_addr :: u64
  allocator_length :: u64
  allocator_free_count :: u64
  allocator_used_count :: u64

text \<open>The constructor, on the object under construction.\<close>

definition ALLOCATOR_init :: "'a ALLOCATOR_scheme \<Rightarrow> string \<Rightarrow> u64 \<Rightarrow> u64 \<Rightarrow> 'a ALLOCATOR_scheme" where
  "ALLOCATOR_init this t addr len =
     this\<lparr>tag := t, allocator_start_addr := addr, allocator_length := len,
       allocator_free_count := len, allocator_used_count := 0\<rparr>"

section \<open>The contract\<close>

text \<open>
  The pages an allocator manages are numbered from 0; page \<open>i\<close> is the 4096 bytes at
  \<open>base + 4096 * i\<close>. \<open>held\<close> is the set of the pages that are given out. A call of \<open>alloc\<close> either finds
  a run of free pages and adds it to the held ones, or finds none, returns 0 and changes nothing.
  Releasing held pages takes exactly them out.
\<close>

definition page_run :: "nat \<Rightarrow> nat \<Rightarrow> nat set" where
  "page_run i n = {i..<i + n}"

definition free_run :: "nat set \<Rightarrow> nat \<Rightarrow> nat \<Rightarrow> nat \<Rightarrow> bool" where
  "free_run held npages i n \<longleftrightarrow> i + n \<le> npages \<and> page_run i n \<inter> held = {}"

definition page_addr :: "addr \<Rightarrow> nat \<Rightarrow> addr" where
  "page_addr base i = base + 4096 * of_nat i"

lemma card_page_run [simp]: "card (page_run i n) = n"
  by (simp add: page_run_def)

lemma finite_page_run [simp, intro]: "finite (page_run i n)"
  by (simp add: page_run_def)

lemma page_run_0 [simp]: "page_run i 0 = {}"
  by (simp add: page_run_def)

text \<open>Pages of different numbers do not share a byte.\<close>

lemma page_addr_region:
  assumes "fits base (4096 * npages)" "i + n \<le> npages" "k < 4096 * n"
  shows "unat (page_addr base i + of_nat k) = unat base + 4096 * i + k"
proof -
  have "page_addr base i + of_nat k = base + of_nat (4096 * i + k)"
    by (simp add: page_addr_def algebra_simps)
  moreover have "4096 * i + k < 4096 * npages" using assms(2,3) by (simp add: algebra_simps)
  ultimately show ?thesis using fits_offset [OF assms(1)] by (metis add.assoc)
qed

lemma disjoint_page_runs:
  assumes "fits base (4096 * npages)" "i + n \<le> npages" "j + k \<le> npages" "page_run i n \<inter> page_run j k = {}"
  shows "disjoint_regions (page_addr base i) (4096 * n) (page_addr base j) (4096 * k)"
  unfolding disjoint_regions_def
proof (intro allI impI notI)
  fix a b assume a: "a < 4096 * n" and b: "b < 4096 * k"
    and eq: "page_addr base i + of_nat a = page_addr base j + of_nat b"
  have "4096 * i + a = 4096 * j + b"
    using page_addr_region [OF assms(1,2) a] page_addr_region [OF assms(1,3) b] eq by simp
  then have "i + a div 4096 = j + b div 4096"
    by (metis add.commute div_mult_self2 zero_neq_numeral)
  moreover have "a div 4096 < n" "b div 4096 < k" using a b by (simp_all add: less_mult_imp_div_less mult.commute)
  ultimately have "i + a div 4096 \<in> page_run i n \<inter> page_run j k" by (auto simp: page_run_def)
  with assms(4) show False by simp
qed

text \<open>
  What clients do with an allocator: from the state \<open>s0\<close> on they ask for blocks and give blocks they
  hold back, in any order. \<open>client alloc free s0 s bs\<close> says that \<open>s\<close> can be reached with the blocks
  \<open>bs\<close> (address and number of pages) in the clients' hands.
\<close>

inductive client :: "('s \<Rightarrow> u64 \<Rightarrow> (addr \<times> 's) exec) \<Rightarrow> ('s \<Rightarrow> addr \<Rightarrow> u64 \<Rightarrow> 's exec) \<Rightarrow> 's \<Rightarrow>
    's \<Rightarrow> (addr \<times> u64) list \<Rightarrow> bool"
  for alloc free s0 where
  Start: "client alloc free s0 s0 []"
| Grant: "client alloc free s0 s bs \<Longrightarrow> 0 < n \<Longrightarrow> alloc s n = ret (a, t) \<Longrightarrow> a \<noteq> 0 \<Longrightarrow>
    client alloc free s0 t ((a, n) # bs)"
| Refuse: "client alloc free s0 s bs \<Longrightarrow> 0 < n \<Longrightarrow> alloc s n = ret (0, t) \<Longrightarrow>
    client alloc free s0 t bs"
| Release: "client alloc free s0 s (xs @ (a, n) # ys) \<Longrightarrow> free s a n = ret t \<Longrightarrow>
    client alloc free s0 t (xs @ ys)"

inductive_cases client_GrantE: "client alloc free s0 t ((a, n) # bs)"

lemma map_split:
  "map f rs = xs @ y # ys \<Longrightarrow>
    \<exists>us b vs. rs = us @ b # vs \<and> xs = map f us \<and> y = f b \<and> ys = map f vs"
  by (auto simp: map_eq_append_conv map_eq_Cons_conv)

definition block_run :: "nat \<times> u64 \<Rightarrow> nat set" where
  "block_run b = page_run (fst b) (unat (snd b))"

definition block :: "addr \<Rightarrow> nat \<times> u64 \<Rightarrow> addr \<times> u64" where
  "block base b = (page_addr base (fst b), snd b)"

definition blocks_ok :: "nat set \<Rightarrow> (nat \<times> u64) list \<Rightarrow> bool" where
  "blocks_ok held0 rs \<longleftrightarrow> sorted_wrt (\<lambda>b c. block_run b \<inter> block_run c = {}) rs
     \<and> (\<forall>b \<in> set rs. 0 < snd b \<and> block_run b \<inter> held0 = {})"

definition blocks_pages :: "(nat \<times> u64) list \<Rightarrow> nat set" where
  "blocks_pages rs = (\<Union>b \<in> set rs. block_run b)"

lemma blocks_pages_simps [simp]:
  "blocks_pages [] = {}" "blocks_pages (b # rs) = block_run b \<union> blocks_pages rs"
  "blocks_pages (xs @ ys) = blocks_pages xs \<union> blocks_pages ys"
  by (auto simp: blocks_pages_def)

lemma blocks_ok_Cons:
  "blocks_ok h (b # rs) \<longleftrightarrow> 0 < snd b \<and> block_run b \<inter> h = {} \<and> block_run b \<inter> blocks_pages rs = {} \<and> blocks_ok h rs"
  by (auto simp: blocks_ok_def blocks_pages_def)

lemma blocks_ok_remove:
  assumes "blocks_ok h (xs @ b # ys)"
  shows "blocks_ok h (xs @ ys)" "blocks_pages (xs @ ys) = blocks_pages (xs @ b # ys) - block_run b"
    "block_run b \<inter> h = {}" "0 < snd b"
  using assms by (auto simp: blocks_ok_def blocks_pages_def sorted_wrt_append)

lemma blocks_card:
  assumes "blocks_ok h rs" "finite h"
  shows "card (h \<union> blocks_pages rs) = card h + sum_list (map (\<lambda>b. unat (snd b)) rs) \<and> finite (blocks_pages rs)"
  using assms(1)
proof (induction rs)
  case (Cons b rs)
  then have "card (block_run b \<union> (h \<union> blocks_pages rs)) = card (block_run b) + card (h \<union> blocks_pages rs)"
    using assms(2) by (intro card_Un_disjoint) (auto simp: blocks_ok_Cons block_run_def)
  with Cons assms(2) show ?case by (simp add: blocks_ok_Cons Un_left_commute block_run_def)
qed simp

locale page_allocator =
  fixes inv :: "'s \<Rightarrow> bool"
    and held :: "'s \<Rightarrow> nat set"
    and base :: "'s \<Rightarrow> addr"
    and npages :: "'s \<Rightarrow> nat"
    and alloc :: "'s \<Rightarrow> u64 \<Rightarrow> (addr \<times> 's) exec"
    and alloc_at :: "'s \<Rightarrow> addr \<Rightarrow> u64 \<Rightarrow> (bool \<times> 's) exec"
    and free :: "'s \<Rightarrow> addr \<Rightarrow> u64 \<Rightarrow> 's exec"
    and used_count :: "'s \<Rightarrow> u64"
    and free_count :: "'s \<Rightarrow> u64"
  assumes held_pages: "inv s \<Longrightarrow> held s \<subseteq> {..<npages s}"
    and space_fits: "inv s \<Longrightarrow> fits (base s) (4096 * npages s)"
    and base_nonzero: "inv s \<Longrightarrow> base s \<noteq> 0"
    and used_counted: "inv s \<Longrightarrow> unat (used_count s) = card (held s)"
    and free_counted: "inv s \<Longrightarrow> unat (free_count s) = npages s - card (held s)"
    and alloc_law: "inv s \<Longrightarrow> 0 < n \<Longrightarrow> \<exists>a t. alloc s n = ret (a, t) \<and> inv t
      \<and> base t = base s \<and> npages t = npages s
      \<and> (if \<exists>i. free_run (held s) (npages s) i (unat n)
         then \<exists>i. free_run (held s) (npages s) i (unat n) \<and> a = page_addr (base s) i
            \<and> held t = held s \<union> page_run i (unat n)
         else a = 0 \<and> t = s)"
    and alloc_at_law: "inv s \<Longrightarrow> i < npages s \<Longrightarrow> i + unat n \<le> npages s \<Longrightarrow>
      \<exists>t. alloc_at s (page_addr (base s) i) n = ret (free_run (held s) (npages s) i (unat n), t) \<and> inv t
      \<and> base t = base s \<and> npages t = npages s
      \<and> (if free_run (held s) (npages s) i (unat n) then held t = held s \<union> page_run i (unat n) else t = s)"
    and free_law: "inv s \<Longrightarrow> i < npages s \<Longrightarrow> page_run i (unat n) \<subseteq> held s \<Longrightarrow>
      \<exists>t. free s (page_addr (base s) i) n = ret t \<and> inv t
      \<and> base t = base s \<and> npages t = npages s \<and> held t = held s - page_run i (unat n)"
begin

lemma held_finite: "inv s \<Longrightarrow> finite (held s)"
  using held_pages finite_subset by blast

text \<open>The two counters always add up to the size.\<close>

lemma counts_add_up: "inv s \<Longrightarrow> unat (used_count s) + unat (free_count s) = npages s"
  using card_mono [OF _ held_pages] by (simp add: used_counted free_counted)

text \<open>The address of a granted block is not 0, the answer that means failure.\<close>

lemma granted_nonzero:
  assumes "inv s" "free_run (held s) (npages s) i (unat n)" "0 < n"
  shows "page_addr (base s) i \<noteq> 0"
proof -
  have n: "0 < unat n" using assms(3) by (simp add: word_greater_zero_iff unat_gt_0)
  then have "unat (page_addr (base s) i + of_nat 0) = unat (base s) + 4096 * i + 0"
    using assms(2) by (intro page_addr_region [OF space_fits [OF assms(1)]]) (auto simp: free_run_def)
  then have "unat (page_addr (base s) i) = unat (base s) + 4096 * i" by simp
  moreover have "0 < unat (base s)" using base_nonzero [OF assms(1)] by (simp add: unat_gt_0)
  ultimately have "unat (page_addr (base s) i) \<noteq> 0" by simp
  then show ?thesis by (metis unsigned_0)
qed

text \<open>A block that is allocated shares no byte with a held block.\<close>

lemma alloc_disjoint:
  assumes "inv s" "0 < n" "alloc s n = ret (a, t)" "a \<noteq> 0" "page_run j k \<subseteq> held s"
  shows "disjoint_regions a (4096 * unat n) (page_addr (base s) j) (4096 * k)"
proof -
  obtain i where i: "free_run (held s) (npages s) i (unat n)" "a = page_addr (base s) i"
    using alloc_law [OF assms(1,2)] assms(3,4) by (auto split: if_splits)
  have run: "page_run i (unat n) \<inter> page_run j k = {}" using i(1) assms(5) by (auto simp: free_run_def)
  show ?thesis
  proof (cases "k = 0")
    case False
    then have "j + k - 1 \<in> page_run j k" by (simp add: page_run_def)
    with assms(5) held_pages [OF assms(1)] have "j + k - 1 < npages s" by auto
    with False have "j + k \<le> npages s" by simp
    with i run show ?thesis
      using disjoint_page_runs [OF space_fits [OF assms(1)], of i "unat n" j k] by (simp add: free_run_def)
  qed (simp add: disjoint_regions_def)
qed

text \<open>Releasing what was allocated gives the held pages back as they were.\<close>

lemma alloc_free_held:
  assumes "inv s" "0 < n" "alloc s n = ret (a, t)" "\<exists>i. free_run (held s) (npages s) i (unat n)"
  shows "\<exists>u. free t a n = ret u \<and> inv u \<and> held u = held s \<and> base u = base s \<and> npages u = npages s"
proof -
  obtain i where i: "free_run (held s) (npages s) i (unat n)" "a = page_addr (base s) i" "inv t"
    "held t = held s \<union> page_run i (unat n)" "base t = base s" "npages t = npages s"
    using alloc_law [OF assms(1,2)] assms(3,4) by auto
  have n: "0 < unat n" using assms(2) by (simp add: word_greater_zero_iff unat_gt_0)
  then have "i < npages t" using i(1,6) by (simp add: free_run_def)
  then obtain u where "free t a n = ret u" "inv u" "held u = held t - page_run i (unat n)"
    "base u = base s" "npages u = npages s"
    using free_law [OF i(3), of i n] i by auto
  with i show ?thesis by (auto simp: free_run_def)
qed

text \<open>
  Whatever clients do, the invariant holds, and the pages they hold are those of their blocks, no
  page twice, on top of what was held at the start.
\<close>

lemma client_blocks:
  assumes "client alloc free s0 s bs" "inv s0"
  shows "inv s \<and> base s = base s0 \<and> npages s = npages s0
    \<and> (\<exists>rs. bs = map (block (base s0)) rs \<and> blocks_ok (held s0) rs \<and> held s = held s0 \<union> blocks_pages rs)"
  using assms
proof (induction rule: client.induct)
  case Start
  then show ?case by (auto simp: blocks_ok_def)
next
  case (Grant s bs n a t)
  then obtain rs where rs: "inv s" "base s = base s0" "npages s = npages s0" "bs = map (block (base s0)) rs"
    "blocks_ok (held s0) rs" "held s = held s0 \<union> blocks_pages rs"
    by blast
  from alloc_law [OF rs(1) Grant.hyps(2)] Grant.hyps(3,4) obtain i
    where i: "inv t" "base t = base s" "npages t = npages s" "free_run (held s) (npages s) i (unat n)"
      "a = page_addr (base s) i" "held t = held s \<union> page_run i (unat n)"
    by (auto split: if_splits)
  have "blocks_ok (held s0) ((i, n) # rs)"
    using i(4) rs(5,6) Grant.hyps(2) by (auto simp: blocks_ok_Cons free_run_def block_run_def)
  with rs i show ?case by (intro conjI exI [of _ "(i, n) # rs"]) (auto simp: block_def block_run_def)
next
  case (Refuse s bs n t)
  then obtain rs where rs: "inv s" "base s = base s0" "npages s = npages s0" "bs = map (block (base s0)) rs"
    "blocks_ok (held s0) rs" "held s = held s0 \<union> blocks_pages rs"
    by blast
  from alloc_law [OF rs(1) Refuse.hyps(2)] Refuse.hyps(3) granted_nonzero [OF rs(1) _ Refuse.hyps(2)]
  have "t = s" by (auto split: if_splits)
  with rs show ?case by auto
next
  case (Release s xs a n ys t)
  then obtain rs where rs: "inv s" "base s = base s0" "npages s = npages s0"
    "xs @ (a, n) # ys = map (block (base s0)) rs" "blocks_ok (held s0) rs" "held s = held s0 \<union> blocks_pages rs"
    by blast
  then obtain us b vs where us: "rs = us @ b # vs" "xs = map (block (base s0)) us"
      "(a, n) = block (base s0) b" "ys = map (block (base s0)) vs"
    using map_split [OF rs(4) [symmetric]] by blast
  define i where "i = fst b"
  have b: "a = page_addr (base s) i" "b = (i, n)" using us(3) rs(2) by (auto simp: block_def i_def)
  note rm = blocks_ok_remove [OF rs(5) [unfolded us(1)]]
  have run: "page_run i (unat n) \<subseteq> held s" using rs(6) us(1) b by (auto simp: block_run_def)
  have "0 < unat n" using rm(4) b by (simp add: word_greater_zero_iff unat_gt_0)
  then have "i \<in> page_run i (unat n)" by (simp add: page_run_def)
  then have "i < npages s" using run held_pages [OF rs(1)] by auto
  from free_law [OF rs(1) this run] Release.hyps(2) b
  have t: "inv t" "base t = base s" "npages t = npages s" "held t = held s - page_run i (unat n)" by auto
  have "block_run b = page_run i (unat n)" by (simp add: block_run_def b(2))
  then have "held t = held s0 \<union> blocks_pages (us @ vs)"
    using t(4) rs(6) rm(2,3) us(1) by blast
  with t rm(1) have ok: "inv t \<and> base t = base s0 \<and> npages t = npages s0" "blocks_ok (held s0) (us @ vs)"
    using rs(2,3) by (metis, simp)
  moreover have "xs @ ys = map (block (base s0)) (us @ vs)" using us by simp
  ultimately show ?case using \<open>held t = held s0 \<union> blocks_pages (us @ vs)\<close> by blast
qed

lemma client_counts:
  assumes "client alloc free s0 s bs" "inv s0"
  shows "unat (used_count s) = unat (used_count s0) + sum_list (map (\<lambda>b. unat (snd b)) bs)
    \<and> unat (used_count s) + unat (free_count s) = npages s0"
proof -
  obtain rs where rs: "inv s" "npages s = npages s0" "bs = map (block (base s0)) rs"
    "blocks_ok (held s0) rs" "held s = held s0 \<union> blocks_pages rs"
    using client_blocks [OF assms] by blast
  then have "card (held s) = card (held s0) + sum_list (map (\<lambda>b. unat (snd b)) rs)"
    using blocks_card [OF _ held_finite [OF assms(2)]] by simp
  with rs counts_add_up [OF rs(1)] show ?thesis
    by (simp add: used_counted assms(2) comp_def block_def)
qed

text \<open>The blocks in the clients' hands are runs of pages of the space, and no two of them share a byte.\<close>

lemma blocks_inside:
  assumes "inv s" "blocks_ok h rs" "held s = h \<union> blocks_pages rs" "b \<in> set rs"
  shows "fst b + unat (snd b) \<le> npages s"
proof -
  have "0 < unat (snd b)" using assms(2,4) by (auto simp: blocks_ok_def word_greater_zero_iff unat_gt_0)
  then have "fst b + unat (snd b) - 1 \<in> block_run b" by (auto simp: block_run_def page_run_def)
  moreover have "block_run b \<subseteq> held s" using assms(3,4) by (auto simp: blocks_pages_def)
  ultimately have "fst b + unat (snd b) - 1 < npages s" using held_pages [OF assms(1)] by blast
  then show ?thesis by simp
qed

lemma client_inside:
  assumes "client alloc free s0 s bs" "inv s0" "(a, n) \<in> set bs"
  shows "\<exists>i. a = page_addr (base s0) i \<and> 0 < unat n \<and> i + unat n \<le> npages s0 \<and> page_run i (unat n) \<subseteq> held s"
proof -
  obtain rs where rs: "inv s" "npages s = npages s0" "bs = map (block (base s0)) rs"
    "blocks_ok (held s0) rs" "held s = held s0 \<union> blocks_pages rs"
    using client_blocks [OF assms(1,2)] by blast
  then obtain b where b: "b \<in> set rs" "a = page_addr (base s0) (fst b)" "n = snd b"
    using assms(3) by (auto simp: block_def)
  with rs blocks_inside [OF rs(1,4,5) b(1)] show ?thesis
    by (intro exI [of _ "fst b"]) (auto simp: blocks_ok_def blocks_pages_def block_run_def unat_gt_0 word_greater_zero_iff)
qed

lemma client_disjoint:
  assumes "client alloc free s0 s bs" "inv s0"
  shows "sorted_wrt (\<lambda>(a, n) (b, k). disjoint_regions a (4096 * unat n) b (4096 * unat k)) bs"
proof -
  obtain rs where rs: "inv s" "base s = base s0" "npages s = npages s0" "bs = map (block (base s0)) rs"
    "blocks_ok (held s0) rs" "held s = held s0 \<union> blocks_pages rs"
    using client_blocks [OF assms] by blast
  have "sorted_wrt (\<lambda>b c. disjoint_regions (page_addr (base s0) (fst b)) (4096 * unat (snd b))
      (page_addr (base s0) (fst c)) (4096 * unat (snd c))) rs"
    by (rule sorted_wrt_mono_rel [of _ "\<lambda>b c. block_run b \<inter> block_run c = {}"])
      (use rs(5) blocks_inside [OF rs(1,5,6)] in \<open>auto simp: blocks_ok_def block_run_def rs(3)
        intro!: disjoint_page_runs [OF space_fits [OF assms(2)]]\<close>)
  then show ?thesis by (simp add: rs(4) sorted_wrt_map block_def)
qed

end

section \<open>An allocator inside a larger state\<close>

text \<open>
  A provider whose state is a part of a larger state, read by \<open>get\<close> and replaced by \<open>put\<close>, and whose
  operations work on that part, provides the contract again.
\<close>

locale allocator_part = page_allocator inv held base npages alloc alloc_at free used_count free_count
  for inv :: "'s \<Rightarrow> bool" and held base npages alloc alloc_at free used_count free_count +
  fixes whole :: "'t \<Rightarrow> bool"
    and get :: "'t \<Rightarrow> 's"
    and put :: "'s \<Rightarrow> 't \<Rightarrow> 't"
    and part_alloc :: "'t \<Rightarrow> u64 \<Rightarrow> (addr \<times> 't) exec"
    and part_alloc_at :: "'t \<Rightarrow> addr \<Rightarrow> u64 \<Rightarrow> (bool \<times> 't) exec"
    and part_free :: "'t \<Rightarrow> addr \<Rightarrow> u64 \<Rightarrow> 't exec"
  assumes get_inv: "whole t \<Longrightarrow> inv (get t)"
    and put_inv: "whole t \<Longrightarrow> inv s \<Longrightarrow> base s = base (get t) \<Longrightarrow> npages s = npages (get t) \<Longrightarrow> whole (put s t)"
    and get_put: "whole t \<Longrightarrow> get (put s t) = s"
    and put_get: "whole t \<Longrightarrow> put (get t) t = t"
    and part_alloc_eq: "whole t \<Longrightarrow> part_alloc t n = seq (alloc (get t) n) (\<lambda>(a, s). ret (a, put s t))"
    and part_alloc_at_eq: "whole t \<Longrightarrow> part_alloc_at t a n = seq (alloc_at (get t) a n) (\<lambda>(b, s). ret (b, put s t))"
    and part_free_eq: "whole t \<Longrightarrow> i < npages (get t) \<Longrightarrow> part_free t (page_addr (base (get t)) i) n =
      seq (free (get t) (page_addr (base (get t)) i) n) (\<lambda>s. ret (put s t))"
begin

sublocale part: page_allocator whole "\<lambda>t. held (get t)" "\<lambda>t. base (get t)" "\<lambda>t. npages (get t)"
  part_alloc part_alloc_at part_free "\<lambda>t. used_count (get t)" "\<lambda>t. free_count (get t)"
proof unfold_locales
  fix t n assume t: "whole t" and n: "0 < (n :: u64)"
  from alloc_law [OF get_inv [OF t] n] obtain a s where s: "alloc (get t) n = ret (a, s)" "inv s"
    "base s = base (get t)" "npages s = npages (get t)"
    "if \<exists>i. free_run (held (get t)) (npages (get t)) i (unat n)
     then \<exists>i. free_run (held (get t)) (npages (get t)) i (unat n) \<and> a = page_addr (base (get t)) i
        \<and> held s = held (get t) \<union> page_run i (unat n)
     else a = 0 \<and> s = get t" by blast
  show "\<exists>a u. part_alloc t n = ret (a, u) \<and> whole u \<and> base (get u) = base (get t) \<and> npages (get u) = npages (get t)
      \<and> (if \<exists>i. free_run (held (get t)) (npages (get t)) i (unat n)
         then \<exists>i. free_run (held (get t)) (npages (get t)) i (unat n) \<and> a = page_addr (base (get t)) i
            \<and> held (get u) = held (get t) \<union> page_run i (unat n)
         else a = 0 \<and> u = t)"
    using s(5) put_inv [OF t s(2-4)] s(1,3,4)
    by (intro exI [of _ a] exI [of _ "put s t"]) (auto simp: part_alloc_eq [OF t] get_put [OF t] put_get [OF t])
next
  fix t i n assume t: "whole t" and i: "i < npages (get t)" "i + unat (n :: u64) \<le> npages (get t)"
  from alloc_at_law [OF get_inv [OF t] i] obtain s where s:
    "alloc_at (get t) (page_addr (base (get t)) i) n = ret (free_run (held (get t)) (npages (get t)) i (unat n), s)"
    "inv s" "base s = base (get t)" "npages s = npages (get t)"
    "if free_run (held (get t)) (npages (get t)) i (unat n) then held s = held (get t) \<union> page_run i (unat n)
     else s = get t" by blast
  show "\<exists>u. part_alloc_at t (page_addr (base (get t)) i) n = ret (free_run (held (get t)) (npages (get t)) i (unat n), u)
      \<and> whole u \<and> base (get u) = base (get t) \<and> npages (get u) = npages (get t)
      \<and> (if free_run (held (get t)) (npages (get t)) i (unat n)
         then held (get u) = held (get t) \<union> page_run i (unat n) else u = t)"
    using s(5) put_inv [OF t s(2-4)] s(1,3,4)
    by (intro exI [of _ "put s t"]) (auto simp: part_alloc_at_eq [OF t] get_put [OF t] put_get [OF t])
next
  fix t i n assume t: "whole t" and i: "i < npages (get t)" "page_run i (unat (n :: u64)) \<subseteq> held (get t)"
  from free_law [OF get_inv [OF t] i] obtain s where s: "free (get t) (page_addr (base (get t)) i) n = ret s" "inv s"
    "base s = base (get t)" "npages s = npages (get t)" "held s = held (get t) - page_run i (unat n)" by blast
  with put_inv [OF t s(2-4)] show "\<exists>u. part_free t (page_addr (base (get t)) i) n = ret u \<and> whole u
      \<and> base (get u) = base (get t) \<and> npages (get u) = npages (get t) \<and> held (get u) = held (get t) - page_run i (unat n)"
    by (intro exI [of _ "put s t"]) (simp add: part_free_eq [OF t i(1)] get_put [OF t])
qed (use held_pages space_fits base_nonzero used_counted free_counted get_inv in \<open>blast+\<close>)

end

end
