(* ===== verification/Multiboot2.thy ===== *)
theory Multiboot2
  imports Tui Allocator
begin

text \<open>
  The boot information: \<open>src/libk/src/multiboot2.cpp\<close> with \<open>multiboot2.h\<close>, \<open>boot_info.h\<close> and the
  \<open>resource_t\<close> of \<open>resource.h\<close>. The variables of the namespace \<open>BOOT_INFO\<close> are the fields the record
  \<open>boot\<close> adds to the state; the tags the boot loader left in memory are read byte by byte from \<open>ram\<close>.
  A 32-bit argument of \<open>vga_printf\<close> that its format reads with 64 bits has zeros above, as the
  x86_64 compiler passes it.
\<close>

section \<open>Constants and layouts\<close>

definition MULTIBOOT2_BOOTLOADER_MAGIC :: u32 where "MULTIBOOT2_BOOTLOADER_MAGIC = 0x36d76289"
definition MULTIBOOT_TAG_TYPE_END :: u32 where "MULTIBOOT_TAG_TYPE_END = 0"
definition MULTIBOOT_TAG_TYPE_MMAP :: u32 where "MULTIBOOT_TAG_TYPE_MMAP = 6"
definition MULTIBOOT_MEMORY_AVAILABLE :: u32 where "MULTIBOOT_MEMORY_AVAILABLE = 1"

text \<open>The members of \<open>iter_data_t\<close>, \<open>multiboot_tag_mmap_t\<close> (16 bytes) and \<open>multiboot_mmap_entry_t\<close> (24 bytes).\<close>

definition tag_type :: "mem \<Rightarrow> addr \<Rightarrow> u32" where "tag_type m tg = read32 m tg"
definition tag_size :: "mem \<Rightarrow> addr \<Rightarrow> u32" where "tag_size m tg = read32 m (tg + 4)"
definition mmap_entry_size :: "mem \<Rightarrow> addr \<Rightarrow> u32" where "mmap_entry_size m tg = read32 m (tg + 8)"
definition entry_len :: "mem \<Rightarrow> addr \<Rightarrow> u64" where "entry_len m e = read64 m (e + 8)"
definition entry_type :: "mem \<Rightarrow> addr \<Rightarrow> u32" where "entry_type m e = read32 m (e + 16)"

definition RESOURCE_MEM :: u8 where "RESOURCE_MEM = push_bit 0 1"

record resource_t =
  res_type :: u8
  res_name :: "string option"
  mem_addr :: u64
  mem_len :: u64
  res_intr_no :: u8

definition new_resource :: resource_t where
  "new_resource = \<lparr>res_type = 0, res_name = None, mem_addr = 0, mem_len = 0, res_intr_no = 0\<rparr>"

record boot = tui +
  boot_info_addr :: u64
  boot_info_size :: u64
  multiboot2_magic :: u32
  boot_inited :: bool

section \<open>MULTIBOOT2\<close>

text \<open>The size of the boot information, put together from its four bytes.\<close>

definition read_size :: "mem \<Rightarrow> addr \<Rightarrow> u32" where
  "read_size m addr = fold (\<lambda>i size. size OR push_bit (i * 8) (ucast (m (addr + of_nat i)))) [0..<4] 0"

definition read_boot_size :: "addr \<Rightarrow> 'a boot_scheme \<Rightarrow> (bool \<times> 'a boot_scheme) exec" where
  "read_boot_size addr s =
     (let s = s\<lparr>boot_info_size := ucast (read_size (ram s) addr)\<rparr> in
      seq (vga_printf s ''multiboot2_init: Boot info size: %d bytes\<newline>'' [VaWord (boot_info_size s)]) (\<lambda>s.
      seq (vga_printf s ''multiboot2_init: Boot info end: 0x%lx\<newline>''
             [VaWord (boot_info_addr s + boot_info_size s)]) (\<lambda>s.
      if boot_info_size s < 8 \<or> boot_info_size s > 65536 then
        seq (vga_printf s ''multiboot2_init: Boot info size unreasonable: %d\<newline>'' [VaWord (boot_info_size s)])
          (\<lambda>s. ret (False, s))
      else
        seq (vga_printf s ''multiboot2_init: Initialization successful!\<newline>'' []) (\<lambda>s. ret (True, s)))))"

definition multiboot2_init :: "'a boot_scheme \<Rightarrow> (bool \<times> 'a boot_scheme) exec" where
  "multiboot2_init s =
     seq (vga_printf s ''multiboot2_init: Starting initialization...\<newline>'' []) (\<lambda>s.
     seq (vga_printf s ''multiboot2_init: Magic number: 0x%lx\<newline>'' [VaWord (ucast (multiboot2_magic s))]) (\<lambda>s.
     let addr = boot_info_addr s in
     seq (vga_printf s ''multiboot2_init: Boot info addr: 0x%lx\<newline>'' [VaWord addr]) (\<lambda>s.
     if multiboot2_magic s \<noteq> MULTIBOOT2_BOOTLOADER_MAGIC then
       seq (vga_printf s ''multiboot2_init: Invalid magic number! Expected: 0x%x, Got: 0x%lx\<newline>''
              [VaWord (ucast MULTIBOOT2_BOOTLOADER_MAGIC), VaWord (ucast (multiboot2_magic s))]) (\<lambda>s. ret (False, s))
     else if addr AND 7 \<noteq> 0 then
       seq (vga_printf s ''multiboot2_init: Address not aligned! addr=0x%lx\<newline>'' [VaWord addr]) (\<lambda>s. ret (False, s))
     else if addr = 0 then
       seq (vga_printf s ''multiboot2_init: Boot info address is NULL!\<newline>'' []) (\<lambda>s. ret (False, s))
     else if addr < 0x100000 \<or> addr > 0x1000000 then
       seq (vga_printf s ''multiboot2_init: Boot info address out of range! addr=0x%lx\<newline>'' [VaWord addr])
         (\<lambda>s. ret (False, s))
     else
       seq (vga_printf s ''multiboot2_init: Reading boot info size...\<newline>'' []) (\<lambda>s.
       read_boot_size addr s))))"

text \<open>The iteration over the tags calls \<open>f\<close> with a tag, the data and the state until it answers true or the end tag
  is reached. It may not return: a tag whose aligned size is 0 is its own successor.\<close>

partial_function (option) iter_loop ::
    "(addr \<Rightarrow> 'd \<Rightarrow> 'a boot_scheme \<Rightarrow> (bool \<times> 'd \<times> 'a boot_scheme) exec) \<Rightarrow> addr \<Rightarrow> 'd \<Rightarrow> 'a boot_scheme \<Rightarrow>
      ('d \<times> 'a boot_scheme) exec" where
  "iter_loop f tg d s =
     (if tag_type (ram s) tg \<noteq> MULTIBOOT_TAG_TYPE_END
      then seq (f tg d s) (\<lambda>r. case r of (stop, d, s) \<Rightarrow>
             if stop then ret (d, s)
             else iter_loop f (tg + ucast (ALIGN32 (tag_size (ram s) tg) 8)) d s)
      else ret (d, s))"

definition multiboot2_iter ::
    "(addr \<Rightarrow> 'd \<Rightarrow> 'a boot_scheme \<Rightarrow> (bool \<times> 'd \<times> 'a boot_scheme) exec) \<Rightarrow> 'd \<Rightarrow> 'a boot_scheme \<Rightarrow>
      ('d \<times> 'a boot_scheme) exec" where
  "multiboot2_iter f d s = iter_loop f (boot_info_addr s + 8) d s"

text \<open>The loop over the entries of the memory map, with the entries that are left.\<close>

fun mmap_loop :: "addr \<Rightarrow> u32 \<Rightarrow> nat \<Rightarrow> addr \<Rightarrow> u64 \<Rightarrow> 'a boot_scheme \<Rightarrow> (u64 \<times> 'a boot_scheme) exec" where
  "mmap_loop tag_end entry_size 0 mmap len s = ret (len, s)"
| "mmap_loop tag_end entry_size (Suc n) mmap len s =
     (if mmap + 24 > tag_end then
        seq (vga_printf s ''multiboot2_get_memory: Reached tag boundary, stopping\<newline>'' []) (\<lambda>s. ret (len, s))
      else if entry_len (ram s) mmap = 0 then
        mmap_loop tag_end entry_size n (mmap + ucast entry_size) len s
      else
        mmap_loop tag_end entry_size n (mmap + ucast entry_size)
          (if entry_type (ram s) mmap = MULTIBOOT_MEMORY_AVAILABLE then len + entry_len (ram s) mmap else len) s)"

definition mmap_read :: "addr \<Rightarrow> resource_t \<Rightarrow> 'a boot_scheme \<Rightarrow> (bool \<times> resource_t \<times> 'a boot_scheme) exec" where
  "mmap_read tg resource s =
     (let tag_size = tag_size (ram s) tg; tag_end = tg + ucast tag_size; entry_size = mmap_entry_size (ram s) tg in
      seq (vga_printf s ''multiboot2_get_memory: Tag size: %d, Entry size: %d\<newline>''
             [VaWord (ucast tag_size), VaWord (ucast entry_size)]) (\<lambda>s.
      if entry_size = 0 \<or> tag_size < 16 then
        seq (vga_printf s ''multiboot2_get_memory: Invalid mmap tag parameters\<newline>'' []) (\<lambda>s. ret (False, resource, s))
      else
        let max_entries = (ucast tag_size - 16) div ucast entry_size :: u64 in
        seq (mmap_loop tag_end entry_size (unat max_entries) (tg + 16) (mem_len resource) s) (\<lambda>(len, s).
        let resource = resource\<lparr>mem_len := len\<rparr> in
        seq (vga_printf s ''multiboot2_get_memory: Total available memory: %u bytes\<newline>'' [VaWord (mem_len resource)])
          (\<lambda>s. ret (True, resource, s)))))"

definition get_memory :: "addr \<Rightarrow> resource_t \<Rightarrow> 'a boot_scheme \<Rightarrow> (bool \<times> resource_t \<times> 'a boot_scheme) exec" where
  "get_memory tg resource s =
     (if tag_type (ram s) tg \<noteq> MULTIBOOT_TAG_TYPE_MMAP then ret (False, resource, s)
      else
        seq (vga_printf s ''multiboot2_get_memory: Memory tag found\<newline>'' []) (\<lambda>s.
        mmap_read tg (resource\<lparr>res_type := res_type resource OR RESOURCE_MEM,
          res_name := Some ''available phy memory'', mem_addr := 0, mem_len := 0\<rparr>) s))"

section \<open>BOOT_INFO\<close>

definition BOOT_INFO_init :: "'a boot_scheme \<Rightarrow> (bool \<times> 'a boot_scheme) exec" where
  "BOOT_INFO_init s =
     seq (multiboot2_init s) (\<lambda>(res, s).
     ret (res, if boot_inited s = False then s\<lparr>boot_inited := True\<rparr> else s))"

definition BOOT_INFO_get_memory :: "'a boot_scheme \<Rightarrow> (resource_t \<times> 'a boot_scheme) exec" where
  "BOOT_INFO_get_memory s =
     (if \<not> boot_inited s then
        seq (vga_printf s ''BOOT_INFO not inited.\<newline>'' []) (\<lambda>s. ret (new_resource, s))
      else multiboot2_iter get_memory new_resource s)"

end
