(* ===== verification/Firstfit.thy ===== *)
theory Firstfit
  imports Allocator Vga
begin

text \<open>
  The first-fit allocator of \<open>src/libk/src/firstfit.cpp\<close>: a bitmap of 512 words of 64 bits, one bit
  per page. An access outside the array is the fault \<open>Out_of_bounds\<close>. Indices are \<open>size_t\<close>
  and the loops compare them with a sum that may wrap, as in the code.
\<close>

section \<open>The bitmap\<close>

record FIRSTFIT = ALLOCATOR +
  bitmap :: "u64 list"

definition MASK :: u64 where "MASK = 0x3F"
definition SHIFT :: nat where "SHIFT = 6"
definition BITS_PER_WORD :: u64 where "BITS_PER_WORD = 8"
definition BITS_ARR_SIZE :: u64 where "BITS_ARR_SIZE = PAGE_SIZE div BITS_PER_WORD"

definition word_of :: "u64 \<Rightarrow> nat" where
  "word_of idx = unat (drop_bit SHIFT idx)"

definition bit_of :: "u64 \<Rightarrow> u64" where
  "bit_of idx = push_bit (unat (idx AND MASK)) 1"

definition ff_set :: "FIRSTFIT \<Rightarrow> u64 \<Rightarrow> FIRSTFIT exec" where
  "ff_set ff idx =
     (if word_of idx < length (bitmap ff)
      then ret (ff\<lparr>bitmap := (bitmap ff)[word_of idx := bitmap ff ! word_of idx OR bit_of idx]\<rparr>)
      else fail Out_of_bounds)"

definition ff_clr :: "FIRSTFIT \<Rightarrow> u64 \<Rightarrow> FIRSTFIT exec" where
  "ff_clr ff idx =
     (if word_of idx < length (bitmap ff)
      then ret (ff\<lparr>bitmap := (bitmap ff)[word_of idx := bitmap ff ! word_of idx AND NOT (bit_of idx)]\<rparr>)
      else fail Out_of_bounds)"

definition ff_test :: "FIRSTFIT \<Rightarrow> u64 \<Rightarrow> bool exec" where
  "ff_test ff idx =
     (if word_of idx < length (bitmap ff)
      then ret (bitmap ff ! word_of idx AND bit_of idx \<noteq> 0)
      else fail Out_of_bounds)"

lemma word_loop_less [termination_simp]: "i < b \<Longrightarrow> unat b - unat (i + 1) < unat b - unat (i :: u64)"
proof -
  assume "i < b"
  then have "unat i < unat b" by (simp add: word_less_nat_alt)
  moreover from this have "unat (i + 1) = Suc (unat i)"
    using unat_lt_64 [of b] unat_add_fits [of i 1] by simp
  ultimately show ?thesis by simp
qed

function find_len_loop :: "FIRSTFIT \<Rightarrow> u64 \<Rightarrow> bool \<Rightarrow> u64 \<Rightarrow> u64 \<Rightarrow> u64 \<Rightarrow> u64 exec" where
  "find_len_loop ff len val i count idx =
     (if i < allocator_length ff
      then seq (ff_test ff i) (\<lambda>b.
             let (count, idx) = (if b \<noteq> val then (0, i + 1) else (count + 1, idx))
             in if count = len then ret idx else find_len_loop ff len val (i + 1) count idx)
      else ret (NOT 0))"
  by auto
termination
  by (relation "measure (\<lambda>(ff, len, val, i, count, idx). unat (allocator_length ff) - unat i)")
    (auto simp: word_loop_less)

declare find_len_loop.simps [simp del]

definition find_len :: "FIRSTFIT \<Rightarrow> u64 \<Rightarrow> bool \<Rightarrow> u64 exec" where
  "find_len ff len val = find_len_loop ff len val 0 0 0"

section \<open>Allocation\<close>

text \<open>The loops over \<open>[i, bound)\<close> that mark, release and test pages.\<close>

function set_pages :: "FIRSTFIT \<Rightarrow> u64 \<Rightarrow> u64 \<Rightarrow> FIRSTFIT exec" where
  "set_pages ff i bound =
     (if i < bound then seq (ff_set ff i) (\<lambda>ff. set_pages ff (i + 1) bound) else ret ff)"
  by auto
termination
  by (relation "measure (\<lambda>(ff, i, bound). unat bound - unat i)") (auto simp: word_loop_less)

function clr_pages :: "FIRSTFIT \<Rightarrow> u64 \<Rightarrow> u64 \<Rightarrow> FIRSTFIT exec" where
  "clr_pages ff i bound =
     (if i < bound then seq (ff_clr ff i) (\<lambda>ff. clr_pages ff (i + 1) bound) else ret ff)"
  by auto
termination
  by (relation "measure (\<lambda>(ff, i, bound). unat bound - unat i)") (auto simp: word_loop_less)

function any_used :: "FIRSTFIT \<Rightarrow> u64 \<Rightarrow> u64 \<Rightarrow> bool exec" where
  "any_used ff i bound =
     (if i < bound then seq (ff_test ff i) (\<lambda>b. if b then ret True else any_used ff (i + 1) bound)
      else ret False)"
  by auto
termination
  by (relation "measure (\<lambda>(ff, i, bound). unat bound - unat i)") (auto simp: word_loop_less)

declare set_pages.simps [simp del] clr_pages.simps [simp del] any_used.simps [simp del]

definition count_pages :: "u64 \<Rightarrow> FIRSTFIT \<Rightarrow> FIRSTFIT" where
  "count_pages len ff = ff\<lparr>allocator_free_count := allocator_free_count ff - len,
     allocator_used_count := allocator_used_count ff + len\<rparr>"

definition ff_alloc :: "FIRSTFIT \<Rightarrow> u64 \<Rightarrow> (u64 \<times> FIRSTFIT) exec" where
  "ff_alloc ff len =
     seq (find_len ff len False) (\<lambda>idx.
       if idx = NOT 0 then ret (0, ff)
       else seq (set_pages ff idx (idx + len)) (\<lambda>ff.
         ret (allocator_start_addr ff + PAGE_SIZE * idx, count_pages len ff)))"

definition out_of_range :: "FIRSTFIT \<Rightarrow> u64 \<Rightarrow> bool" where
  "out_of_range ff addr \<longleftrightarrow> addr < allocator_start_addr ff
     \<or> addr \<ge> allocator_start_addr ff + allocator_length ff * PAGE_SIZE"

definition ff_alloc_at :: "FIRSTFIT \<Rightarrow> u64 \<Rightarrow> u64 \<Rightarrow> (bool \<times> FIRSTFIT) exec" where
  "ff_alloc_at ff addr len =
     (if out_of_range ff addr then ret (False, ff)
      else let idx = (addr - allocator_start_addr ff) div PAGE_SIZE
           in seq (any_used ff idx (idx + len)) (\<lambda>used.
                if used then ret (False, ff)
                else seq (set_pages ff idx (idx + len)) (\<lambda>ff. ret (True, count_pages len ff))))"

definition ff_free :: "FIRSTFIT \<Rightarrow> u64 \<Rightarrow> u64 \<Rightarrow> FIRSTFIT exec" where
  "ff_free ff addr len =
     (if out_of_range ff addr then ret ff
      else let idx = (addr - allocator_start_addr ff) div PAGE_SIZE
           in seq (clr_pages ff idx (idx + len)) (\<lambda>ff.
                ret (ff\<lparr>allocator_free_count := allocator_free_count ff + len,
                       allocator_used_count := allocator_used_count ff - len\<rparr>)))"

definition ff_get_used_count :: "FIRSTFIT \<Rightarrow> u64" where
  "ff_get_used_count ff = allocator_used_count ff"

definition ff_get_free_count :: "FIRSTFIT \<Rightarrow> u64" where
  "ff_get_free_count ff = allocator_free_count ff"

section \<open>Construction\<close>

text \<open>
  The constructor runs on static storage, clears the bitmap and reports on the console. The
  conversion \<open>%X\<close> of its message is one \<open>vga_printf\<close> does not know. The destructor
  only reports.
\<close>

definition ff_new :: "'a vga_scheme \<Rightarrow> FIRSTFIT \<Rightarrow> string \<Rightarrow> u64 \<Rightarrow> u64 \<Rightarrow>
    (FIRSTFIT \<times> 'a vga_scheme) exec" where
  "ff_new s this t addr len =
     (let this = (ALLOCATOR_init this t addr len)\<lparr>bitmap := replicate (unat BITS_ARR_SIZE) 0\<rparr>
      in seq (vga_printf s ''%s: 0x%p(0x%X pages) init.\<newline>''
                [VaStr (tag this), VaWord (allocator_start_addr this), VaWord (allocator_length this)])
           (\<lambda>s. ret (this, s)))"

definition ff_delete :: "'a vga_scheme \<Rightarrow> FIRSTFIT \<Rightarrow> 'a vga_scheme exec" where
  "ff_delete s this = vga_printf s ''%s finit.\<newline>'' [VaStr (tag this)]"

end
