(* ===== verification/Vsprintf.thy ===== *)
theory Vsprintf
  imports Vga
begin

text \<open>
  The formatter of \<open>src/libc/src/stdio/vsprintf.c\<close>, as it is compiled (no floating point). The output
  function the code passes around as a pointer, with its buffer and limit, is a function of the
  character, the index and the memory; every call \<open>out(c, buffer, idx++, maxlen)\<close> is \<open>emit\<close>. The format
  is a list of characters with the NUL behind its end; \<open>*_format\<close> is \<open>peek\<close>, and \<open>_format++\<close>
  behind the NUL is the fault \<open>Out_of_bounds\<close>. The 32 bytes of the conversion buffer are the list
  of the characters stored so far, and a store at index 32 is the same fault.
\<close>

section \<open>Flags\<close>

definition FLAGS_ZEROPAD :: u32 where "FLAGS_ZEROPAD = push_bit 0 1"
definition FLAGS_LEFT :: u32 where "FLAGS_LEFT = push_bit 1 1"
definition FLAGS_PLUS :: u32 where "FLAGS_PLUS = push_bit 2 1"
definition FLAGS_SPACE :: u32 where "FLAGS_SPACE = push_bit 3 1"
definition FLAGS_HASH :: u32 where "FLAGS_HASH = push_bit 4 1"
definition FLAGS_UPPERCASE :: u32 where "FLAGS_UPPERCASE = push_bit 5 1"
definition FLAGS_CHAR :: u32 where "FLAGS_CHAR = push_bit 6 1"
definition FLAGS_SHORT :: u32 where "FLAGS_SHORT = push_bit 7 1"
definition FLAGS_LONG :: u32 where "FLAGS_LONG = push_bit 8 1"
definition FLAGS_LONG_LONG :: u32 where "FLAGS_LONG_LONG = push_bit 9 1"
definition FLAGS_PRECISION :: u32 where "FLAGS_PRECISION = push_bit 10 1"

definition has :: "u32 \<Rightarrow> u32 \<Rightarrow> bool" where
  "has flags f \<longleftrightarrow> flags AND f \<noteq> 0"

definition PRINTF_NTOA_BUFFER_SIZE :: nat where
  "PRINTF_NTOA_BUFFER_SIZE = 32"

section \<open>Output functions\<close>

definition out_buffer :: "addr \<Rightarrow> u64 \<Rightarrow> char \<Rightarrow> u64 \<Rightarrow> mem \<Rightarrow> mem" where
  "out_buffer buffer maxlen c idx m = (if idx < maxlen then write8 m (buffer + idx) (of_char c) else m)"

definition out_null :: "char \<Rightarrow> u64 \<Rightarrow> mem \<Rightarrow> mem" where
  "out_null c idx m = m"

definition emit :: "(char \<Rightarrow> u64 \<Rightarrow> 's \<Rightarrow> 's) \<Rightarrow> char \<Rightarrow> 's \<times> u64 \<Rightarrow> 's \<times> u64" where
  "emit out c = (\<lambda>(s, idx). (out c idx s, idx + 1))"

section \<open>Helpers\<close>

fun strnlen_s :: "string \<Rightarrow> nat \<Rightarrow> nat" where
  "strnlen_s [] maxsize = 0"
| "strnlen_s (c # cs) maxsize =
     (if c \<noteq> CHR 0x00 \<and> maxsize \<noteq> 0 then Suc (strnlen_s cs (maxsize - 1)) else 0)"

definition is_digit :: "char \<Rightarrow> bool" where
  "is_digit ch \<longleftrightarrow> of_char CHR ''0'' \<le> (of_char ch :: nat) \<and> of_char ch \<le> (of_char CHR ''9'' :: nat)"

fun atoi :: "u32 \<Rightarrow> string \<Rightarrow> u32 \<times> string" where
  "atoi i [] = (i, [])"
| "atoi i (c # cs) =
     (if is_digit c then atoi (i * 10 + (of_char c - of_char CHR ''0'')) cs else (i, c # cs))"

function pad_spaces :: "(char \<Rightarrow> u64 \<Rightarrow> 's \<Rightarrow> 's) \<Rightarrow> nat \<Rightarrow> nat \<Rightarrow> 's \<times> u64 \<Rightarrow> 's \<times> u64" where
  "pad_spaces out i width st =
     (if i < width then pad_spaces out (i + 1) width (emit out CHR '' '' st) else st)"
  by auto
termination
  by (relation "measure (\<lambda>(out, i, width, st). width - i)") auto

function pad_left :: "(char \<Rightarrow> u64 \<Rightarrow> 's \<Rightarrow> 's) \<Rightarrow> u64 \<Rightarrow> u64 \<Rightarrow> 's \<times> u64 \<Rightarrow> 's \<times> u64" where
  "pad_left out start width st =
     (if snd st - start < width then pad_left out start width (emit out CHR '' '' st) else st)"
  by auto
termination
proof (relation "measure (\<lambda>(out, start, width, st). unat width - unat (snd st - start))")
  fix out :: "char \<Rightarrow> u64 \<Rightarrow> 's \<Rightarrow> 's" and start width :: u64 and st :: "'s \<times> u64"
  assume lt: "snd st - start < width"
  then have "unat (snd st - start + 1) = Suc (unat (snd st - start))"
    using unat_lt_64 [of width] unat_add_fits [of "snd st - start" 1] by (simp add: word_less_nat_alt)
  moreover have "snd (emit out CHR '' '' st) - start = snd st - start + 1"
    by (cases st) (simp add: emit_def)
  ultimately have "unat (snd (emit out CHR '' '' st) - start) = Suc (unat (snd st - start))" by metis
  then show "((out, start, width, emit out CHR '' '' st), out, start, width, st)
    \<in> measure (\<lambda>(out, start, width, st). unat width - unat (snd st - start))"
    using lt by (simp add: word_less_nat_alt)
qed simp

declare pad_spaces.simps [simp del] pad_left.simps [simp del]

definition out_rev :: "(char \<Rightarrow> u64 \<Rightarrow> 's \<Rightarrow> 's) \<Rightarrow> 's \<times> u64 \<Rightarrow> string \<Rightarrow> u32 \<Rightarrow> u32 \<Rightarrow> 's \<times> u64" where
  "out_rev out st buf width flags =
     (let start_idx = snd st;
          st = (if \<not> has flags FLAGS_LEFT \<and> \<not> has flags FLAGS_ZEROPAD
                then pad_spaces out (length buf) (unat width) st else st);
          st = fold (emit out) (rev buf) st
      in if has flags FLAGS_LEFT then pad_left out start_idx (ucast width) st else st)"

section \<open>Integers\<close>

definition buf_push :: "char \<Rightarrow> string \<Rightarrow> string exec" where
  "buf_push c buf = (if length buf < PRINTF_NTOA_BUFFER_SIZE then ret (buf @ [c]) else fail Out_of_bounds)"

function pad_zeros :: "nat \<Rightarrow> string \<Rightarrow> string exec" where
  "pad_zeros n buf =
     (if length buf < n \<and> length buf < PRINTF_NTOA_BUFFER_SIZE
      then seq (buf_push CHR ''0'' buf) (\<lambda>buf. pad_zeros n buf) else ret buf)"
  by auto
termination
  by (relation "measure (\<lambda>(n, buf). n - length buf)") (auto simp: buf_push_def ret_def fail_def split: if_splits)

declare pad_zeros.simps [simp del]

definition sign_of :: "bool \<Rightarrow> u32 \<Rightarrow> string \<Rightarrow> string exec" where
  "sign_of negative flags buf =
     (if length buf < PRINTF_NTOA_BUFFER_SIZE
      then if negative then buf_push CHR ''-'' buf
           else if has flags FLAGS_PLUS then buf_push CHR ''+'' buf
           else if has flags FLAGS_SPACE then buf_push CHR '' '' buf
           else ret buf
      else ret buf)"

definition hash_prefix :: "u32 \<Rightarrow> u32 \<Rightarrow> u32 \<Rightarrow> u32 \<Rightarrow> string \<Rightarrow> string exec" where
  "hash_prefix base prec width flags buf =
     (let buf = (if \<not> has flags FLAGS_PRECISION \<and> buf \<noteq> []
                   \<and> (length buf = unat prec \<or> length buf = unat width)
                 then let buf = butlast buf in if buf \<noteq> [] \<and> base = 16 then butlast buf else buf
                 else buf)
      in seq (if base = 16 \<and> \<not> has flags FLAGS_UPPERCASE \<and> length buf < PRINTF_NTOA_BUFFER_SIZE
              then buf_push CHR ''x'' buf
              else if base = 16 \<and> has flags FLAGS_UPPERCASE \<and> length buf < PRINTF_NTOA_BUFFER_SIZE
              then buf_push CHR ''X'' buf
              else if base = 2 \<and> length buf < PRINTF_NTOA_BUFFER_SIZE
              then buf_push CHR ''b'' buf
              else ret buf)
           (\<lambda>buf. if length buf < PRINTF_NTOA_BUFFER_SIZE then buf_push CHR ''0'' buf else ret buf))"

definition ntoa_format :: "(char \<Rightarrow> u64 \<Rightarrow> 's \<Rightarrow> 's) \<Rightarrow> 's \<times> u64 \<Rightarrow> string \<Rightarrow> bool \<Rightarrow> u32 \<Rightarrow> u32 \<Rightarrow> u32 \<Rightarrow> u32 \<Rightarrow>
    ('s \<times> u64) exec" where
  "ntoa_format out st buf negative base prec width flags =
     seq (if \<not> has flags FLAGS_LEFT
          then let width = (if width \<noteq> 0 \<and> has flags FLAGS_ZEROPAD
                              \<and> (negative \<or> has flags (FLAGS_PLUS OR FLAGS_SPACE))
                            then width - 1 else width)
               in seq (pad_zeros (unat prec) buf) (\<lambda>buf.
                  seq (if has flags FLAGS_ZEROPAD then pad_zeros (unat width) buf else ret buf) (\<lambda>buf.
                  ret (buf, width)))
          else ret (buf, width))
     (\<lambda>(buf, width).
       seq (if has flags FLAGS_HASH then hash_prefix base prec width flags buf else ret buf) (\<lambda>buf.
       seq (sign_of negative flags buf) (\<lambda>buf.
       ret (out_rev out st buf width flags))))"

function ntoa_digits :: "u32 \<Rightarrow> u64 \<Rightarrow> u64 \<Rightarrow> string \<Rightarrow> string exec" where
  "ntoa_digits flags base val buf =
     (let digit = val mod base;
          c = (if digit < 10 then of_char CHR ''0'' + digit
               else (if has flags FLAGS_UPPERCASE then of_char CHR ''A'' else of_char CHR ''a'') + digit - 10)
      in seq (buf_push (char_of (unat c)) buf) (\<lambda>buf.
           if val div base \<noteq> 0 \<and> length buf < PRINTF_NTOA_BUFFER_SIZE
           then ntoa_digits flags base (val div base) buf else ret buf))"
  by auto
termination
  by (relation "measure (\<lambda>(flags, base, val, buf). PRINTF_NTOA_BUFFER_SIZE - length buf)")
    (auto simp: buf_push_def ret_def fail_def split: if_splits)

declare ntoa_digits.simps [simp del]

definition ntoa_long :: "(char \<Rightarrow> u64 \<Rightarrow> 's \<Rightarrow> 's) \<Rightarrow> 's \<times> u64 \<Rightarrow> u64 \<Rightarrow> bool \<Rightarrow> u64 \<Rightarrow> u32 \<Rightarrow> u32 \<Rightarrow> u32 \<Rightarrow>
    ('s \<times> u64) exec" where
  "ntoa_long out st val negative base prec width flags =
     (let flags = (if val = 0 then flags AND NOT FLAGS_HASH else flags)
      in seq (if \<not> has flags FLAGS_PRECISION \<or> val \<noteq> 0 then ntoa_digits flags base val [] else ret [])
           (\<lambda>buf. ntoa_format out st buf negative (ucast base) prec width flags))"

text \<open>On x86_64 \<open>long long\<close> is as wide as \<open>long\<close>, and the branch that is compiled has the same text.\<close>

definition ntoa_long_long :: "(char \<Rightarrow> u64 \<Rightarrow> 's \<Rightarrow> 's) \<Rightarrow> 's \<times> u64 \<Rightarrow> u64 \<Rightarrow> bool \<Rightarrow> u64 \<Rightarrow> u32 \<Rightarrow> u32 \<Rightarrow> u32 \<Rightarrow>
    ('s \<times> u64) exec" where
  "ntoa_long_long out st val negative base prec width flags =
     (let flags = (if val = 0 then flags AND NOT FLAGS_HASH else flags)
      in seq (if \<not> has flags FLAGS_PRECISION \<or> val \<noteq> 0 then ntoa_digits flags base val [] else ret [])
           (\<lambda>buf. ntoa_format out st buf negative (ucast base) prec width flags))"

section \<open>The format\<close>

definition peek :: "string \<Rightarrow> char" where
  "peek fmt = (case fmt of [] \<Rightarrow> CHR 0x00 | c # _ \<Rightarrow> c)"

definition adv :: "string \<Rightarrow> string exec" where
  "adv fmt = (case fmt of [] \<Rightarrow> fail Out_of_bounds | _ # fmt \<Rightarrow> ret fmt)"

fun parse_flags :: "u32 \<Rightarrow> string \<Rightarrow> u32 \<times> string" where
  "parse_flags flags [] = (flags, [])"
| "parse_flags flags (c # fmt) =
     (if c = CHR ''0'' then parse_flags (flags OR FLAGS_ZEROPAD) fmt
      else if c = CHR ''-'' then parse_flags (flags OR FLAGS_LEFT) fmt
      else if c = CHR ''+'' then parse_flags (flags OR FLAGS_PLUS) fmt
      else if c = CHR '' '' then parse_flags (flags OR FLAGS_SPACE) fmt
      else if c = CHR ''#'' then parse_flags (flags OR FLAGS_HASH) fmt
      else (flags, c # fmt))"

definition parse_width :: "u32 \<Rightarrow> string \<Rightarrow> va_arg list \<Rightarrow> (u32 \<times> u32 \<times> string \<times> va_arg list) exec" where
  "parse_width flags fmt args =
     (if is_digit (peek fmt) then (case atoi 0 fmt of (width, fmt) \<Rightarrow> ret (flags, width, fmt, args))
      else if peek fmt = CHR ''*'' then
        seq (vga_word args) (\<lambda>(v, args).
          let w = sint (ucast v :: u32)
          in if w < 0
             then if w = - (2 ^ 31) then fail Signed_overflow
                  else seq (adv fmt) (\<lambda>fmt. ret (flags OR FLAGS_LEFT, of_int (- w), fmt, args))
             else seq (adv fmt) (\<lambda>fmt. ret (flags, of_int w, fmt, args)))
      else ret (flags, 0, fmt, args))"

definition parse_precision :: "u32 \<Rightarrow> string \<Rightarrow> va_arg list \<Rightarrow> (u32 \<times> u32 \<times> string \<times> va_arg list) exec" where
  "parse_precision flags fmt args =
     (if peek fmt = CHR ''.'' then
        let flags = flags OR FLAGS_PRECISION
        in seq (adv fmt) (\<lambda>fmt.
             if is_digit (peek fmt) then (case atoi 0 fmt of (prec, fmt) \<Rightarrow> ret (flags, prec, fmt, args))
             else if peek fmt = CHR ''*'' then
               seq (vga_word args) (\<lambda>(v, args).
                 let prec = sint (ucast v :: u32)
                 in seq (adv fmt) (\<lambda>fmt. ret (flags, if prec > 0 then of_int prec else 0, fmt, args)))
             else ret (flags, 0, fmt, args))
      else ret (flags, 0, fmt, args))"

definition parse_length :: "u32 \<Rightarrow> string \<Rightarrow> (u32 \<times> string) exec" where
  "parse_length flags fmt =
     (if peek fmt = CHR ''l'' then
        seq (adv fmt) (\<lambda>fmt.
          if peek fmt = CHR ''l'' then seq (adv fmt) (\<lambda>fmt. ret (flags OR FLAGS_LONG OR FLAGS_LONG_LONG, fmt))
          else ret (flags OR FLAGS_LONG, fmt))
      else if peek fmt = CHR ''h'' then
        seq (adv fmt) (\<lambda>fmt.
          if peek fmt = CHR ''h'' then seq (adv fmt) (\<lambda>fmt. ret (flags OR FLAGS_SHORT OR FLAGS_CHAR, fmt))
          else ret (flags OR FLAGS_SHORT, fmt))
      else if peek fmt = CHR ''t'' \<or> peek fmt = CHR ''j'' \<or> peek fmt = CHR ''z'' then
        seq (adv fmt) (\<lambda>fmt. ret (flags OR FLAGS_LONG, fmt))
      else ret (flags, fmt))"

section \<open>Conversions\<close>

definition signed_value :: "u32 \<Rightarrow> u64 \<Rightarrow> int" where
  "signed_value flags v =
     (if has flags FLAGS_LONG_LONG then sint v
      else if has flags FLAGS_LONG then sint v
      else if has flags FLAGS_CHAR then sint (ucast v :: u8)
      else if has flags FLAGS_SHORT then sint (ucast v :: u16)
      else sint (ucast v :: u32))"

definition unsigned_value :: "u32 \<Rightarrow> u64 \<Rightarrow> u64" where
  "unsigned_value flags v =
     (if has flags FLAGS_LONG_LONG then v
      else if has flags FLAGS_LONG then v
      else if has flags FLAGS_CHAR then ucast (ucast v :: u8)
      else if has flags FLAGS_SHORT then ucast (ucast v :: u16)
      else ucast (ucast v :: u32))"

text \<open>\<open>value > 0 ? value : 0 - value\<close>, where the subtraction overflows for the smallest value of the type.\<close>

definition magnitude :: "u32 \<Rightarrow> int \<Rightarrow> u64 exec" where
  "magnitude flags v =
     (if v > 0 then ret (of_int v)
      else if v = (if has flags FLAGS_LONG_LONG \<or> has flags FLAGS_LONG then - (2 ^ 63) else - (2 ^ 31))
      then fail Signed_overflow
      else ret (of_int (0 - v)))"

definition ntoa :: "(char \<Rightarrow> u64 \<Rightarrow> 's \<Rightarrow> 's) \<Rightarrow> 's \<times> u64 \<Rightarrow> u64 \<Rightarrow> bool \<Rightarrow> u64 \<Rightarrow> u32 \<Rightarrow> u32 \<Rightarrow> u32 \<Rightarrow>
    ('s \<times> u64) exec" where
  "ntoa out st val negative base prec width flags =
     (if has flags FLAGS_LONG_LONG then ntoa_long_long out st val negative base prec width flags
      else ntoa_long out st val negative base prec width flags)"

definition convert_int :: "(char \<Rightarrow> u64 \<Rightarrow> 's \<Rightarrow> 's) \<Rightarrow> 's \<times> u64 \<Rightarrow> u32 \<Rightarrow> u32 \<Rightarrow> u32 \<Rightarrow> char \<Rightarrow> va_arg list \<Rightarrow>
    (('s \<times> u64) \<times> va_arg list) exec" where
  "convert_int out st flags width prec c args =
     (let base = (if c = CHR ''x'' \<or> c = CHR ''X'' then 16
                  else if c = CHR ''o'' then 8
                  else if c = CHR ''b'' then 2
                  else 10);
          flags = (if base = 10 then flags AND NOT FLAGS_HASH else flags);
          flags = (if c = CHR ''X'' then flags OR FLAGS_UPPERCASE else flags);
          signed = (c = CHR ''i'' \<or> c = CHR ''d'');
          flags = (if \<not> signed then flags AND NOT (FLAGS_PLUS OR FLAGS_SPACE) else flags);
          flags = (if has flags FLAGS_PRECISION then flags AND NOT FLAGS_ZEROPAD else flags)
      in seq (vga_word args) (\<lambda>(v, args).
           if signed then
             let value = signed_value flags v
             in seq (magnitude flags value) (\<lambda>m.
                seq (ntoa out st m (value < 0) base prec width flags) (\<lambda>st. ret (st, args)))
           else
             seq (ntoa out st (unsigned_value flags v) False base prec width flags) (\<lambda>st. ret (st, args))))"

definition convert_char :: "(char \<Rightarrow> u64 \<Rightarrow> 's \<Rightarrow> 's) \<Rightarrow> 's \<times> u64 \<Rightarrow> u32 \<Rightarrow> u32 \<Rightarrow> char \<Rightarrow> 's \<times> u64" where
  "convert_char out st flags width c =
     (let st = (if \<not> has flags FLAGS_LEFT then pad_spaces out 1 (unat width) st else st);
          st = emit out c st
      in if has flags FLAGS_LEFT then pad_spaces out 1 (unat width) st else st)"

fun str_out :: "(char \<Rightarrow> u64 \<Rightarrow> 's \<Rightarrow> 's) \<Rightarrow> string \<Rightarrow> bool \<Rightarrow> nat \<Rightarrow> 's \<times> u64 \<Rightarrow> 's \<times> u64" where
  "str_out out [] limited prec st = st"
| "str_out out (c # p) limited prec st =
     (if c \<noteq> CHR 0x00 \<and> (\<not> limited \<or> prec \<noteq> 0)
      then str_out out p limited (prec - 1) (emit out c st) else st)"

definition convert_str :: "(char \<Rightarrow> u64 \<Rightarrow> 's \<Rightarrow> 's) \<Rightarrow> 's \<times> u64 \<Rightarrow> u32 \<Rightarrow> u32 \<Rightarrow> u32 \<Rightarrow> string \<Rightarrow> 's \<times> u64" where
  "convert_str out st flags width prec p =
     (let l = unat (of_nat (strnlen_s p (if prec \<noteq> 0 then unat prec else 2 ^ 64 - 1)) :: u32);
          l = (if has flags FLAGS_PRECISION then if l < unat prec then l else unat prec else l);
          st = (if \<not> has flags FLAGS_LEFT then pad_spaces out l (unat width) st else st);
          st = str_out out p (has flags FLAGS_PRECISION) (unat prec) st
      in if has flags FLAGS_LEFT then pad_spaces out l (unat width) st else st)"

definition convert :: "(char \<Rightarrow> u64 \<Rightarrow> 's \<Rightarrow> 's) \<Rightarrow> 's \<times> u64 \<Rightarrow> u32 \<Rightarrow> u32 \<Rightarrow> u32 \<Rightarrow> char \<Rightarrow> va_arg list \<Rightarrow>
    (('s \<times> u64) \<times> va_arg list) exec" where
  "convert out st flags width prec c args =
     (if c \<in> {CHR ''d'', CHR ''i'', CHR ''u'', CHR ''x'', CHR ''X'', CHR ''o'', CHR ''b''} then
        convert_int out st flags width prec c args
      else if c = CHR ''c'' then
        seq (vga_word args) (\<lambda>(v, args). ret (convert_char out st flags width (char_of (unat v)), args))
      else if c = CHR ''s'' then
        (case args of
           VaStr p # args \<Rightarrow> ret (convert_str out st flags width prec p, args)
         | _ \<Rightarrow> fail Bad_argument)
      else if c = CHR ''p'' then
        seq (vga_word args) (\<lambda>(v, args).
          seq (ntoa_long_long out st v False 16 prec 16 (flags OR FLAGS_ZEROPAD OR FLAGS_UPPERCASE))
            (\<lambda>st. ret (st, args)))
      else ret (emit out c st, args))"

text \<open>One specification behind its \<open>%\<close>: the new output state, the rest of the format and of the arguments.\<close>

definition directive :: "(char \<Rightarrow> u64 \<Rightarrow> 's \<Rightarrow> 's) \<Rightarrow> 's \<times> u64 \<Rightarrow> string \<Rightarrow> va_arg list \<Rightarrow>
    (('s \<times> u64) \<times> string \<times> va_arg list) exec" where
  "directive out st fmt args =
     (case parse_flags 0 fmt of (flags, fmt) \<Rightarrow>
      seq (parse_width flags fmt args) (\<lambda>(flags, width, fmt, args).
      seq (parse_precision flags fmt args) (\<lambda>(flags, prec, fmt, args).
      seq (parse_length flags fmt) (\<lambda>(flags, fmt).
      seq (convert out st flags width prec (peek fmt) args) (\<lambda>(st, args).
      seq (adv fmt) (\<lambda>fmt. ret (st, fmt, args)))))))"

lemma adv_length: "adv fmt = ret fmt' \<Longrightarrow> length fmt' < length fmt"
  by (auto simp: adv_def split: list.splits)

lemma length_parse_flags: "length (snd (parse_flags flags fmt)) \<le> length fmt"
  by (induction flags fmt rule: parse_flags.induct) auto

lemma parse_flags_length: "parse_flags flags fmt = (flags', fmt') \<Longrightarrow> length fmt' \<le> length fmt"
  using length_parse_flags [of flags fmt] by simp

lemma length_atoi: "length (snd (atoi i fmt)) \<le> length fmt"
  by (induction i fmt rule: atoi.induct) auto

lemma atoi_length: "atoi i fmt = (k, fmt') \<Longrightarrow> length fmt' \<le> length fmt"
  using length_atoi [of i fmt] by simp

lemma parse_width_length: "parse_width flags fmt args = ret (flags', width, fmt', args') \<Longrightarrow> length fmt' \<le> length fmt"
  by (auto simp: parse_width_def seq_eq_ret Let_def split: if_splits prod.splits dest: atoi_length adv_length)

lemma parse_precision_length:
  "parse_precision flags fmt args = ret (flags', prec, fmt', args') \<Longrightarrow> length fmt' \<le> length fmt"
  by (auto simp: parse_precision_def seq_eq_ret Let_def split: if_splits prod.splits
      dest!: atoi_length adv_length)

lemma parse_length_length: "parse_length flags fmt = ret (flags', fmt') \<Longrightarrow> length fmt' \<le> length fmt"
  by (auto simp: parse_length_def seq_eq_ret split: if_splits dest!: adv_length)

lemma directive_length: "directive out st fmt args = ret (st', fmt', args') \<Longrightarrow> length fmt' < length fmt"
  by (auto simp: directive_def seq_eq_ret split: prod.splits
      dest!: parse_flags_length parse_width_length parse_precision_length parse_length_length adv_length)

function vsnprintf_loop :: "(char \<Rightarrow> u64 \<Rightarrow> 's \<Rightarrow> 's) \<Rightarrow> 's \<times> u64 \<Rightarrow> string \<Rightarrow> va_arg list \<Rightarrow> ('s \<times> u64) exec" where
  "vsnprintf_loop out st [] args = ret st"
| "vsnprintf_loop out st (c # fmt) args =
     (if c = CHR 0x00 then ret st
      else if c \<noteq> CHR ''%'' then vsnprintf_loop out (emit out c st) fmt args
      else seq (directive out st fmt args) (\<lambda>(st, fmt, args). vsnprintf_loop out st fmt args))"
  by pat_completeness auto
termination
  by (relation "measure (\<lambda>(out, st, fmt, args). length fmt)") (auto dest: directive_length)

definition vsnprintf :: "mem \<Rightarrow> addr \<Rightarrow> u64 \<Rightarrow> string \<Rightarrow> va_arg list \<Rightarrow> (u32 \<times> mem) exec" where
  "vsnprintf m buffer maxlen fmt args =
     (let out = (if buffer = 0 then out_null else out_buffer buffer maxlen)
      in seq (vsnprintf_loop out (m, 0) fmt args) (\<lambda>(m, idx).
           ret (ucast idx, out CHR 0x00 (if idx < maxlen then idx else maxlen - 1) m)))"

definition libc_sprintf :: "mem \<Rightarrow> addr \<Rightarrow> string \<Rightarrow> va_arg list \<Rightarrow> (u32 \<times> mem) exec" where
  "libc_sprintf m buffer fmt args = vsnprintf m buffer (- 1) ''TEST:%d\<newline>'' args"

definition libc_snprintf :: "mem \<Rightarrow> addr \<Rightarrow> u64 \<Rightarrow> string \<Rightarrow> va_arg list \<Rightarrow> (u32 \<times> mem) exec" where
  "libc_snprintf m buffer count fmt args = vsnprintf m buffer count fmt args"

definition libc_vsnprintf :: "mem \<Rightarrow> addr \<Rightarrow> u64 \<Rightarrow> string \<Rightarrow> va_arg list \<Rightarrow> (u32 \<times> mem) exec" where
  "libc_vsnprintf m buffer count fmt args = vsnprintf m buffer count fmt args"

end
