(* ===== verification/Io.thy ===== *)
theory Io
  imports Tui Vsprintf
begin

text \<open>
  The I/O layer of the kernel: the class \<open>IO\<close> of \<open>src/libk/src/io.cpp\<close>, whose only object passes everything
  on to the ports, to memory and to the text console; \<open>printf\<close>, \<open>info\<close>, \<open>warn\<close> and \<open>err\<close>, which format
  into the static array \<open>buf\<close> and print it; and the \<open>std::ostream\<close> of \<open>src/libcxx/src/iostream.cpp\<close>.
  The address the linker gives to \<open>buf\<close> is the parameter \<open>buf\<close>.
\<close>

section \<open>Ports and memory-mapped registers\<close>

definition io_inb :: "u32 \<Rightarrow> 'a machine_scheme \<Rightarrow> u8 \<times> 'a machine_scheme" where
  "io_inb port s = port_inb s port"

definition io_inw :: "u32 \<Rightarrow> 'a machine_scheme \<Rightarrow> u16 \<times> 'a machine_scheme" where
  "io_inw port s = port_inw s port"

definition io_ind :: "u32 \<Rightarrow> 'a machine_scheme \<Rightarrow> u32 \<times> 'a machine_scheme" where
  "io_ind port s = port_ind s port"

definition io_outb :: "u32 \<Rightarrow> u8 \<Rightarrow> 'a machine_scheme \<Rightarrow> 'a machine_scheme" where
  "io_outb port data s = port_outb s port data"

definition io_outw :: "u32 \<Rightarrow> u16 \<Rightarrow> 'a machine_scheme \<Rightarrow> 'a machine_scheme" where
  "io_outw port data s = port_outw s port data"

definition io_outd :: "u32 \<Rightarrow> u32 \<Rightarrow> 'a machine_scheme \<Rightarrow> 'a machine_scheme" where
  "io_outd port data s = port_outd s port data"

definition io_read8 :: "addr \<Rightarrow> 'a machine_scheme \<Rightarrow> u8" where
  "io_read8 a s = ram s a"

definition io_write8 :: "addr \<Rightarrow> u8 \<Rightarrow> 'a machine_scheme \<Rightarrow> 'a machine_scheme" where
  "io_write8 a v s = s\<lparr>ram := write8 (ram s) a v\<rparr>"

definition io_read16 :: "addr \<Rightarrow> 'a machine_scheme \<Rightarrow> u16" where
  "io_read16 a s = load16 (ram s) a"

definition io_write16 :: "addr \<Rightarrow> u16 \<Rightarrow> 'a machine_scheme \<Rightarrow> 'a machine_scheme" where
  "io_write16 a v s = s\<lparr>ram := store16 (ram s) a v\<rparr>"

text \<open>The little-endian bytes of a number, and stores of the wider words.\<close>

fun le_bytes :: "nat \<Rightarrow> nat \<Rightarrow> u8 list" where
  "le_bytes 0 v = []"
| "le_bytes (Suc n) v = of_nat (v mod 256) # le_bytes n (v div 256)"

definition io_read32 :: "addr \<Rightarrow> 'a machine_scheme \<Rightarrow> u32" where
  "io_read32 a s = read32 (ram s) a"

definition io_write32 :: "addr \<Rightarrow> u32 \<Rightarrow> 'a machine_scheme \<Rightarrow> 'a machine_scheme" where
  "io_write32 a v s = s\<lparr>ram := store_bytes (ram s) a (le_bytes 4 (unat v))\<rparr>"

definition io_read64 :: "addr \<Rightarrow> 'a machine_scheme \<Rightarrow> u64" where
  "io_read64 a s = read64 (ram s) a"

definition io_write64 :: "addr \<Rightarrow> u64 \<Rightarrow> 'a machine_scheme \<Rightarrow> 'a machine_scheme" where
  "io_write64 a v s = s\<lparr>ram := store_bytes (ram s) a (le_bytes 8 (unat v))\<rparr>"

section \<open>The console\<close>

definition BUF_SIZE :: u64 where
  "BUF_SIZE = 512"

definition io_get_color :: "'a tui_scheme \<Rightarrow> color_t" where
  "io_get_color s = tui_get_color s"

definition io_set_color :: "color_t \<Rightarrow> 'a tui_scheme \<Rightarrow> 'a tui_scheme" where
  "io_set_color color s = tui_set_color color BLACK s"

definition io_put_char :: "char \<Rightarrow> 'a tui_scheme \<Rightarrow> 'a tui_scheme exec" where
  "io_put_char c s = tui_put_char c s"

definition io_write_string :: "addr \<Rightarrow> 'a tui_scheme \<Rightarrow> (u32 \<times> 'a tui_scheme) exec" where
  "io_write_string str s = seq (tui_write_string str s) (\<lambda>s. ret (0, s))"

text \<open>The four printing functions: format into \<open>buf\<close>, print it, clear it, return the length of the text.\<close>

definition io_printf :: "addr \<Rightarrow> string \<Rightarrow> va_arg list \<Rightarrow> 'a tui_scheme \<Rightarrow> (u32 \<times> 'a tui_scheme) exec" where
  "io_printf buf fmt args s =
     seq (vsnprintf (ram s) buf BUF_SIZE fmt args) (\<lambda>(n, m).
     seq (io_write_string buf (s\<lparr>ram := m\<rparr>)) (\<lambda>(_, s).
     ret (n, s\<lparr>ram := bzero (ram s) buf BUF_SIZE\<rparr>)))"

definition io_colored :: "color_t \<Rightarrow> addr \<Rightarrow> string \<Rightarrow> va_arg list \<Rightarrow> 'a tui_scheme \<Rightarrow> (u32 \<times> 'a tui_scheme) exec" where
  "io_colored color buf fmt args s =
     (let curr_color = io_get_color s; s = io_set_color color s in
      seq (vsnprintf (ram s) buf BUF_SIZE fmt args) (\<lambda>(i, m).
      seq (io_write_string buf (s\<lparr>ram := m\<rparr>)) (\<lambda>(_, s).
      let s = s\<lparr>ram := bzero (ram s) buf BUF_SIZE\<rparr>
      in ret (i, io_set_color curr_color s))))"

definition io_info :: "addr \<Rightarrow> string \<Rightarrow> va_arg list \<Rightarrow> 'a tui_scheme \<Rightarrow> (u32 \<times> 'a tui_scheme) exec" where
  "io_info = io_colored CYAN"

definition io_warn :: "addr \<Rightarrow> string \<Rightarrow> va_arg list \<Rightarrow> 'a tui_scheme \<Rightarrow> (u32 \<times> 'a tui_scheme) exec" where
  "io_warn = io_colored YELLOW"

definition io_err :: "addr \<Rightarrow> string \<Rightarrow> va_arg list \<Rightarrow> 'a tui_scheme \<Rightarrow> (u32 \<times> 'a tui_scheme) exec" where
  "io_err = io_colored LIGHT_RED"

section \<open>Streams\<close>

text \<open>An \<open>ostream\<close> has no state; each operator prints and returns the stream it was called on.\<close>

definition ostream_char :: "addr \<Rightarrow> char \<Rightarrow> 'a tui_scheme \<Rightarrow> 'a tui_scheme exec" where
  "ostream_char buf c s =
     seq (io_printf buf ''%c'' [VaWord (ucast (scast (of_char c :: u8) :: u32))] s) (\<lambda>(_, s). ret s)"

definition ostream_int :: "addr \<Rightarrow> u32 \<Rightarrow> 'a tui_scheme \<Rightarrow> 'a tui_scheme exec" where
  "ostream_int buf n s = seq (io_printf buf ''%d'' [VaWord (ucast n)] s) (\<lambda>(_, s). ret s)"

definition ostream_str :: "addr \<Rightarrow> string \<Rightarrow> 'a tui_scheme \<Rightarrow> 'a tui_scheme exec" where
  "ostream_str buf lhs s = seq (io_printf buf ''%s'' [VaStr lhs] s) (\<lambda>(_, s). ret s)"

definition ostream_manip :: "('a tui_scheme \<Rightarrow> 'a tui_scheme exec) \<Rightarrow> 'a tui_scheme \<Rightarrow> 'a tui_scheme exec" where
  "ostream_manip manip s = manip s"

definition endl :: "addr \<Rightarrow> 'a tui_scheme \<Rightarrow> 'a tui_scheme exec" where
  "endl buf s = ostream_char buf CHR 0x0A s"

end
