(* ===== verification/Pmm.thy ===== *)
theory Pmm
  imports Multiboot2 Firstfit Io
begin

text \<open>
  The physical memory manager: \<open>src/libk/src/pmm.cpp\<close> with \<open>pmm.h\<close>. The members of its only object and the two
  static allocators it creates on its first initialisation are the fields of the record \<open>pmm\<close>; the
  pointers \<open>kernel_space_allocator\<close> and \<open>allocator\<close> are null until then. What the linker and the compiler
  decide is the record \<open>image\<close>: the start and the end of the kernel, the address of the array \<open>buf\<close>, and
  the string \<open>__FILE__\<close> stands for.
\<close>

section \<open>State\<close>

record image =
  executable_start :: u64
  image_end :: u64
  image_buf :: addr
  pmm_file :: string

record pmm = boot +
  pmm_start :: u64
  pmm_length :: u64
  total_pages :: u64
  kernel_space_start :: u64
  kernel_space_length :: u64
  non_kernel_space_start :: u64
  non_kernel_space_length :: u64
  kernel_space_allocator :: "FIRSTFIT option"
  pmm_allocator :: "FIRSTFIT option"

text \<open>Static storage before its constructor runs.\<close>

definition static_storage :: FIRSTFIT where
  "static_storage = \<lparr>tag = '''', allocator_start_addr = 0, allocator_length = 0,
     allocator_free_count = 0, allocator_used_count = 0, bitmap = replicate 512 0\<rparr>"

text \<open>\<open>assert\<close> reports a failure and goes on.\<close>

definition assert_failed :: "'b image_scheme \<Rightarrow> u64 \<Rightarrow> string \<Rightarrow> 'a tui_scheme \<Rightarrow> 'a tui_scheme exec" where
  "assert_failed im line e s =
     seq (io_err (image_buf im) ''%s:%d: failed assertion `%s'\<newline>'' [VaStr (pmm_file im), VaWord line, VaStr e] s)
       (\<lambda>(_, s). ret s)"

text \<open>A virtual call through one of the two pointers.\<close>

definition deref :: "'b option \<Rightarrow> 'b exec" where
  "deref p = (case p of None \<Rightarrow> fail Null_pointer | Some x \<Rightarrow> ret x)"

section \<open>Allocation\<close>

definition alloc_pages :: "'a pmm_scheme \<Rightarrow> u64 \<Rightarrow> (addr \<times> 'a pmm_scheme) exec" where
  "alloc_pages s len =
     seq (deref (pmm_allocator s)) (\<lambda>ff.
     seq (ff_alloc ff len) (\<lambda>(a, ff). ret (a, s\<lparr>pmm_allocator := Some ff\<rparr>)))"

definition alloc_page :: "'a pmm_scheme \<Rightarrow> (addr \<times> 'a pmm_scheme) exec" where
  "alloc_page s =
     seq (deref (pmm_allocator s)) (\<lambda>ff.
     seq (ff_alloc ff 1) (\<lambda>(a, ff). ret (a, s\<lparr>pmm_allocator := Some ff\<rparr>)))"

definition alloc_pages_at :: "'a pmm_scheme \<Rightarrow> addr \<Rightarrow> u64 \<Rightarrow> (bool \<times> 'a pmm_scheme) exec" where
  "alloc_pages_at s addr len =
     seq (deref (pmm_allocator s)) (\<lambda>ff.
     seq (ff_alloc_at ff addr len) (\<lambda>(b, ff). ret (b, s\<lparr>pmm_allocator := Some ff\<rparr>)))"

definition alloc_pages_kernel :: "'a pmm_scheme \<Rightarrow> u64 \<Rightarrow> (addr \<times> 'a pmm_scheme) exec" where
  "alloc_pages_kernel s len =
     seq (deref (kernel_space_allocator s)) (\<lambda>ff.
     seq (ff_alloc ff len) (\<lambda>(a, ff). ret (a, s\<lparr>kernel_space_allocator := Some ff\<rparr>)))"

definition alloc_page_kernel :: "'a pmm_scheme \<Rightarrow> (addr \<times> 'a pmm_scheme) exec" where
  "alloc_page_kernel s =
     seq (deref (kernel_space_allocator s)) (\<lambda>ff.
     seq (ff_alloc ff 1) (\<lambda>(a, ff). ret (a, s\<lparr>kernel_space_allocator := Some ff\<rparr>)))"

definition alloc_pages_kernel_at :: "'a pmm_scheme \<Rightarrow> addr \<Rightarrow> u64 \<Rightarrow> (bool \<times> 'a pmm_scheme) exec" where
  "alloc_pages_kernel_at s addr len =
     seq (deref (kernel_space_allocator s)) (\<lambda>ff.
     seq (ff_alloc_at ff addr len) (\<lambda>(b, ff). ret (b, s\<lparr>kernel_space_allocator := Some ff\<rparr>)))"

text \<open>The space an address belongs to decides which allocator gets the pages back.\<close>

definition in_kernel_space :: "addr \<Rightarrow> 'a pmm_scheme \<Rightarrow> bool" where
  "in_kernel_space addr s \<longleftrightarrow>
     addr \<ge> kernel_space_start s \<and> addr < kernel_space_start s + kernel_space_length s"

definition in_non_kernel_space :: "addr \<Rightarrow> 'a pmm_scheme \<Rightarrow> bool" where
  "in_non_kernel_space addr s \<longleftrightarrow>
     addr \<ge> non_kernel_space_start s \<and> addr < non_kernel_space_start s + non_kernel_space_length s"

definition free_page :: "'b image_scheme \<Rightarrow> 'a pmm_scheme \<Rightarrow> addr \<Rightarrow> 'a pmm_scheme exec" where
  "free_page im s addr =
     (if in_kernel_space addr s then
        seq (deref (kernel_space_allocator s)) (\<lambda>ff.
        seq (ff_free ff addr 1) (\<lambda>ff. ret (s\<lparr>kernel_space_allocator := Some ff\<rparr>)))
      else if in_non_kernel_space addr s then
        seq (deref (pmm_allocator s)) (\<lambda>ff.
        seq (ff_free ff addr 1) (\<lambda>ff. ret (s\<lparr>pmm_allocator := Some ff\<rparr>)))
      else assert_failed im 178 ''0'' s)"

definition free_pages :: "'b image_scheme \<Rightarrow> 'a pmm_scheme \<Rightarrow> addr \<Rightarrow> u64 \<Rightarrow> 'a pmm_scheme exec" where
  "free_pages im s addr len =
     (if in_kernel_space addr s then
        seq (deref (kernel_space_allocator s)) (\<lambda>ff.
        seq (ff_free ff addr len) (\<lambda>ff. ret (s\<lparr>kernel_space_allocator := Some ff\<rparr>)))
      else if in_non_kernel_space addr s then
        seq (deref (pmm_allocator s)) (\<lambda>ff.
        seq (ff_free ff addr len) (\<lambda>ff. ret (s\<lparr>pmm_allocator := Some ff\<rparr>)))
      else assert_failed im 197 ''0'' s)"

section \<open>Queries\<close>

definition get_pmm_length :: "'a pmm_scheme \<Rightarrow> u64" where
  "get_pmm_length s = pmm_length s"

definition get_kernel_space_start :: "'a pmm_scheme \<Rightarrow> u64" where
  "get_kernel_space_start s = kernel_space_start s"

definition get_kernel_space_length :: "'a pmm_scheme \<Rightarrow> u64" where
  "get_kernel_space_length s = kernel_space_length s"

definition get_non_kernel_space_start :: "'a pmm_scheme \<Rightarrow> u64" where
  "get_non_kernel_space_start s = non_kernel_space_start s"

definition get_non_kernel_space_length :: "'a pmm_scheme \<Rightarrow> u64" where
  "get_non_kernel_space_length s = non_kernel_space_length s"

definition get_used_pages_count :: "'a pmm_scheme \<Rightarrow> u64 exec" where
  "get_used_pages_count s =
     seq (deref (kernel_space_allocator s)) (\<lambda>k.
     seq (deref (pmm_allocator s)) (\<lambda>a. ret (ff_get_used_count k + ff_get_used_count a)))"

definition get_free_pages_count :: "'a pmm_scheme \<Rightarrow> u64 exec" where
  "get_free_pages_count s =
     seq (deref (kernel_space_allocator s)) (\<lambda>k.
     seq (deref (pmm_allocator s)) (\<lambda>a. ret (ff_get_free_count k + ff_get_free_count a)))"

section \<open>Initialisation\<close>

definition pages_of :: "u64 \<Rightarrow> u64" where
  "pages_of bytes = (if bytes mod PAGE_SIZE \<noteq> 0 then bytes div PAGE_SIZE + 1 else bytes div PAGE_SIZE)"

definition move_boot_info :: "'a pmm_scheme \<Rightarrow> 'a pmm_scheme exec" where
  "move_boot_info s =
     (let pages = pages_of (boot_info_size s) in
      seq (alloc_pages_kernel s pages) (\<lambda>(new_addr, s).
      let s = s\<lparr>ram := fst (memcpy (ram s) new_addr (boot_info_addr s) (pages * PAGE_SIZE)),
                boot_info_addr := new_addr\<rparr> in
      seq (BOOT_INFO_init s) (\<lambda>(_, s). ret s)))"

text \<open>The members, from the memory the boot loader found.\<close>

definition set_spaces :: "'b image_scheme \<Rightarrow> resource_t \<Rightarrow> 'a pmm_scheme \<Rightarrow> 'a pmm_scheme" where
  "set_spaces im mem_info s =
     s\<lparr>pmm_start := mem_addr mem_info, pmm_length := mem_len mem_info,
       total_pages := mem_len mem_info div PAGE_SIZE,
       kernel_space_start := executable_start im,
       kernel_space_length := ucast KERNEL_SPACE_SIZE,
       non_kernel_space_start := executable_start im + ucast KERNEL_SPACE_SIZE,
       non_kernel_space_length := mem_len mem_info - ucast KERNEL_SPACE_SIZE\<rparr>"

text \<open>A static object is constructed when control passes its declaration for the first time.\<close>

definition construct_once :: "FIRSTFIT option \<Rightarrow> string \<Rightarrow> u64 \<Rightarrow> u64 \<Rightarrow> 'a vga_scheme \<Rightarrow>
    (FIRSTFIT \<times> 'a vga_scheme) exec" where
  "construct_once p name start len s =
     (case p of None \<Rightarrow> ff_new s static_storage name start len | Some ff \<Rightarrow> ret (ff, s))"

definition make_allocators :: "'a pmm_scheme \<Rightarrow> 'a pmm_scheme exec" where
  "make_allocators s =
     seq (construct_once (kernel_space_allocator s) ''First Fit Allocator(kernel space)''
            (kernel_space_start s) (kernel_space_length s div PAGE_SIZE) s) (\<lambda>(ff, s).
     let s = s\<lparr>kernel_space_allocator := Some ff\<rparr> in
     seq (construct_once (pmm_allocator s) ''First Fit Allocator''
            (non_kernel_space_start s) (non_kernel_space_length s div PAGE_SIZE) s) (\<lambda>(ff, s).
     ret (s\<lparr>pmm_allocator := Some ff\<rparr>)))"

definition kernel_pages :: "'b image_scheme \<Rightarrow> u64" where
  "kernel_pages im = (ALIGN (image_end im) PAGE_SIZE - ALIGN (executable_start im) PAGE_SIZE) div PAGE_SIZE"

definition PMM_init :: "'b image_scheme \<Rightarrow> 'a pmm_scheme \<Rightarrow> (bool \<times> 'a pmm_scheme) exec" where
  "PMM_init im s =
     seq (BOOT_INFO_get_memory s) (\<lambda>(mem_info, s).
     if mem_len mem_info = 0 then
       seq (vga_printf s ''PMM init: No memory available!\<newline>'' []) (\<lambda>s. ret (False, s))
     else
       seq (make_allocators (set_spaces im mem_info s)) (\<lambda>s.
       seq (alloc_pages_kernel_at s (executable_start im) (kernel_pages im)) (\<lambda>(ok, s).
       if ok then
         seq (move_boot_info s) (\<lambda>s.
         seq (vga_printf s ''pmm init done.\<newline>'' []) (\<lambda>s. ret (True, s)))
       else seq (assert_failed im 86 ''0'' s) (\<lambda>s. ret (False, s)))))"

end
