(* ===== verification/Interrupts.thy ===== *)
theory Interrupts
  imports Pmm
begin

text \<open>
  Interrupts: the class \<open>INTERRUPTS\<close> of \<open>src/platform/x86_64/src/intr.cpp\<close> with \<open>intr.h\<close>, the constants it takes
  from \<open>gdt.h\<close> and \<open>cpu.h\<close>, the routine \<open>idt_load\<close> of \<open>idt.S\<close> it calls, and the timer of \<open>timer.cpp\<close>.
  The static arrays of the class, the tick counter and the registers of the CPU that the code sets are
  the fields of the record \<open>intr\<close>; the descriptor \<open>idtr\<close> lies in memory, where \<open>idt_load\<close> reads it. The addresses the linker
  gives to the table, to the descriptor and to the assembly stubs are the record \<open>machine_image\<close>.
\<close>

section \<open>Constants\<close>

definition PIC_EOI :: u8 where "PIC_EOI = 0x20"
definition PIC1_COMMAND :: u16 where "PIC1_COMMAND = 0x20"
definition PIC1_DATA :: u16 where "PIC1_DATA = 0x21"
definition PIC2_COMMAND :: u16 where "PIC2_COMMAND = 0xA0"
definition PIC2_DATA :: u16 where "PIC2_DATA = 0xA1"
definition IRQ0 :: u8 where "IRQ0 = 32"
definition INTERRUPT_MAX :: nat where "INTERRUPT_MAX = 32"
definition EXCP_MAX :: nat where "EXCP_MAX = 256"
definition TYPE_SYSTEM_64_INTERRUPT_GATE :: u8 where "TYPE_SYSTEM_64_INTERRUPT_GATE = 0x0E"
definition SEGMENT_PRESENT :: u8 where "SEGMENT_PRESENT = 1"
definition DPL0 :: u8 where "DPL0 = 0"

section \<open>State\<close>

record idt_entry_t =
  offset_low :: u16
  selector :: u16
  gate_ist :: "3 word"
  gate_zero0 :: "5 word"
  gate_type :: "4 word"
  gate_zero1 :: "1 word"
  gate_dpl :: "2 word"
  gate_p :: "1 word"
  offset_mid :: u16
  offset_high :: u32
  gate_reserved :: u32

definition zero_entry :: idt_entry_t where
  "zero_entry = \<lparr>offset_low = 0, selector = 0, gate_ist = 0, gate_zero0 = 0, gate_type = 0, gate_zero1 = 0,
     gate_dpl = 0, gate_p = 0, offset_mid = 0, offset_high = 0, gate_reserved = 0\<rparr>"

text \<open>The functions whose addresses the code registers as handlers.\<close>

datatype intr_handler_t = Handler_default | Timer_intr

record machine_image = image +
  idt_address :: u64
  idtr_address :: u64
  isr_stub :: "nat \<Rightarrow> u64"
  irq_stub :: "nat \<Rightarrow> u64"

record intr = pmm +
  idt :: "idt_entry_t list"
  interrupt_handlers :: "intr_handler_t option list"
  cpu_idt_limit :: u16
  cpu_idt_base :: u64
  cpu_rflags :: u64
  g_ticks :: u64

text \<open>The empty loop without an exit, \<open>while (1);\<close>.\<close>

partial_function (option) forever :: "'s \<Rightarrow> 'a exec" where
  "forever s = forever s"

section \<open>The interrupt controller\<close>

definition pic_init :: "'a machine_scheme \<Rightarrow> 'a machine_scheme" where
  "pic_init s =
     (let s = port_outb s (ucast PIC1_COMMAND) 0x11; s = port_outb s (ucast PIC2_COMMAND) 0x11;
          s = port_outb s (ucast PIC1_DATA) 0x20; s = port_outb s (ucast PIC2_DATA) 0x28;
          s = port_outb s (ucast PIC1_DATA) 0x04; s = port_outb s (ucast PIC2_DATA) 0x02;
          s = port_outb s (ucast PIC1_DATA) 0x01; s = port_outb s (ucast PIC2_DATA) 0x01;
          s = port_outb s (ucast PIC1_DATA) 0xFF
      in port_outb s (ucast PIC2_DATA) 0xFF)"

text \<open>\<open>1 << irq_num\<close> is a shift of an \<open>int\<close>.\<close>

definition enable_irq :: "u8 \<Rightarrow> 'a machine_scheme \<Rightarrow> 'a machine_scheme exec" where
  "enable_irq irq_num s =
     (let irq_num = irq_num - 32;
          (port, irq_num) = (if irq_num \<ge> 8 then (PIC2_DATA, irq_num - 8) else (PIC1_DATA, irq_num));
          (mask, s) = port_inb s (ucast port)
      in if irq_num \<ge> 32 then fail Invalid_shift
         else ret (port_outb s (ucast port) (mask AND ucast (NOT (push_bit (unat irq_num) (1 :: u32))))))"

definition send_eoi :: "u8 \<Rightarrow> 'a machine_scheme \<Rightarrow> 'a machine_scheme" where
  "send_eoi irq_num s =
     (let s = (if irq_num \<ge> 8 then port_outb s (ucast PIC2_COMMAND) PIC_EOI else s)
      in port_outb s (ucast PIC1_COMMAND) PIC_EOI)"

text \<open>The interrupt flag is bit 9 of \<open>RFLAGS\<close>.\<close>

definition intr_enable :: "'a intr_scheme \<Rightarrow> 'a intr_scheme" where
  "intr_enable s = s\<lparr>cpu_rflags := cpu_rflags s OR 0x200\<rparr>"

definition intr_disable :: "'a intr_scheme \<Rightarrow> 'a intr_scheme" where
  "intr_disable s = s\<lparr>cpu_rflags := cpu_rflags s AND NOT 0x200\<rparr>"

section \<open>The interrupt descriptor table\<close>

definition make_idt_entry :: "u8 \<Rightarrow> u64 \<Rightarrow> u8 \<Rightarrow> u8 \<Rightarrow> u8 \<Rightarrow> 'a intr_scheme \<Rightarrow> 'a intr_scheme" where
  "make_idt_entry vec handler type dpl p s =
     s\<lparr>idt := (idt s)[unat vec :=
       \<lparr>offset_low = ucast (handler AND 0xFFFF), selector = 0x08, gate_ist = 0, gate_zero0 = 0,
        gate_type = ucast type, gate_zero1 = 0, gate_dpl = ucast dpl, gate_p = ucast p,
        offset_mid = ucast (drop_bit 16 handler AND 0xFFFF),
        offset_high = ucast (drop_bit 32 handler AND 0xFFFFFFFF), gate_reserved = 0\<rparr>]\<rparr>"

definition register_intr_handler :: "u8 \<Rightarrow> intr_handler_t \<Rightarrow> 'a intr_scheme \<Rightarrow> 'a intr_scheme" where
  "register_intr_handler intr_num handler s =
     s\<lparr>interrupt_handlers := (interrupt_handlers s)[unat intr_num := Some handler]\<rparr>"

definition SET_EXCP :: "'b machine_image_scheme \<Rightarrow> nat \<Rightarrow> 'a intr_scheme \<Rightarrow> 'a intr_scheme" where
  "SET_EXCP mi n = make_idt_entry (of_nat n) (isr_stub mi n) TYPE_SYSTEM_64_INTERRUPT_GATE DPL0 SEGMENT_PRESENT"

definition SET_IRQ :: "'b machine_image_scheme \<Rightarrow> nat \<Rightarrow> 'a intr_scheme \<Rightarrow> 'a intr_scheme" where
  "SET_IRQ mi i = make_idt_entry (32 + of_nat i) (irq_stub mi i) TYPE_SYSTEM_64_INTERRUPT_GATE DPL0 SEGMENT_PRESENT"

definition fill_idt :: "'b machine_image_scheme \<Rightarrow> 'a intr_scheme \<Rightarrow> 'a intr_scheme" where
  "fill_idt mi s =
     (let s = s\<lparr>idt := replicate EXCP_MAX zero_entry\<rparr>;
          s = fold (SET_EXCP mi) [0..<21] s
      in fold (SET_IRQ mi) [0..<16] s)"

text \<open>\<open>idt_load\<close> reads a limit of 16 bits and a base of 64 bits from the descriptor.\<close>

definition idt_load :: "u64 \<Rightarrow> 'a intr_scheme \<Rightarrow> u64 \<times> 'a intr_scheme" where
  "idt_load rdi s =
     (if rdi = 0 then (- 1, s)
      else if load16 (ram s) rdi < 7 then (- 1, s)
      else if read64 (ram s) (rdi + 2) AND 0xF \<noteq> 0 then (- 1, s)
      else (0, s\<lparr>cpu_idt_limit := load16 (ram s) rdi, cpu_idt_base := read64 (ram s) (rdi + 2)\<rparr>))"

text \<open>The descriptor as the class declares it: \<open>uint16_t limit\<close> and \<open>uint32_t base\<close>, packed.\<close>

definition set_idtr :: "u64 \<Rightarrow> u32 \<Rightarrow> u16 \<Rightarrow> 'a machine_scheme \<Rightarrow> 'a machine_scheme" where
  "set_idtr a base limit s =
     (let s = s\<lparr>ram := store_bytes (ram s) (a + 2) (le_bytes 4 (unat base))\<rparr>
      in s\<lparr>ram := store16 (ram s) a limit\<rparr>)"

definition INTERRUPTS_init :: "'b machine_image_scheme \<Rightarrow> 'a intr_scheme \<Rightarrow> (bool \<times> 'a intr_scheme) exec" where
  "INTERRUPTS_init mi s =
     (if idt_address mi AND 0xF \<noteq> 0 then ret (False, s)
      else if idt_address mi < 0x100000 \<or> idt_address mi > 0xFFFFFFFFFFFF then ret (False, s)
      else
        let s = fill_idt mi s;
            s = fold (\<lambda>i. register_intr_handler (of_nat i) Handler_default) [0..<INTERRUPT_MAX] s;
            s = set_idtr (idtr_address mi) (ucast (idt_address mi)) (of_nat (16 * EXCP_MAX - 1)) s;
            (r, s) = idt_load (idtr_address mi) s
        in if r \<noteq> 0 then seq (io_err (image_buf mi) ''Failed to load IDT\<newline>'' [] s) (\<lambda>(_, s). ret (False, s))
           else ret (True, pic_init s))"

section \<open>The timer\<close>

definition init_pit :: "u32 \<Rightarrow> 'a machine_scheme \<Rightarrow> 'a machine_scheme exec" where
  "init_pit hz s =
     (if hz = 0 then fail Division_by_zero
      else let d = 1193180 div hz;
               s = port_outb s 0x43 0x36;
               s = port_outb s 0x40 (ucast (d AND 0xFF))
           in ret (port_outb s 0x40 (ucast (drop_bit 8 d AND 0xFF))))"

definition timer_intr :: "'b image_scheme \<Rightarrow> 'a intr_scheme \<Rightarrow> 'a intr_scheme exec" where
  "timer_intr im s =
     (let s = s\<lparr>g_ticks := g_ticks s + 1\<rparr>;
          s = send_eoi IRQ0 s
      in if g_ticks s mod 1000 = 0
         then seq (io_info (image_buf im) ''1 second tick\<newline>'' [] s) (\<lambda>(_, s). ret s)
         else ret s)"

definition TIMER_init :: "'b image_scheme \<Rightarrow> 'a intr_scheme \<Rightarrow> (bool \<times> 'a intr_scheme) exec" where
  "TIMER_init im s =
     seq (init_pit 1000 s) (\<lambda>s.
     let s = register_intr_handler IRQ0 Timer_intr s in
     seq (enable_irq IRQ0 s) (\<lambda>s.
     let s = intr_enable s; rflags = cpu_rflags s in
     seq (io_info (image_buf im) ''EFLAGS: 0x%lx, IF=%d\<newline>''
            [VaWord rflags, VaWord (if rflags AND 0x200 \<noteq> 0 then 1 else 0)] s) (\<lambda>(_, s).
     ret (True, s))))"

section \<open>Dispatch\<close>

definition handler_default :: "'b image_scheme \<Rightarrow> u8 \<Rightarrow> 'a intr_scheme \<Rightarrow> 'a intr_scheme exec" where
  "handler_default im intr_num s =
     seq (io_info (image_buf im) ''Unhandled interrupt %d!'' [VaWord (ucast intr_num)] s) (\<lambda>(_, s). forever s)"

text \<open>The call through the pointer in the table. Neither handler looks at the context.\<close>

definition call_handler :: "'b image_scheme \<Rightarrow> intr_handler_t \<Rightarrow> u8 \<Rightarrow> addr \<Rightarrow> 'a intr_scheme \<Rightarrow> 'a intr_scheme exec" where
  "call_handler im h no ctxt s =
     (case h of Handler_default \<Rightarrow> handler_default im no s | Timer_intr \<Rightarrow> timer_intr im s)"

definition call_isr :: "'b image_scheme \<Rightarrow> u8 \<Rightarrow> addr \<Rightarrow> 'a intr_scheme \<Rightarrow> (u32 \<times> 'a intr_scheme) exec" where
  "call_isr im no ctxt s =
     (case (if unat no < EXCP_MAX then interrupt_handlers s ! unat no else None) of
        Some h \<Rightarrow> seq (call_handler im h no ctxt s) (\<lambda>s. ret (0, s))
      | None \<Rightarrow> ret (- 1, s))"

definition call_irq :: "'b image_scheme \<Rightarrow> u8 \<Rightarrow> addr \<Rightarrow> 'a intr_scheme \<Rightarrow> (u32 \<times> 'a intr_scheme) exec" where
  "call_irq im no ctxt s =
     (case (if unat no < EXCP_MAX then interrupt_handlers s ! unat no else None) of
        Some h \<Rightarrow> seq (call_handler im h no ctxt s) (\<lambda>s. ret (0, s))
      | None \<Rightarrow> ret (- 1, s))"

definition isr_handler :: "'b image_scheme \<Rightarrow> u8 \<Rightarrow> addr \<Rightarrow> u64 \<Rightarrow> 'a intr_scheme \<Rightarrow> 'a intr_scheme exec" where
  "isr_handler im irq_num ctxt err_code s = seq (call_isr im irq_num ctxt s) (\<lambda>(_, s). ret s)"

definition irq_handler :: "'b image_scheme \<Rightarrow> u8 \<Rightarrow> addr \<Rightarrow> 'a intr_scheme \<Rightarrow> 'a intr_scheme exec" where
  "irq_handler im irq_num ctxt s = seq (call_irq im irq_num ctxt s) (\<lambda>(_, s). ret s)"

definition isr_default_handler :: "addr \<Rightarrow> 'a intr_scheme \<Rightarrow> 'a intr_scheme exec" where
  "isr_default_handler ctxt s = forever s"

end
