(* ===== verification/Kernel.thy ===== *)
theory Kernel
  imports Interrupts
begin

text \<open>
  The kernel proper, \<open>src/kernel/kernel_main.cpp\<close>: the test of the debug console, the start of the subsystems in
  order, each failure of which stops the CPU, and the halt. \<open>CPU::halt\<close> of \<open>cpu.h\<close> never returns.
\<close>

text \<open>The instruction \<open>hlt\<close> waits for an interrupt and changes nothing itself.\<close>

definition hlt :: "'s \<Rightarrow> 's" where
  "hlt s = s"

partial_function (option) halt :: "'s \<Rightarrow> 'a exec" where
  "halt s = halt (hlt s)"

definition test_vga :: "'a vga_scheme \<Rightarrow> 'a vga_scheme exec" where
  "test_vga s =
     (let s = vga_init s; s = vga_setcolor s VGA_WHITE in vga_printf s ''Hello from CKERNEL!!\<newline>'' [])"

definition start_boot_info :: "'a boot_scheme \<Rightarrow> 'a boot_scheme exec" where
  "start_boot_info s =
     seq (BOOT_INFO_init s) (\<lambda>(ok, s).
     if \<not> ok then seq (vga_printf s ''main:Failed to initialize boot info!\<newline>'' []) halt else ret s)"

definition start_pmm :: "'b image_scheme \<Rightarrow> 'a pmm_scheme \<Rightarrow> 'a pmm_scheme exec" where
  "start_pmm im s =
     seq (PMM_init im s) (\<lambda>(ok, s).
     if \<not> ok then seq (vga_printf s ''main:Failed to initialize PMM!\<newline>'' []) halt else ret s)"

definition start_interrupts :: "'b machine_image_scheme \<Rightarrow> 'a intr_scheme \<Rightarrow> 'a intr_scheme exec" where
  "start_interrupts mi s =
     seq (INTERRUPTS_init mi s) (\<lambda>(ok, s).
     if \<not> ok then seq (io_err (image_buf mi) ''main:Failed to initialize interrupts!\<newline>'' [] s) (\<lambda>(_, s). halt s)
     else seq (io_info (image_buf mi) ''Initialized successfully:interrupts\<newline>'' [] s) (\<lambda>(_, s). ret s))"

definition start_timer :: "'b image_scheme \<Rightarrow> 'a intr_scheme \<Rightarrow> 'a intr_scheme exec" where
  "start_timer im s =
     seq (TIMER_init im s) (\<lambda>(ok, s).
     if \<not> ok then seq (io_err (image_buf im) ''main:Failed to initialize time!\<newline>'' [] s) (\<lambda>(_, s). halt s)
     else seq (io_info (image_buf im) ''Initialized successfully:timer\<newline>'' [] s) (\<lambda>(_, s). ret s))"

definition test :: "'b machine_image_scheme \<Rightarrow> 'a intr_scheme \<Rightarrow> 'a intr_scheme exec" where
  "test mi s =
     seq (start_boot_info s) (\<lambda>s.
     seq (start_pmm mi s) (\<lambda>s.
     let s = vga_init s in
     seq (io_info (image_buf mi) ''Initialized successfully:pmm\<newline>'' [] s) (\<lambda>(_, s).
     seq (start_interrupts mi s) (\<lambda>s.
     start_timer mi s))))"

definition kernel_main :: "'b machine_image_scheme \<Rightarrow> 'a intr_scheme \<Rightarrow> unit exec" where
  "kernel_main mi s = seq (test_vga s) (\<lambda>s. seq (test mi s) halt)"

end
