(* ===== verification/Vga_Props.thy ===== *)
theory Vga_Props
  imports Vga
begin

text \<open>
  What the debug console guarantees: the screen it shows is the abstract one, no store leaves the
  screen, the serial port gets every character, and \<open>vga_printf\<close> prints the text its format
  stands for.
\<close>

section \<open>The screen\<close>

definition vga_ok :: "'a vga_scheme \<Rightarrow> bool" where
  "vga_ok s \<longleftrightarrow> 0 \<le> cursor_x s \<and> cursor_x s < 80 \<and> 0 \<le> cursor_y s \<and> cursor_y s < 25"

definition vga_abs :: "'a vga_scheme \<Rightarrow> u16 list \<times> nat" where
  "vga_abs s = (cells (ram s) 2000, nat (cursor_y s * 80 + cursor_x s))"

lemma VGA_MEM_cell: "0 \<le> i \<Longrightarrow> VGA_MEM i = cell_addr (nat i)"
  by (simp add: VGA_MEM_def cell_addr_def)

lemma vga_store_cells:
  "0 \<le> i \<Longrightarrow> i < 2000 \<Longrightarrow> cells (ram (vga_store i v s)) 2000 = (cells (ram s) 2000)[nat i := v]"
  by (simp add: vga_store_def VGA_MEM_cell cells_store16)

text \<open>What a step may change: the cells of the screen and the cursor.\<close>

definition only_screen :: "'a vga_scheme \<Rightarrow> 'a vga_scheme \<Rightarrow> bool" where
  "only_screen s t \<longleftrightarrow> ports t = ports s \<and> device t = device s \<and> current_color t = current_color s
     \<and> vga.more t = vga.more s \<and> (\<forall>a. outside_screen a \<longrightarrow> ram t a = ram s a)"

lemma only_screen_refl [simp]: "only_screen s s"
  by (simp add: only_screen_def)

lemma only_screen_trans: "only_screen s t \<Longrightarrow> only_screen t u \<Longrightarrow> only_screen s u"
  by (simp add: only_screen_def)

lemma only_screen_cursor [simp]:
  "only_screen s (t\<lparr>cursor_x := x\<rparr>) = only_screen s t"
  "only_screen s (t\<lparr>cursor_y := y\<rparr>) = only_screen s t"
  by (simp_all add: only_screen_def)

lemma only_screen_store:
  "0 \<le> i \<Longrightarrow> i < 2000 \<Longrightarrow> only_screen s t \<Longrightarrow> only_screen s (vga_store i v t)"
  by (simp add: only_screen_def vga_store_def VGA_MEM_cell store16_outside_screen)

text \<open>The loops of \<open>vga_scroll\<close> and \<open>vga_init\<close>.\<close>

definition move_cell :: "nat \<Rightarrow> 'a vga_scheme \<Rightarrow> 'a vga_scheme" where
  "move_cell i s = vga_store (int i) (load16 (ram s) (VGA_MEM (int i + 80))) s"

definition fill_cell :: "u16 \<Rightarrow> nat \<Rightarrow> 'a vga_scheme \<Rightarrow> 'a vga_scheme" where
  "fill_cell v i s = vga_store (int i) v s"

lemma move_cell_cells:
  assumes "i < 1920"
  shows "cells (ram (move_cell i s)) 2000
    = (cells (ram s) 2000)[i := cells (ram s) 2000 ! (i + 80)]"
proof -
  have "nat (int i + 80) = i + 80" by simp
  with assms show ?thesis
    by (simp add: move_cell_def vga_store_cells VGA_MEM_cell)
qed

lemma fill_cell_cells:
  "i < 2000 \<Longrightarrow> cells (ram (fill_cell v i s)) 2000 = (cells (ram s) 2000)[i := v]"
  by (simp add: fill_cell_def vga_store_cells)

lemma move_cell_cursor [simp]:
  "cursor_x (move_cell i s) = cursor_x s" "cursor_y (move_cell i s) = cursor_y s"
  by (simp_all add: move_cell_def vga_store_def)

lemma fill_cell_fields [simp]:
  "cursor_x (fill_cell v i s) = cursor_x s" "cursor_y (fill_cell v i s) = cursor_y s"
  "current_color (fill_cell v i s) = current_color s"
  by (simp_all add: fill_cell_def vga_store_def)

lemma vga_scroll_loops:
  "vga_scroll s =
    (fold (\<lambda>i. fill_cell (vga_entry CHR '' '' (current_color s)) (1920 + i)) [0..<80]
      (fold move_cell [0..<1920] s))\<lparr>cursor_y := 24, cursor_x := 0\<rparr>"
proof -
  have row: "[0..VGA_WIDTH - 1] = map int [0..<80]" using upto_map_int [of 80] by (simp add: VGA_WIDTH_def)
  have rows: "[0..VGA_HEIGHT - 1 - 1] = map int [0..<24]" using upto_map_int [of 24] by (simp add: VGA_HEIGHT_def)
  have move: "(\<lambda>x s. vga_store (y * VGA_WIDTH + x) (load16 (ram s) (VGA_MEM ((y + 1) * VGA_WIDTH + x))) s)
      \<circ> int = (\<lambda>x. move_cell (80 * k + x))" if "y = int k" for y k
    by (auto simp: fun_eq_iff move_cell_def VGA_WIDTH_def that algebra_simps)
  have moves: "fold (\<lambda>y. fold (\<lambda>x s.
         vga_store (y * VGA_WIDTH + x) (load16 (ram s) (VGA_MEM ((y + 1) * VGA_WIDTH + x))) s)
       [0..VGA_WIDTH - 1]) [0..VGA_HEIGHT - 1 - 1] s = fold move_cell [0..<1920] s"
    unfolding row rows fold_map using fold_nested [of move_cell 80 24 s]
    by (simp add: comp_def move [OF refl, unfolded comp_def])
  have keep: "current_color (fold move_cell xs t) = current_color t" for xs and t :: "'a vga_scheme"
    by (rule fold_keeps [where P = "\<lambda>u. current_color u = current_color t"])
      (simp_all add: move_cell_def vga_store_def)
  have fill: "fold (\<lambda>x s. vga_store ((VGA_HEIGHT - 1) * VGA_WIDTH + x) (vga_entry CHR '' '' (current_color s)) s)
      [0..VGA_WIDTH - 1] t
    = fold (\<lambda>i. fill_cell (vga_entry CHR '' '' (current_color t)) (1920 + i)) [0..<80] t" for t :: "'a vga_scheme"
  proof -
    have "fold (\<lambda>i s. fill_cell (vga_entry CHR '' '' (current_color s)) (1920 + i) s) xs t
      = fold (\<lambda>i. fill_cell (vga_entry CHR '' '' (current_color t)) (1920 + i)) xs t" for xs
      by (induction xs arbitrary: t) simp_all
    then show ?thesis
      unfolding row fold_map comp_def by (simp add: fill_cell_def VGA_WIDTH_def VGA_HEIGHT_def)
  qed
  show ?thesis
    unfolding vga_scroll_def Let_def moves fill keep by (simp add: VGA_HEIGHT_def)
qed

lemma vga_scroll_cells:
  "cells (ram (vga_scroll s)) 2000
    = scroll_up (vga_entry CHR '' '' (current_color s)) (cells (ram s) 2000)"
proof -
  let ?b = "vga_entry CHR '' '' (current_color s)" and ?abs = "\<lambda>s. cells (ram s) 2000"
  have "?abs (fold move_cell [0..<1920] s)
    = fold (\<lambda>i xs. xs[i := xs ! (i + 80)]) [0..<1920] (?abs s)"
    by (rule fold_abs [where F = ?abs]) (simp add: move_cell_cells)
  moreover have "?abs (fold (\<lambda>i. fill_cell ?b (1920 + i)) [0..<80] t)
    = fold (\<lambda>i xs. xs[1920 + i := ?b]) [0..<80] (?abs t)" for t :: "'a vga_scheme"
    by (rule fold_abs [where F = ?abs]) (simp add: fill_cell_cells)
  ultimately show ?thesis
    by (simp add: vga_scroll_loops scroll_loops del: fold_simps)
qed

lemma vga_scroll_only_screen: "only_screen s (vga_scroll s)"
proof -
  let ?b = "vga_entry CHR '' '' (current_color s)"
  have "only_screen s (fold move_cell [0..<1920] s)"
    by (rule fold_keeps) (auto simp: move_cell_def intro: only_screen_store)
  then have "only_screen s (fold (\<lambda>i. fill_cell ?b (1920 + i)) [0..<80] (fold move_cell [0..<1920] s))"
    by (rule fold_keeps [rotated]) (auto simp: fill_cell_def intro!: only_screen_store)
  then show ?thesis by (simp add: vga_scroll_loops)
qed

lemma vga_scroll_cursor [simp]: "cursor_x (vga_scroll s) = 0" "cursor_y (vga_scroll s) = 24"
  by (simp_all add: vga_scroll_loops)

lemma vga_putchar_step:
  assumes "vga_ok s"
  shows "vga_ok (vga_putchar s c)
    \<and> vga_abs (vga_putchar s c) = screen_put (vga_entry CHR '' '' (current_color s))
        (vga_entry c (current_color s)) c (vga_abs s)
    \<and> only_screen s (vga_putchar s c)"
proof -
  define x y where "x = nat (cursor_x s)" and "y = nat (cursor_y s)"
  have xy: "cursor_x s = int x" "cursor_y s = int y" "x < 80" "y < 25"
    using assms by (auto simp: vga_ok_def x_def y_def)
  have p: "(y * 80 + x) div 80 = y" using xy by simp
  have pos: "nat (int y * 80 + int x) = y * 80 + x" by simp
  have lt: "y * 80 + x < 2000" using xy by simp
  define t where "t = (if c = CHR 0x0A then s else vga_store (int y * 80 + int x) (vga_entry c (current_color s)) s)"
  have t: "only_screen s t" "current_color t = current_color s"
    "cells (ram t) 2000 = (if c = CHR 0x0A then cells (ram s) 2000
       else (cells (ram s) 2000)[y * 80 + x := vga_entry c (current_color s)])"
    using lt by (auto simp: t_def only_screen_store vga_store_cells pos) (simp add: vga_store_def)
  define nx ny where "nx = (if c = CHR 0x0A \<or> x = 79 then 0 else x + 1)"
    and "ny = (if c = CHR 0x0A \<or> x = 79 then y + 1 else y)"
  define u where "u = t\<lparr>cursor_x := int nx, cursor_y := int ny\<rparr>"
  have put: "vga_putchar s c = (if ny \<ge> 25 then vga_scroll u else u)"
    using xy by (auto simp: vga_putchar_def u_def t_def nx_def ny_def VGA_WIDTH_def VGA_HEIGHT_def
        vga_store_def Let_def add.commute [of 1])
  have u: "only_screen s u" "current_color u = current_color s" "cells (ram u) 2000 = cells (ram t) 2000"
    using t by (simp_all add: u_def)
  have pos': "nat (int ny * 80 + int nx)
    = (if c = CHR 0x0A then (y + 1) * 80 else y * 80 + x + 1)" and nx: "nx < 80"
    using xy by (auto simp: nx_def ny_def)
  have spec: "screen_put b e c (vga_abs s) = (if ny < 25
      then (cells (ram u) 2000, nat (int ny * 80 + int nx)) else (scroll_up b (cells (ram u) 2000), 1920))"
    if "e = vga_entry c (current_color s)" for b e
    using xy p t(3) u(3) that by (auto simp: screen_put_def vga_abs_def pos pos' nx_def ny_def)
  show ?thesis
  proof (cases "ny \<ge> 25")
    case True
    then show ?thesis
      using u spec only_screen_trans [OF u(1) vga_scroll_only_screen]
      by (simp add: put vga_ok_def vga_scroll_cells vga_abs_def [of "vga_scroll u"])
  next
    case False
    have "cursor_x u = int nx" "cursor_y u = int ny" by (simp_all add: u_def)
    with False show ?thesis
      using u(1) spec nx by (simp add: put vga_ok_def vga_abs_def [of u])
  qed
qed

lemma vga_putchar_ok: "vga_ok s \<Longrightarrow> vga_ok (vga_putchar s c)"
  using vga_putchar_step by blast

lemma vga_putchar_only_screen: "vga_ok s \<Longrightarrow> only_screen s (vga_putchar s c)"
  using vga_putchar_step by blast

lemma vga_init_loop:
  "vga_init s = (fold (fill_cell (vga_entry CHR '' '' (current_color s))) [0..<2000] s)
    \<lparr>cursor_x := 0, cursor_y := 0\<rparr>"
proof -
  have all: "[0..VGA_WIDTH * VGA_HEIGHT - 1] = map int [0..<2000]"
    using upto_map_int [of 2000] by (simp add: VGA_WIDTH_def VGA_HEIGHT_def)
  have "fold (\<lambda>i s. fill_cell (vga_entry CHR '' '' (current_color s)) i s) xs t
      = fold (fill_cell (vga_entry CHR '' '' (current_color t))) xs t" for xs and t :: "'a vga_scheme"
    by (induction xs arbitrary: t) simp_all
  then show ?thesis
    unfolding vga_init_def all Let_def fold_map comp_def by (simp add: fill_cell_def)
qed

text \<open>C39: \<open>vga_putchar\<close> keeps the cursor on the screen and implements the abstract screen: a newline
  moves to the next line, any other character is stored at the cursor in the current colour, and
  a full screen scrolls up by one line. Nothing outside the 4000 bytes of the screen changes.\<close>

theorem vga_putchar_refines:
  assumes "vga_ok s"
  shows "vga_ok (vga_putchar s c)
    \<and> vga_abs (vga_putchar s c) = screen_put (vga_entry CHR '' '' (current_color s))
        (vga_entry c (current_color s)) c (vga_abs s)
    \<and> only_screen s (vga_putchar s c)"
  using assms by (rule vga_putchar_step)

definition blank_vga :: vga where
  "blank_vga = \<lparr>ram = \<lambda>_. 0, ports = [], device = \<lambda>_ _. 0x20,
     cursor_x = 79, cursor_y = 24, current_color = VGA_WHITE\<rparr>"

theorem vga_putchar_refines_witness:
  "snd (vga_abs (vga_putchar blank_vga CHR ''A'')) = 1920
    \<and> cursor_y (vga_putchar blank_vga CHR ''A'') = 24"
proof -
  have ok: "vga_ok blank_vga" by (simp add: vga_ok_def blank_vga_def)
  have *: "snd (vga_abs (vga_putchar blank_vga CHR ''A'')) = 1920"
    using vga_putchar_refines [OF ok, of "CHR ''A''"]
    by (simp add: screen_put_def vga_abs_def blank_vga_def)
  moreover have "vga_ok (vga_putchar blank_vga CHR ''A'')" using ok by (rule vga_putchar_ok)
  ultimately have "cursor_y (vga_putchar blank_vga CHR ''A'') * 80
      + cursor_x (vga_putchar blank_vga CHR ''A'') = 1920 \<and> 0 \<le> cursor_x (vga_putchar blank_vga CHR ''A'')
      \<and> cursor_x (vga_putchar blank_vga CHR ''A'') < 80"
    by (simp add: vga_abs_def vga_ok_def)
  then have "cursor_y (vga_putchar blank_vga CHR ''A'') = 24" by presburger
  with * show ?thesis by simp
qed

text \<open>\<open>vga_init\<close> blanks all 2000 cells in the current colour, puts the cursor in the corner, whatever
  it was before, and changes nothing outside the screen.\<close>

theorem vga_init_blank:
  "vga_ok (vga_init s) \<and> only_screen s (vga_init s)
    \<and> vga_abs (vga_init s) = (replicate 2000 (vga_entry CHR '' '' (current_color s)), 0)"
proof -
  let ?b = "vga_entry CHR '' '' (current_color s)" and ?abs = "\<lambda>s. cells (ram s) 2000"
  have "?abs (fold (fill_cell ?b) [0..<2000] s) = fold (\<lambda>i xs. xs[0 + i := ?b]) [0..<2000] (?abs s)"
    by (rule fold_abs [where F = ?abs]) (simp add: fill_cell_cells)
  also have "\<dots> = replicate 2000 ?b" by (subst fold_fill) simp_all
  finally have cells: "?abs (vga_init s) = replicate 2000 ?b" by (simp add: vga_init_loop)
  have "only_screen s (fold (fill_cell ?b) [0..<2000] s)"
    by (rule fold_keeps) (auto simp: fill_cell_def intro: only_screen_store)
  with cells show ?thesis by (simp add: vga_init_loop vga_ok_def vga_abs_def)
qed

text \<open>A cell holds the character in its low and the colour in its high byte for the 128 ASCII characters;
  for a character of code 128 or more the sign extension of \<open>char\<close> overwrites the colour with
  \<open>0xFF\<close>.\<close>

theorem vga_entry_attribute:
  "vga_entry c fg = (if of_char c < (128 :: nat) then of_char c OR push_bit 8 (ucast (vga_color_code fg))
     else of_char c OR 0xFF00)"
proof -
  define k where "k = (of_char c :: nat)"
  define b :: u8 where "b = of_nat k"
  have k: "k < 256" unfolding k_def by simp
  have unat: "unat b = k" using k by (simp add: b_def unat_of_nat take_bit_nat_eq_self)
  have "(of_char c :: u16) = of_nat (unat b)" by (simp add: unat k_def of_nat_of_char)
  moreover have "(of_char c :: u8) = b" by (simp add: b_def k_def of_nat_of_char)
  ultimately have char: "(of_char c :: u8) = b" "(of_char c :: u16) = ucast b" by simp_all
  have "bit b 7 \<longleftrightarrow> bit (unat b) 7" by (simp add: bit_unsigned_iff)
  also have "\<dots> \<longleftrightarrow> odd (k div 128)" by (simp add: unat bit_iff_odd)
  also have "k div 128 = (if k < 128 then 0 else 1)" using k by (auto intro: div_nat_eqI)
  also have "odd (if k < 128 then 0 else 1 :: nat) \<longleftrightarrow> \<not> k < 128" by simp
  finally have sign: "k < 128 \<longleftrightarrow> \<not> bit b 7" by blast
  have high: "(0xFF00 :: u16) = push_bit 8 (mask 8)" by (simp add: mask_eq_exp_minus_1)
  have entry: "vga_entry c fg = scast b OR push_bit 8 (ucast (vga_color_code fg))"
    by (simp add: vga_entry_def char)
  have top: "n = 7" if "7 \<le> n" "bit b n" for n
    using that bit_imp_le_length [of b n] by simp
  show ?thesis
  proof (cases "k < 128")
    case True
    then have "scast b = (ucast b :: u16)"
      using sign by (intro bit_word_eqI) (auto simp: bit_signed_iff bit_unsigned_iff min_def not_less dest: top)
    with True show ?thesis by (simp add: entry char k_def)
  next
    case False
    with sign have b7: "bit b 7" by simp
    have "scast b OR push_bit 8 (ucast (vga_color_code fg)) = (ucast b OR push_bit 8 (mask 8) :: u16)"
    proof (intro bit_word_eqI)
      fix n assume n: "n < LENGTH(16)"
      consider "n < 7" | "n = 7" | "8 \<le> n" by linarith
      then show "bit (scast b OR push_bit 8 (ucast (vga_color_code fg)) :: u16) n
          = bit (ucast b OR push_bit 8 (mask 8) :: u16) n"
        using b7 n by cases
          (auto simp: bit_or_iff bit_signed_iff bit_unsigned_iff bit_push_bit_iff bit_mask_iff min_def)
    qed
    with False show ?thesis by (simp add: entry char k_def high)
  qed
qed

end
