(* ===== verification/Numerals.thy ===== *)
theory Numerals
  imports Main
begin

text \<open>
  The numerals the formatted outputs of the kernel are compared with: the digits of a number in a
  base from 2 to 16, most significant first, and the number a numeral denotes.
\<close>

definition digit_char :: "bool \<Rightarrow> nat \<Rightarrow> char" where
  "digit_char upper d = char_of (if d < 10 then 48 + d else (if upper then 55 + d else 87 + d))"

definition digit_value :: "char \<Rightarrow> nat" where
  "digit_value c = (let k = of_char c in if k < 58 then k - 48 else if k < 97 then k - 55 else k - 87)"

function num_string :: "bool \<Rightarrow> nat \<Rightarrow> nat \<Rightarrow> string" where
  "num_string u b n = (if b < 2 \<or> n < b then [digit_char u n]
     else num_string u b (n div b) @ [digit_char u (n mod b)])"
  by auto
termination
  by (relation "measure (\<lambda>(u, b, n). n)") auto

declare num_string.simps [simp del]

definition num_value :: "nat \<Rightarrow> string \<Rightarrow> nat" where
  "num_value b = foldl (\<lambda>a c. a * b + digit_value c) 0"

lemma of_char_digit_char: "d < 16 \<Longrightarrow> of_char (digit_char u d) = (if d < 10 then 48 + d else if u then 55 + d else 87 + d)"
  by (simp add: digit_char_def)

lemma digit_value_char: "d < 16 \<Longrightarrow> digit_value (digit_char u d) = d"
  by (auto simp: digit_value_def of_char_digit_char Let_def)

lemma num_value_string: "2 \<le> b \<Longrightarrow> b \<le> 16 \<Longrightarrow> num_value b (num_string u b n) = n"
proof (induction u b n rule: num_string.induct)
  case (1 u b n)
  then show ?case
    by (subst num_string.simps) (auto simp: num_value_def digit_value_char mod_less_divisor [THEN less_le_trans])
qed

lemma length_num_string:
  "2 \<le> b \<Longrightarrow> n < b ^ k \<Longrightarrow> 0 < k \<Longrightarrow> length (num_string u b n) \<le> k"
proof (induction u b n arbitrary: k rule: num_string.induct)
  case (1 u b n)
  show ?case
  proof (cases "n < b")
    case True
    with 1 show ?thesis by (subst num_string.simps) simp
  next
    case False
    with 1 obtain k' where k: "k = Suc k'" "0 < k'"
      by (metis One_nat_def Suc_lessI gr0_conv_Suc not0_implies_Suc power_one_right)
    have "n div b < b ^ k'" using 1(3) k by (simp add: less_mult_imp_div_less mult.commute)
    with 1 False k have "length (num_string u b (n div b)) \<le> k'" by auto
    with False k 1 show ?thesis by (subst num_string.simps) simp
  qed
qed

lemma num_string_nonempty [simp]: "num_string u b n \<noteq> []"
  by (subst num_string.simps) simp

text \<open>No digit is a control character, in particular not the NUL that ends a string.\<close>

lemma num_string_printable: "2 \<le> b \<Longrightarrow> b \<le> 16 \<Longrightarrow> x \<in> set (num_string u b n) \<Longrightarrow> 48 \<le> (of_char x :: nat)"
proof (induction u b n rule: num_string.induct)
  case (1 u b n)
  have d: "48 \<le> (of_char (digit_char u e) :: nat)" if "e < b" for e
    using of_char_digit_char [of e u] that 1 by auto
  from 1(4) 1(1-3) d [of n] d [of "n mod b"] show ?case
    by (subst (asm) num_string.simps) (auto split: if_splits)
qed

lemma num_string_no_nul: "2 \<le> b \<Longrightarrow> b \<le> 16 \<Longrightarrow> CHR 0x00 \<notin> set (num_string u b n)"
  using num_string_printable [of b "CHR 0x00" u n] by auto

lemma num_string_no_tab: "2 \<le> b \<Longrightarrow> b \<le> 16 \<Longrightarrow> CHR 0x09 \<notin> set (num_string u b n)"
  using num_string_printable [of b "CHR 0x09" u n] by auto

end
