(* ===== verification/Vga_Printf.thy ===== *)
theory Vga_Printf
  imports Vga_Props Numerals
begin

text \<open>
  Serial output and \<open>vga_printf\<close>: when the port drains, every character is sent; a format with its
  arguments stands for a text (\<open>renders\<close>), and \<open>vga_printf\<close> types that text on the screen and sends
  it to the port.
\<close>

section \<open>The serial port\<close>

text \<open>
  The line status register is read until the transmitter is empty. Nothing but those reads happens
  meanwhile, so the device sees a trace that only grows by reads.
\<close>

definition uart_ready :: "(port_event list \<Rightarrow> u16 \<Rightarrow> u32) \<Rightarrow> port_event list \<Rightarrow> bool" where
  "uart_ready d tr \<longleftrightarrow> (ucast (d tr 0x3FD) :: u8) AND 0x20 \<noteq> 0"

definition polls :: "nat \<Rightarrow> port_event list \<Rightarrow> port_event list" where
  "polls n tr = replicate n (In8 0x3FD) @ tr"

definition uart_drains :: "(port_event list \<Rightarrow> u16 \<Rightarrow> u32) \<Rightarrow> bool" where
  "uart_drains d \<longleftrightarrow> (\<forall>tr. \<exists>n. uart_ready d (polls n tr))"

lemma polls_simps [simp]: "polls 0 tr = tr" "polls n (In8 0x3FD # tr) = polls (Suc n) tr"
  "written p (polls n tr) = written p tr"
  by (simp add: polls_def) (simp add: polls_def replicate_app_Cons_same, induction n, simp_all add: polls_def)

lemma serial_wait_step:
  "serial_wait s = (if uart_ready (device s) (ports s) then ret (s\<lparr>ports := polls 1 (ports s)\<rparr>)
     else serial_wait (s\<lparr>ports := polls 1 (ports s)\<rparr>))"
  by (subst serial_wait.simps) (simp add: port_inb_def uart_ready_def polls_def)

lemma serial_wait_ready:
  "uart_ready (device s) (polls n (ports s)) \<Longrightarrow> \<exists>k. serial_wait s = ret (s\<lparr>ports := polls k (ports s)\<rparr>)"
proof (induction n arbitrary: s)
  case 0
  then show ?case by (subst serial_wait_step) auto
next
  case (Suc n)
  let ?t = "s\<lparr>ports := polls 1 (ports s)\<rparr>"
  have "polls n (polls 1 tr) = polls (Suc n) tr" for n tr
    by (simp add: polls_def replicate_app_Cons_same)
  then have "\<exists>k. serial_wait ?t = ret (?t\<lparr>ports := polls k (polls 1 (ports s))\<rparr>)"
    using Suc.IH [of ?t] Suc.prems by simp
  moreover have "\<exists>j. polls k (polls 1 tr) = polls j tr" for k tr
    by (rule exI [of _ "Suc k"]) (simp add: polls_def replicate_app_Cons_same)
  ultimately show ?case by (subst serial_wait_step) (auto, metis)
qed

lemma serial_wait_returns_ready:
  assumes "serial_wait s = Some r"
  shows "\<exists>n. uart_ready (device s) (polls n (ports s))"
proof (rule serial_wait.raw_induct [of "\<lambda>s r. \<exists>n. uart_ready (device s) (polls n (ports s))", OF _ assms])
  fix f :: "'a machine_scheme \<Rightarrow> 'a machine_scheme exec" and s r
  assume IH: "\<And>s r. f s = Some r \<Longrightarrow> \<exists>n. uart_ready (device s) (polls n (ports s))"
    and step: "(case port_inb s (0x3F8 + 5) of (v, s') \<Rightarrow> if v AND 0x20 = 0 then f s' else ret s') = Some r"
  show "\<exists>n. uart_ready (device s) (polls n (ports s))"
  proof (cases "uart_ready (device s) (ports s)")
    case True
    then show ?thesis by (metis polls_simps(1))
  next
    case False
    with step have "f (s\<lparr>ports := In8 0x3FD # ports s\<rparr>) = Some r"
      by (simp add: port_inb_def uart_ready_def)
    from IH [OF this] show ?thesis by auto
  qed
qed

text \<open>What a character costs on the wire: a newline is followed by a carriage return.\<close>

definition serial_bytes :: "string \<Rightarrow> u8 list" where
  "serial_bytes = concat \<circ> map (\<lambda>c. if c = CHR 0x0A then [0x0A, 0x0D] else [of_char c])"

lemma serial_bytes_simps [simp]:
  "serial_bytes [] = []" "serial_bytes (xs @ ys) = serial_bytes xs @ serial_bytes ys"
  by (simp_all add: serial_bytes_def)

text \<open>A run writes no port but the data port of the UART and the two of the CRT controller.\<close>

definition console_ports :: "port_event list \<Rightarrow> port_event list \<Rightarrow> bool" where
  "console_ports tr tr' \<longleftrightarrow> (\<forall>p. p \<notin> {0x3F8, 0x3D4, 0x3D5} \<longrightarrow> written p tr' = written p tr)"

lemma console_ports_refl [simp]: "console_ports tr tr"
  by (simp add: console_ports_def)

lemma console_ports_trans: "console_ports a b \<Longrightarrow> console_ports b c \<Longrightarrow> console_ports a c"
  by (simp add: console_ports_def)

definition sends :: "'a machine_scheme \<Rightarrow> 'a machine_scheme \<Rightarrow> u8 list \<Rightarrow> bool" where
  "sends s t bs \<longleftrightarrow> (\<exists>tr. t = s\<lparr>ports := tr\<rparr> \<and> written 0x3F8 tr = written 0x3F8 (ports s) @ bs
     \<and> console_ports (ports s) tr)"

lemma sends_Nil [simp]: "sends s s []"
  by (auto simp: sends_def intro: exI [of _ "ports s"])

lemma sends_trans: "sends s t as \<Longrightarrow> sends t u bs \<Longrightarrow> sends s u (as @ bs)"
  by (fastforce simp: sends_def intro: console_ports_trans)

lemma sends_device: "sends s t bs \<Longrightarrow> device t = device s"
  by (auto simp: sends_def)

lemma serial_putc_one:
  assumes "uart_drains (device s)"
  shows "\<exists>t. seq (serial_wait s) (\<lambda>s1. ret (port_outb s1 0x3F8 b)) = ret t \<and> sends s t [b]"
proof -
  obtain n where "uart_ready (device s) (polls n (ports s))" using assms by (auto simp: uart_drains_def)
  from serial_wait_ready [OF this] show ?thesis
    by (fastforce simp: sends_def port_outb_def console_ports_def)
qed

lemma serial_putc_sends_aux:
  assumes "uart_drains (device s)"
  shows "\<exists>t. serial_putc s c = ret t \<and> sends s t (serial_bytes [c])"
proof -
  have other: "\<exists>t. serial_putc s c = ret t \<and> sends s t [of_char c]"
    if "c \<noteq> CHR 0x0A" "uart_drains (device s)" for c and s :: "'a machine_scheme"
    using serial_putc_one [OF that(2), of "of_char c"] that(1)
    by (subst serial_putc.simps) (simp add: Let_def)
  show ?thesis
  proof (cases "c = CHR 0x0A")
    case True
    from serial_putc_one [OF assms, of 10] obtain t
      where t: "seq (serial_wait s) (\<lambda>s1. ret (port_outb s1 0x3F8 10)) = ret t" "sends s t [10]"
      by auto
    with assms other [of "CHR 0x0D" t] obtain u
      where u: "serial_putc t CHR 0x0D = ret u" "sends t u [0x0D]"
      by (auto simp: sends_device)
    have "serial_putc s c = seq (seq (serial_wait s) (\<lambda>s1. ret (port_outb s1 0x3F8 10)))
        (\<lambda>t. serial_putc t CHR 0x0D)"
      using True by (subst serial_putc.simps) (simp add: Let_def exec_simps)
    with t u True sends_trans [OF t(2) u(2)] show ?thesis by (simp add: serial_bytes_def)
  qed (use assms other in \<open>simp add: serial_bytes_def\<close>)
qed

text \<open>C38: When the transmitter always drains in the end, \<open>serial_putc\<close> returns, has written its
  character to the data register (a newline followed by a carriage return) and changed nothing
  but the ports; when the status register never reports it empty, the call does not return.\<close>

theorem serial_putc_liveness:
  "(uart_drains (device s) \<longrightarrow> (\<exists>t. serial_putc s c = ret t \<and> sends s t (serial_bytes [c])))
    \<and> ((\<forall>n. \<not> uart_ready (device s) (polls n (ports s))) \<longrightarrow> serial_putc s c = None)"
proof (intro conjI impI)
  assume never: "\<forall>n. \<not> uart_ready (device s) (polls n (ports s))"
  then have "serial_wait s = None"
    by (metis serial_wait_returns_ready option.exhaust)
  then show "serial_putc s c = None" by (subst serial_putc.simps) (simp add: seq_def)
qed (rule serial_putc_sends_aux)

theorem serial_putc_liveness_witness:
  "(\<exists>t. serial_putc \<lparr>ram = \<lambda>_. 0, ports = [], device = \<lambda>_ _. 0x20\<rparr> CHR ''A'' = ret t
      \<and> sends \<lparr>ram = \<lambda>_. 0, ports = [], device = \<lambda>_ _. 0x20\<rparr> t [0x41])
    \<and> serial_putc \<lparr>ram = \<lambda>_. 0, ports = [], device = \<lambda>_ _. 0\<rparr> CHR ''A'' = None"
proof -
  have "uart_drains (\<lambda>_ _. 0x20)" and "\<not> uart_ready (\<lambda>_ _. 0) tr" for tr
    by (simp_all add: uart_drains_def uart_ready_def)
  then show ?thesis
    using serial_putc_liveness [of "\<lparr>ram = \<lambda>_. 0, ports = [], device = \<lambda>_ _. 0x20\<rparr>" "CHR ''A''"]
      serial_putc_liveness [of "\<lparr>ram = \<lambda>_. 0, ports = [], device = \<lambda>_ _. 0\<rparr>" "CHR ''A''"]
    by (simp add: serial_bytes_def)
qed

section \<open>Both outputs\<close>

definition vga_type :: "'a vga_scheme \<Rightarrow> string \<Rightarrow> 'a vga_scheme" where
  "vga_type s text = fold (\<lambda>c s. vga_putchar s c) text s"

lemma vga_type_simps [simp]:
  "vga_type s [] = s" "vga_type s (c # cs) = vga_type (vga_putchar s c) cs"
  "vga_type s (xs @ ys) = vga_type (vga_type s xs) ys"
  by (simp_all add: vga_type_def)

lemma vga_scroll_ports: "vga_scroll (s\<lparr>ports := tr\<rparr>) = (vga_scroll s)\<lparr>ports := tr\<rparr>"
proof -
  let ?F = "\<lambda>s. s\<lparr>ports := tr\<rparr>"
  have "fold move_cell xs (?F t) = ?F (fold move_cell xs t)" for xs and t :: "'a vga_scheme"
    by (rule fold_abs [where F = ?F, symmetric]) (simp add: move_cell_def vga_store_def)
  moreover have "fold (\<lambda>i. fill_cell b (k + i)) xs (?F t) = ?F (fold (\<lambda>i. fill_cell b (k + i)) xs t)"
    for xs b k and t :: "'a vga_scheme"
    by (rule fold_abs [where F = ?F, symmetric]) (simp add: fill_cell_def vga_store_def)
  ultimately show ?thesis by (simp add: vga_scroll_loops)
qed

lemma vga_putchar_ports: "vga_putchar (s\<lparr>ports := tr\<rparr>) c = (vga_putchar s c)\<lparr>ports := tr\<rparr>"
proof -
  let ?F = "\<lambda>s. s\<lparr>ports := tr\<rparr>"
  have eq: "u = ?F t \<Longrightarrow> (if cursor_y u \<ge> VGA_HEIGHT then vga_scroll u else u)
    = ?F (if cursor_y t \<ge> VGA_HEIGHT then vga_scroll t else t)" for t u :: "'a vga_scheme"
    by (simp add: vga_scroll_ports)
  show ?thesis
    unfolding vga_putchar_def Let_def by (rule eq) (simp add: vga_store_def)
qed

lemma vga_type_ports: "vga_type (s\<lparr>ports := tr\<rparr>) cs = (vga_type s cs)\<lparr>ports := tr\<rparr>"
  by (induction cs arbitrary: s) (simp_all add: vga_putchar_ports)

lemma vga_puts_type: "CHR 0x00 \<notin> set cs \<Longrightarrow> vga_puts s cs = vga_type s cs"
  by (induction cs arbitrary: s) auto

section \<open>Numbers\<close>

text \<open>The buffer is filled from its end, and 31 characters are enough for every number.\<close>

lemma fmt_dec_string:
  "length (num_string False 10 v) + length p \<le> 31 \<Longrightarrow> fmt_dec v p = ret (num_string False 10 v @ p)"
proof (induction v arbitrary: p rule: less_induct)
  case (less v)
  have digit: "char_of (of_char CHR ''0'' + v mod 10) = digit_char False (v mod 10)"
    by (simp add: digit_char_def)
  show ?case
  proof (cases "v < 10")
    case True
    with less.prems digit show ?thesis
      by (subst fmt_dec.simps, subst num_string.simps) (simp add: push_buf_def num_string.simps)
  next
    case False
    then have n: "num_string False 10 v = num_string False 10 (v div 10) @ [digit_char False (v mod 10)]"
      by (subst num_string.simps) simp
    with less.prems have "length p < 31" by simp
    with less False digit n show ?thesis by (subst fmt_dec.simps) (simp add: push_buf_def div_eq_0_iff)
  qed
qed

lemma hex_digit_nth: "''0123456789abcdef'' ! (v AND 0xf) = digit_char False (v mod 16)"
proof -
  have m: "v AND 0xf = v mod 16" using take_bit_eq_mask [of 4 v] by (simp add: take_bit_eq_mod mask_eq_exp_minus_1)
  have all: "\<forall>d \<in> set [0..<16]. ''0123456789abcdef'' ! d = digit_char False d"
    by (simp add: upt_conv_Cons digit_char_def char_of_def bit_0)
  have "v mod 16 \<in> set [0..<16]" by simp
  with m all show ?thesis by metis
qed

lemma fmt_hex_string:
  "length (num_string False 16 v) + length p \<le> 31 \<Longrightarrow> fmt_hex v p = ret (num_string False 16 v @ p)"
proof (induction v arbitrary: p rule: less_induct)
  case (less v)
  have d: "drop_bit 4 v = v div 16" by (simp add: drop_bit_eq_div)
  show ?case
  proof (cases "v < 16")
    case True
    with less.prems d show ?thesis
      by (subst fmt_hex.simps, subst num_string.simps) (simp add: push_buf_def num_string.simps hex_digit_nth)
  next
    case False
    then have n: "num_string False 16 v = num_string False 16 (v div 16) @ [digit_char False (v mod 16)]"
      by (subst num_string.simps) simp
    with less.prems have "length p < 31" by simp
    with less False d n show ?thesis
      by (subst fmt_hex.simps) (simp add: push_buf_def hex_digit_nth div_eq_0_iff)
  qed
qed

definition int_string :: "int \<Rightarrow> string" where
  "int_string v = (if v < 0 then CHR ''-'' # num_string False 10 (nat (- v)) else num_string False 10 (nat v))"

lemma num_string_31: "b = 10 \<or> b = 16 \<Longrightarrow> n < 2 ^ 64 \<Longrightarrow> length (num_string u b n) \<le> 20"
proof -
  assume b: "b = 10 \<or> b = 16" and n: "n < 2 ^ 64"
  have "(2 :: nat) ^ 64 \<le> 10 ^ 20" "(2 :: nat) ^ 64 \<le> 16 ^ 20" by simp_all
  with b n have "n < b ^ 20" by auto
  with b show ?thesis by (intro length_num_string) auto
qed

lemma fmt_signed_string:
  assumes "- (2 ^ 63) \<le> v" "v < 2 ^ 63" "v \<noteq> least"
  shows "fmt_signed least v = ret (int_string v)"
proof -
  have "nat (if v < 0 then - v else v) < 2 ^ 64" using assms by auto
  then have "length (num_string False 10 (nat (if v < 0 then - v else v))) \<le> 20"
    by (intro num_string_31) auto
  with assms show ?thesis by (auto simp: fmt_signed_def fmt_dec_string int_string_def push_buf_def)
qed

definition pointer_string :: "nat \<Rightarrow> string" where
  "pointer_string v = map (\<lambda>i. digit_char False (v div 16 ^ i mod 16)) (rev [0..<8])"

lemma fmt_hex_digits_string:
  "k + length p \<le> 31 \<Longrightarrow> fmt_hex_digits k v p
    = ret (map (\<lambda>i. digit_char False (v div 16 ^ i mod 16)) (rev [0..<k]) @ p)"
proof (induction k arbitrary: v p)
  case (Suc k)
  have "map (\<lambda>i. digit_char False (v div 16 ^ i mod 16)) (rev [0..<Suc k])
    = map (\<lambda>i. digit_char False (v div 16 div 16 ^ i mod 16)) (rev [0..<k]) @ [digit_char False (v mod 16)]"
    by (simp add: upt_conv_Cons map_Suc_upt [symmetric] rev_map comp_def div_mult2_eq del: upt_Suc)
  moreover have "length p < 31" using Suc.prems by simp
  ultimately show ?case
    using Suc.IH [of "digit_char False (v mod 16) # p" "v div 16"] Suc.prems
    by (simp add: push_buf_def hex_digit_nth drop_bit_eq_div del: upt_Suc)
qed simp

section \<open>Formats\<close>

text \<open>
  \<open>renders fmt args text\<close>: the format with these arguments stands for the text. There is a rule
  for each conversion \<open>vga_printf\<close> knows and one for the characters it does not know, which it
  prints with their \<open>%\<close>.
\<close>

inductive renders :: "string \<Rightarrow> va_arg list \<Rightarrow> string \<Rightarrow> bool" where
  End: "renders [] args []"
| Plain: "c \<noteq> CHR ''%'' \<Longrightarrow> c \<noteq> CHR 0x00 \<Longrightarrow> renders fmt args t \<Longrightarrow> renders (c # fmt) args (c # t)"
| Int: "v = sint (ucast w :: u32) \<Longrightarrow> v \<noteq> - (2 ^ 31) \<Longrightarrow> renders fmt args t \<Longrightarrow>
    renders (CHR ''%'' # CHR ''d'' # fmt) (VaWord w # args) (int_string v @ t)"
| Unsigned: "renders fmt args t \<Longrightarrow>
    renders (CHR ''%'' # CHR ''u'' # fmt) (VaWord w # args) (num_string False 10 (unat (ucast w :: u32)) @ t)"
| Hex: "renders fmt args t \<Longrightarrow>
    renders (CHR ''%'' # CHR ''x'' # fmt) (VaWord w # args) (num_string False 16 (unat (ucast w :: u32)) @ t)"
| Pointer: "renders fmt args t \<Longrightarrow>
    renders (CHR ''%'' # CHR ''p'' # fmt) (VaWord w # args) (''0x'' @ pointer_string (unat w) @ t)"
| Long_int: "v = sint w \<Longrightarrow> v \<noteq> - (2 ^ 63) \<Longrightarrow> renders fmt args t \<Longrightarrow>
    renders (CHR ''%'' # CHR ''l'' # CHR ''d'' # fmt) (VaWord w # args) (int_string v @ t)"
| Long_unsigned: "renders fmt args t \<Longrightarrow>
    renders (CHR ''%'' # CHR ''l'' # CHR ''u'' # fmt) (VaWord w # args) (num_string False 10 (unat w) @ t)"
| Long_hex: "renders fmt args t \<Longrightarrow>
    renders (CHR ''%'' # CHR ''l'' # CHR ''x'' # fmt) (VaWord w # args) (num_string False 16 (unat w) @ t)"
| Long_other: "d \<notin> {CHR ''d'', CHR ''u'', CHR ''x'', CHR 0x00} \<Longrightarrow> renders fmt args t \<Longrightarrow>
    renders (CHR ''%'' # CHR ''l'' # d # fmt) args t"
| Character: "renders fmt args t \<Longrightarrow>
    renders (CHR ''%'' # CHR ''c'' # fmt) (VaWord w # args) (char_of (unat w) # t)"
| String: "CHR 0x00 \<notin> set str \<Longrightarrow> renders fmt args t \<Longrightarrow>
    renders (CHR ''%'' # CHR ''s'' # fmt) (VaStr str # args) (str @ t)"
| Unknown: "c \<notin> {CHR ''d'', CHR ''u'', CHR ''x'', CHR ''p'', CHR ''l'', CHR ''c'', CHR ''s'', CHR 0x00} \<Longrightarrow>
    renders fmt args t \<Longrightarrow> renders (CHR ''%'' # c # fmt) args (CHR ''%'' # c # t)"

section \<open>vga_printf\<close>

text \<open>\<open>prints s t text\<close>: from \<open>s\<close> to \<open>t\<close> the text was typed on the screen and sent to the port.\<close>

definition prints :: "'a vga_scheme \<Rightarrow> 'a vga_scheme \<Rightarrow> string \<Rightarrow> bool" where
  "prints s t text \<longleftrightarrow> sends (vga_type s text) t (serial_bytes text)"

lemma vga_type_ok: "vga_ok s \<Longrightarrow> vga_ok (vga_type s cs) \<and> only_screen s (vga_type s cs)"
proof (induction cs arbitrary: s)
  case (Cons c cs)
  from Cons.prems have "vga_ok (vga_putchar s c)" "only_screen s (vga_putchar s c)"
    by (simp_all add: vga_putchar_ok vga_putchar_only_screen)
  with Cons.IH [of "vga_putchar s c"] show ?case by (auto intro: only_screen_trans)
qed simp

lemma vga_ok_ports [simp]: "vga_ok (s\<lparr>ports := tr\<rparr>) = vga_ok s"
  by (simp add: vga_ok_def)

lemma prints_ok: "prints s t text \<Longrightarrow> vga_ok s \<Longrightarrow> vga_ok t \<and> device t = device s"
  using vga_type_ok [of s "text"] by (auto simp: prints_def sends_def only_screen_def)

lemma prints_Nil [simp]: "prints s s []"
  by (simp add: prints_def)

lemma prints_trans:
  assumes "prints s t as" "prints t u bs" "vga_ok s"
  shows "prints s u (as @ bs)"
proof -
  from assms(1) obtain tr where t: "t = (vga_type s as)\<lparr>ports := tr\<rparr>"
    and tr: "written 0x3F8 tr = written 0x3F8 (ports (vga_type s as)) @ serial_bytes as"
      "console_ports (ports (vga_type s as)) tr"
    by (auto simp: prints_def sends_def)
  from assms(2) obtain ur where u: "u = (vga_type t bs)\<lparr>ports := ur\<rparr>"
    and ur: "written 0x3F8 ur = written 0x3F8 (ports (vga_type t bs)) @ serial_bytes bs"
      "console_ports (ports (vga_type t bs)) ur"
    by (auto simp: prints_def sends_def)
  have ports: "ports (vga_type x cs) = ports x" if "vga_ok x" for cs and x :: "'a vga_scheme"
    using vga_type_ok [OF that] by (simp add: only_screen_def)
  have ok: "vga_ok (vga_type s as)" "vga_ok t" using assms vga_type_ok prints_ok by blast+
  have "u = (vga_type (vga_type s as) bs)\<lparr>ports := ur\<rparr>" by (simp add: u t vga_type_ports)
  moreover have "written 0x3F8 ur = written 0x3F8 (ports s) @ serial_bytes (as @ bs)"
    using ur(1) tr(1) by (simp add: ports ok assms(3), simp add: t)
  moreover have "console_ports (ports s) ur"
    using ur(2) tr(2) by (simp add: ports ok assms(3)) (simp add: t console_ports_trans)
  ultimately show ?thesis using ok by (auto simp: prints_def sends_def ports assms(3))
qed

lemma serial_puts_sends:
  assumes "CHR 0x00 \<notin> set cs" "uart_drains (device s)"
  shows "\<exists>t. serial_puts s cs = ret t \<and> sends s t (serial_bytes cs)"
  using assms
proof (induction cs arbitrary: s)
  case (Cons c cs)
  obtain t where t: "serial_putc s c = ret t" "sends s t (serial_bytes [c])"
    using serial_putc_sends_aux Cons.prems(2) by blast
  with Cons obtain u where "serial_puts t cs = ret u" "sends t u (serial_bytes cs)"
    by (metis list.set_intros(2) sends_device)
  with t Cons.prems(1) sends_trans [of s t "serial_bytes [c]" u "serial_bytes cs"] show ?case
    by (auto simp: serial_bytes_def)
qed simp

lemma drains_typed: "vga_ok s \<Longrightarrow> uart_drains (device s) \<Longrightarrow> uart_drains (device (vga_type s cs))"
  using vga_type_ok [of s cs] by (simp add: only_screen_def)

lemma vga_out_prints:
  "vga_ok s \<Longrightarrow> uart_drains (device s) \<Longrightarrow> CHR 0x00 \<notin> set cs \<Longrightarrow>
    \<exists>t. vga_out s cs = ret t \<and> prints s t cs"
  using serial_puts_sends [OF _ drains_typed] by (simp add: vga_out_def prints_def vga_puts_type)

lemma vga_outc_prints:
  "vga_ok s \<Longrightarrow> uart_drains (device s) \<Longrightarrow> \<exists>t. vga_outc s c = ret t \<and> prints s t [c]"
  using serial_putc_sends_aux [OF drains_typed, of s "[c]" c] by (simp add: vga_outc_def prints_def)

lemma int_string_no_nul: "CHR 0x00 \<notin> set (int_string v)"
  by (auto simp: int_string_def num_string_no_nul)

lemma pointer_string_no_nul: "CHR 0x00 \<notin> set (pointer_string v)"
proof -
  have "CHR 0x00 \<noteq> digit_char False (n mod 16)" for n
    using of_char_digit_char [of "n mod 16" False] by (auto dest: arg_cong [of _ _ "of_char :: char \<Rightarrow> nat"] split: if_splits)
  then show ?thesis by (auto simp: pointer_string_def)
qed

text \<open>The two characters of a conversion that is printed as it stands, and \<open>%p\<close>.\<close>

lemma two_chars_print:
  assumes "vga_ok s" "uart_drains (device s)"
  shows "\<exists>t. seq (serial_putc (vga_putchar (vga_putchar s a) b) a) (\<lambda>s. serial_putc s b) = ret t
    \<and> prints s t [a, b]"
proof -
  have d: "uart_drains (device (vga_type s [a, b]))" using assms by (rule drains_typed)
  from serial_putc_sends_aux [OF d, of a] obtain t
    where t: "serial_putc (vga_type s [a, b]) a = ret t" "sends (vga_type s [a, b]) t (serial_bytes [a])"
    by blast
  with serial_putc_sends_aux [of t b] d obtain u
    where u: "serial_putc t b = ret u" "sends t u (serial_bytes [b])"
    by (auto simp: sends_device)
  have "sends (vga_type s [a, b]) u (serial_bytes ([a] @ [b]))"
    using sends_trans [OF t(2) u(2)] by (simp only: serial_bytes_simps)
  with t u show ?thesis by (simp add: prints_def)
qed

lemma pointer_prints:
  assumes "vga_ok s" "uart_drains (device s)" "CHR 0x00 \<notin> set p"
  shows "\<exists>t. seq (serial_putc (vga_puts (vga_puts s ''0x'') p) CHR ''0'')
      (\<lambda>s. seq (serial_putc s CHR ''x'') (\<lambda>s. serial_puts s p)) = ret t
    \<and> prints s t (''0x'' @ p)"
proof -
  let ?text = "''0x'' @ p"
  have d: "uart_drains (device (vga_type s ?text))" using assms(1,2) by (rule drains_typed)
  have v: "vga_puts (vga_puts s ''0x'') p = vga_type s ?text"
    using assms(3) by (simp add: vga_puts_type)
  have "serial_puts (vga_type s ?text) ?text
      = seq (serial_putc (vga_type s ?text) CHR ''0'') (\<lambda>s. seq (serial_putc s CHR ''x'') (\<lambda>s. serial_puts s p))"
    by simp
  moreover have "CHR 0x00 \<notin> set ?text" using assms(3) by auto
  ultimately show ?thesis
    using serial_puts_sends [of ?text, OF _ d] unfolding v prints_def by metis
qed

text \<open>
  One step of the loop: a conversion that shows its text hands over to the rest of the format. The
  digits of a number fit the buffer (\<open>num_string_31\<close>), so no conversion of a number fails.
\<close>

lemma printf_step:
  fixes s :: "'a vga_scheme"
  assumes "\<exists>u. vga_printf s f args = vga_printf u fmt args' \<and> prints s u cs"
    and "\<And>u :: 'a vga_scheme. vga_ok u \<Longrightarrow> uart_drains (device u) \<Longrightarrow> \<exists>t. vga_printf u fmt args' = ret t \<and> prints u t ds"
    and "vga_ok s" "uart_drains (device s)"
  shows "\<exists>t. vga_printf s f args = ret t \<and> prints s t (cs @ ds)"
proof -
  obtain u where u: "vga_printf s f args = vga_printf u fmt args'" "prints s u cs" using assms(1) by blast
  with assms have "vga_ok u" "uart_drains (device u)" using prints_ok by metis+
  then obtain t where "vga_printf u fmt args' = ret t" "prints u t ds" using assms(2) by blast
  with u assms(3) prints_trans show ?thesis by metis
qed

lemma conv_step:
  fixes s :: "'a vga_scheme"
  assumes "\<exists>u. vga_conv s f args = ret (u, fmt, args') \<and> prints s u cs"
    and "\<And>u :: 'a vga_scheme. vga_ok u \<Longrightarrow> uart_drains (device u) \<Longrightarrow> \<exists>t. vga_printf u fmt args' = ret t \<and> prints u t ds"
    and "vga_ok s" "uart_drains (device s)"
  shows "\<exists>t. vga_printf s (CHR ''%'' # f) args = ret t \<and> prints s t (cs @ ds)"
  using assms(1) by (intro printf_step [OF _ assms(2-4)]) (auto simp: vga_printf.simps(2))

lemma num_string_fits:
  "n < 2 ^ 64 \<Longrightarrow> length (num_string u 10 n) + length ([] :: string) \<le> 31"
  "n < 2 ^ 64 \<Longrightarrow> length (num_string u 16 n) + length ([] :: string) \<le> 31"
  using num_string_31 [of 10 n u] num_string_31 [of 16 n u] by simp_all

lemma unat_32_64: "unat (w :: u32) < 2 ^ 64"
  using unsigned_less [of w, where 'a = nat] by simp

lemmas number_texts = fmt_dec_string [OF num_string_fits(1), unfolded append_Nil2]
  fmt_hex_string [OF num_string_fits(2), unfolded append_Nil2]

lemma sint_32_64: "- (2 ^ 63) \<le> sint (w :: u32)" "sint w < 2 ^ 63"
  using sint_ge [of w] sint_lt [of w] by simp_all

lemma sint_64: "- (2 ^ 63) \<le> sint (w :: u64)" "sint w < 2 ^ 63"
  using sint_ge [of w] sint_lt [of w] by simp_all

text \<open>The pieces of text conversions print, shown.\<close>

lemma out_conv:
  assumes "vga_ok s" "uart_drains (device s)" "CHR 0x00 \<notin> set p"
  shows "\<exists>u. seq (vga_out s p) (\<lambda>s. ret (s, fmt, args)) = ret (u, fmt, args) \<and> prints s u p"
proof -
  obtain t where "vga_out s p = ret t" "prints s t p" using vga_out_prints assms by blast
  then show ?thesis by auto
qed

lemma vga_printf_prints_aux:
  "renders fmt args cs \<Longrightarrow> vga_ok s \<Longrightarrow> uart_drains (device s) \<Longrightarrow>
    \<exists>t. vga_printf s fmt args = ret t \<and> prints s t cs"
proof (induction arbitrary: s rule: renders.induct)
  case (End args)
  then show ?case by auto
next
  case (Plain c fmt args cs)
  obtain t where t: "vga_outc s c = ret t" "prints s t [c]" using vga_outc_prints Plain.prems by blast
  have "\<exists>t. vga_printf s (c # fmt) args = ret t \<and> prints s t ([c] @ cs)"
    by (rule printf_step [OF _ Plain.IH Plain.prems])
      (use t Plain.hyps in \<open>auto simp: vga_printf.simps(2)\<close>)
  then show ?case by simp
next
  case (Int v w fmt args cs)
  show ?case
    by (rule conv_step [OF _ Int.IH Int.prems])
      (use Int.hyps Int.prems in \<open>simp_all add: fmt_signed_string sint_32_64 [simplified] out_conv int_string_no_nul\<close>)
next
  case (Unsigned fmt args cs w)
  show ?case
    by (rule conv_step [OF _ Unsigned.IH Unsigned.prems])
      (use Unsigned.prems in \<open>simp_all add: number_texts unat_32_64 [simplified] out_conv num_string_no_nul\<close>)
next
  case (Hex fmt args cs w)
  show ?case
    by (rule conv_step [OF _ Hex.IH Hex.prems])
      (use Hex.prems in \<open>simp_all add: number_texts unat_32_64 [simplified] out_conv num_string_no_nul\<close>)
next
  case (Pointer fmt args cs w)
  have d: "fmt_hex_digits 8 (unat w) [] = ret (pointer_string (unat w))"
    using fmt_hex_digits_string [of 8 "[]" "unat w"] by (simp add: pointer_string_def)
  obtain t where t: "seq (serial_putc (vga_puts (vga_puts s ''0x'') (pointer_string (unat w))) CHR ''0'')
      (\<lambda>s. seq (serial_putc s CHR ''x'') (\<lambda>s. serial_puts s (pointer_string (unat w)))) = ret t"
    "prints s t (''0x'' @ pointer_string (unat w))"
    using pointer_prints Pointer.prems pointer_string_no_nul by blast
  have "vga_conv s (CHR ''p'' # fmt) (VaWord w # args) = seq (ret t) (\<lambda>s. ret (s, fmt, args))"
    unfolding t(1) [symmetric] by (simp add: d seq_assoc del: vga_puts.simps)
  with t have "\<exists>t. vga_printf s (CHR ''%'' # CHR ''p'' # fmt) (VaWord w # args) = ret t
      \<and> prints s t ((''0x'' @ pointer_string (unat w)) @ cs)"
    by (intro conv_step [OF _ Pointer.IH Pointer.prems]) auto
  then show ?case by simp
next
  case (Long_int v w fmt args cs)
  show ?case
    by (rule conv_step [OF _ Long_int.IH Long_int.prems])
      (use Long_int.hyps Long_int.prems in \<open>simp_all add: fmt_signed_string sint_64 [simplified] out_conv int_string_no_nul\<close>)
next
  case (Long_unsigned fmt args cs w)
  show ?case
    by (rule conv_step [OF _ Long_unsigned.IH Long_unsigned.prems])
      (use Long_unsigned.prems in \<open>simp_all add: number_texts unat_lt_64 [simplified] out_conv num_string_no_nul del: unsigned_less\<close>)
next
  case (Long_hex fmt args cs w)
  show ?case
    by (rule conv_step [OF _ Long_hex.IH Long_hex.prems])
      (use Long_hex.prems in \<open>simp_all add: number_texts unat_lt_64 [simplified] out_conv num_string_no_nul\<close>)
next
  case (Long_other d fmt args cs)
  have "\<exists>t. vga_printf s (CHR ''%'' # CHR ''l'' # d # fmt) args = ret t \<and> prints s t ([] @ cs)"
    by (rule conv_step [OF _ Long_other.IH Long_other.prems]) (use Long_other.hyps in simp_all)
  then show ?case by simp
next
  case (Character fmt args cs w)
  obtain t where t: "vga_outc s (char_of (unat w)) = ret t" "prints s t [char_of (unat w)]"
    using vga_outc_prints Character.prems by blast
  have "\<exists>t. vga_printf s (CHR ''%'' # CHR ''c'' # fmt) (VaWord w # args) = ret t
      \<and> prints s t ([char_of (unat w)] @ cs)"
    by (rule conv_step [OF _ Character.IH Character.prems]) (use t in simp_all)
  then show ?case by simp
next
  case (String str fmt args cs)
  show ?case
    by (rule conv_step [OF _ String.IH String.prems])
      (use String.hyps String.prems in \<open>simp_all add: out_conv\<close>)
next
  case (Unknown c fmt args cs)
  obtain t where t: "seq (serial_putc (vga_putchar (vga_putchar s CHR ''%'') c) CHR ''%'') (\<lambda>s. serial_putc s c) = ret t"
    "prints s t [CHR ''%'', c]"
    using two_chars_print Unknown.prems by blast
  have "vga_conv s (c # fmt) args = seq (ret t) (\<lambda>s. ret (s, fmt, args))"
    unfolding t(1) [symmetric] using Unknown.hyps by (simp add: seq_assoc)
  with t have "\<exists>t. vga_printf s (CHR ''%'' # c # fmt) args = ret t \<and> prints s t ([CHR ''%'', c] @ cs)"
    by (intro conv_step [OF _ Unknown.IH Unknown.prems]) auto
  then show ?case by simp
qed

lemma vga_printf_text:
  assumes "renders fmt args cs" "vga_ok s" "uart_drains (device s)"
  shows "\<exists>t. vga_printf s fmt args = ret t \<and> vga_ok t
    \<and> vga_abs t = vga_abs (vga_type s cs)
    \<and> written 0x3F8 (ports t) = written 0x3F8 (ports s) @ serial_bytes cs
    \<and> (\<forall>a. outside_screen a \<longrightarrow> ram t a = ram s a)"
proof -
  obtain t where t: "vga_printf s fmt args = ret t" "prints s t cs"
    using vga_printf_prints_aux assms by blast
  then obtain tr where "t = (vga_type s cs)\<lparr>ports := tr\<rparr>"
    "written 0x3F8 tr = written 0x3F8 (ports (vga_type s cs)) @ serial_bytes cs"
    by (auto simp: prints_def sends_def)
  with t vga_type_ok [OF assms(2), of cs] show ?thesis
    by (auto simp: only_screen_def vga_abs_def)
qed

text \<open>C40: A format that stands for a text makes \<open>vga_printf\<close> return after typing exactly that text on the
  screen and sending it to the serial port; no conversion overruns the 32-byte digit buffer and no
  byte outside the screen changes.\<close>

theorem vga_printf_prints:
  assumes "renders fmt args cs" "vga_ok s" "uart_drains (device s)"
  shows "\<exists>t. vga_printf s fmt args = ret t \<and> vga_ok t
    \<and> vga_abs t = vga_abs (vga_type s cs)
    \<and> written 0x3F8 (ports t) = written 0x3F8 (ports s) @ serial_bytes cs
    \<and> (\<forall>a. outside_screen a \<longrightarrow> ram t a = ram s a)"
  using assms by (rule vga_printf_text)

theorem vga_printf_prints_witness:
  "\<exists>t. vga_printf blank_vga ''n=%d%%\<newline>'' [VaWord 0xFFFFFFD6] = ret t
    \<and> written 0x3F8 (ports t) = map of_char ''n=-42%%\<newline>'' @ [0x0D]"
proof -
  have "renders ''n=%d%%\<newline>'' [VaWord 0xFFFFFFD6]
    (CHR ''n'' # CHR ''='' # int_string (- 42) @ CHR ''%'' # CHR ''%'' # CHR 0x0A # [])"
    by (rule renders.Plain, simp, simp, rule renders.Plain, simp, simp, rule renders.Int, simp, simp,
        rule renders.Unknown, simp, rule renders.Plain, simp, simp, rule renders.End)
  moreover have "int_string (- 42) = ''-42''"
    by (simp add: int_string_def num_string.simps digit_char_def char_of_def bit_0)
  moreover have "vga_ok blank_vga" "uart_drains (device blank_vga)"
    by (simp_all add: vga_ok_def blank_vga_def uart_drains_def uart_ready_def)
  ultimately show ?thesis
    using vga_printf_prints [of "''n=%d%%\<newline>''" "[VaWord 0xFFFFFFD6]" "''n=-42%%\<newline>''" blank_vga]
    by (auto simp: serial_bytes_def blank_vga_def)
qed

text \<open>Three formats leave the language: \<open>%d\<close> of the smallest \<open>int\<close> negates it, which overflows, and
  after a \<open>%\<close> or \<open>%l\<close> at its end the format is read on behind its NUL.\<close>

theorem vga_printf_faults:
  assumes "vga_ok s" "uart_drains (device s)"
  shows "vga_printf s (''%d'' @ fmt) (VaWord 0x80000000 # args) = fail Signed_overflow
    \<and> vga_printf s ''%l'' args = fail Out_of_bounds
    \<and> vga_printf s ''%'' args = fail Out_of_bounds"
proof -
  obtain t where "seq (serial_putc (vga_putchar (vga_putchar s CHR ''%'') CHR 0x00) CHR ''%'')
      (\<lambda>s. serial_putc s CHR 0x00) = ret t"
    using two_chars_print [OF assms, of "CHR ''%''" "CHR 0x00"] by blast
  then have "seq (seq (serial_putc (vga_putchar (vga_putchar s CHR ''%'') CHR 0x00) CHR ''%'')
      (\<lambda>s. serial_putc s CHR 0x00)) (\<lambda>s. fail Out_of_bounds :: ('a vga_scheme \<times> string \<times> va_arg list) exec)
      = fail Out_of_bounds"
    by simp
  then have "vga_conv s [] args = fail Out_of_bounds" by (simp add: seq_assoc)
  then show ?thesis by (simp add: vga_printf.simps fmt_signed_def)
qed

theorem vga_printf_faults_witness:
  "vga_printf blank_vga ''%d'' [VaWord 0x80000000] = fail Signed_overflow
    \<and> vga_printf blank_vga ''%'' [] = fail Out_of_bounds"
  using vga_printf_faults [of blank_vga "[]" "[]"]
  by (simp add: vga_ok_def blank_vga_def uart_drains_def uart_ready_def)

end
