(* ===== verification/Logging.thy ===== *)
theory Logging
  imports Vga_Printf
begin

text \<open>
  Reasoning about runs that write messages: \<open>runs m Q\<close> says that \<open>m\<close> returns with a result that satisfies
  \<open>Q\<close>, with a rule for each construct; \<open>logs s t\<close> that nothing but messages on the debug console lies
  between two states; \<open>renderable\<close> decides that a format and its arguments stand for a text.
\<close>

section \<open>Total correctness\<close>

definition runs :: "'a exec \<Rightarrow> ('a \<Rightarrow> bool) \<Rightarrow> bool" where
  "runs m Q \<longleftrightarrow> (\<exists>r. m = ret r \<and> Q r)"

named_theorems runs_intros \<open>rules for runs\<close>

lemma runs_ret [simp]: "runs (ret x) Q \<longleftrightarrow> Q x"
  by (auto simp: runs_def)

lemma runs_seq: "runs m P \<Longrightarrow> (\<And>x. P x \<Longrightarrow> runs (f x) Q) \<Longrightarrow> runs (seq m f) Q"
  by (auto simp: runs_def)

lemma runs_if: "(b \<Longrightarrow> runs m Q) \<Longrightarrow> (\<not> b \<Longrightarrow> runs n Q) \<Longrightarrow> runs (if b then m else n) Q"
  by simp

lemma runs_mono: "runs m P \<Longrightarrow> (\<And>x. P x \<Longrightarrow> Q x) \<Longrightarrow> runs m Q"
  by (auto simp: runs_def)

lemma runs_conj: "runs m P \<Longrightarrow> runs m Q \<Longrightarrow> runs m (\<lambda>x. P x \<and> Q x)"
  by (auto simp: runs_def)

lemma runsE: "runs m Q \<Longrightarrow> (\<And>r. m = ret r \<Longrightarrow> Q r \<Longrightarrow> P) \<Longrightarrow> P"
  by (auto simp: runs_def)

section \<open>Formats that can be printed\<close>

fun renderable :: "string \<Rightarrow> va_arg list \<Rightarrow> bool" where
  "renderable [] args = True"
| "renderable (c # fmt) args =
     (if c = CHR 0x00 then False
      else if c \<noteq> CHR ''%'' then renderable fmt args
      else case fmt of
          [] \<Rightarrow> False
        | d # fmt1 \<Rightarrow>
            if d = CHR ''d'' then
              (case args of VaWord w # args \<Rightarrow> sint (ucast w :: u32) \<noteq> - (2 ^ 31) \<and> renderable fmt1 args | _ \<Rightarrow> False)
            else if d = CHR ''u'' \<or> d = CHR ''x'' \<or> d = CHR ''p'' then
              (case args of VaWord w # args \<Rightarrow> renderable fmt1 args | _ \<Rightarrow> False)
            else if d = CHR ''s'' then
              (case args of VaStr p # args \<Rightarrow> CHR 0x00 \<notin> set p \<and> renderable fmt1 args | _ \<Rightarrow> False)
            else if d = CHR ''l'' then
              (case fmt1 of
                 e # fmt2 \<Rightarrow> (e = CHR ''u'' \<or> e = CHR ''x'')
                   \<and> (case args of VaWord w # args \<Rightarrow> renderable fmt2 args | _ \<Rightarrow> False)
               | [] \<Rightarrow> False)
            else d \<notin> {CHR ''c'', CHR 0x00} \<and> renderable fmt1 args)"

lemma renderable_renders: "renderable fmt args \<Longrightarrow> \<exists>cs. renders fmt args cs"
proof (induction fmt arbitrary: args rule: length_induct)
  case (1 fmt0)
  then have IH: "\<And>fmt args. length fmt < length fmt0 \<Longrightarrow> renderable fmt args \<Longrightarrow> \<exists>cs. renders fmt args cs"
    and hyp: "renderable fmt0 args" by blast+
  show ?case
  proof (cases fmt0)
    case Nil
    then show ?thesis by (blast intro: renders.End)
  next
    case (Cons c fmt)
    note hyp = hyp [unfolded Cons] and IH = IH [unfolded Cons]
  show ?thesis
  proof (cases "c = CHR ''%''")
    case False
    with hyp have "renderable fmt args" "c \<noteq> CHR 0x00" by (auto split: if_splits)
    with IH [of fmt args] False Cons show ?thesis by (auto intro: renders.Plain)
  next
    case c: True
    with hyp obtain d fmt1 where fmt: "fmt = d # fmt1" by (cases fmt) auto
    consider (d) "d = CHR ''d''" | (u) "d = CHR ''u''" | (x) "d = CHR ''x''" | (p) "d = CHR ''p''" | (s) "d = CHR ''s''"
      | (l) "d = CHR ''l''" | (other) "d \<notin> {CHR ''d'', CHR ''u'', CHR ''x'', CHR ''p'', CHR ''s'', CHR ''l''}" by blast
    then show ?thesis
    proof cases
      case d
      with hyp c fmt obtain w as where a: "args = VaWord w # as" "sint (ucast w :: u32) \<noteq> - (2 ^ 31)" "renderable fmt1 as"
        by (auto split: list.splits va_arg.splits)
      with IH [of fmt1 as] fmt obtain cs where "renders fmt1 as cs" by auto
      with a c d fmt Cons show ?thesis by (blast intro: renders.Int)
    next
      case u
      with hyp c fmt obtain w as where a: "args = VaWord w # as" "renderable fmt1 as"
        by (auto split: list.splits va_arg.splits)
      with IH [of fmt1 as] fmt obtain cs where "renders fmt1 as cs" by auto
      with a c u fmt Cons show ?thesis by (blast intro: renders.Unsigned)
    next
      case x
      with hyp c fmt obtain w as where a: "args = VaWord w # as" "renderable fmt1 as"
        by (auto split: list.splits va_arg.splits)
      with IH [of fmt1 as] fmt obtain cs where "renders fmt1 as cs" by auto
      with a c x fmt Cons show ?thesis by (blast intro: renders.Hex)
    next
      case p
      with hyp c fmt obtain w as where a: "args = VaWord w # as" "renderable fmt1 as"
        by (auto split: list.splits va_arg.splits)
      with IH [of fmt1 as] fmt obtain cs where "renders fmt1 as cs" by auto
      with a c p fmt Cons show ?thesis by (blast intro: renders.Pointer)
    next
      case s
      with hyp c fmt obtain str as where a: "args = VaStr str # as" "CHR 0x00 \<notin> set str" "renderable fmt1 as"
        by (auto split: list.splits va_arg.splits)
      with IH [of fmt1 as] fmt obtain cs where "renders fmt1 as cs" by auto
      with a c s fmt Cons show ?thesis by (blast intro: renders.String)
    next
      case l
      with hyp c fmt obtain e fmt2 w as where
        a: "fmt1 = e # fmt2" "e = CHR ''u'' \<or> e = CHR ''x''" "args = VaWord w # as" "renderable fmt2 as"
        by (auto split: list.splits va_arg.splits)
      with IH [of fmt2 as] fmt obtain cs where "renders fmt2 as cs" by auto
      with a c l fmt Cons show ?thesis by (blast intro: renders.Long_unsigned renders.Long_hex)
    next
      case other
      with hyp c fmt have d: "renderable fmt1 args" "d \<notin> {CHR ''c'', CHR 0x00}" by auto
      with IH [of fmt1 args] fmt obtain cs where "renders fmt1 args cs" by auto
      with d c other fmt Cons show ?thesis by (auto intro: renders.Unknown)
    qed
  qed
  qed
qed

lemma sint_least: "sint (w :: u32) = - (2 ^ 31) \<longleftrightarrow> w = 0x80000000"
proof
  assume "sint w = - (2 ^ 31)"
  moreover have "word_of_int (sint w) = w" by simp
  ultimately show "w = 0x80000000" by simp
qed simp

section \<open>Messages\<close>

definition logs :: "'a vga_scheme \<Rightarrow> 'a vga_scheme \<Rightarrow> bool" where
  "logs s t \<longleftrightarrow> vga_ok t \<and> uart_drains (device t) \<and> device t = device s \<and> current_color t = current_color s
     \<and> vga.more t = vga.more s \<and> (\<forall>a. outside_screen a \<longrightarrow> ram t a = ram s a)"

lemma logs_refl: "vga_ok s \<Longrightarrow> uart_drains (device s) \<Longrightarrow> logs s s"
  by (simp add: logs_def)

lemma logs_trans: "logs s t \<Longrightarrow> logs t u \<Longrightarrow> logs s u"
  unfolding logs_def by metis

lemma vga_printf_logs:
  assumes "renderable fmt args" "vga_ok s" "uart_drains (device s)"
  shows "runs (vga_printf s fmt args) (logs s)"
proof -
  obtain cs where "renders fmt args cs" using renderable_renders [OF assms(1)] by blast
  then obtain t where t: "vga_printf s fmt args = ret t" "prints s t cs"
    using vga_printf_prints_aux assms(2,3) by blast
  have "logs s t"
    using prints_ok [OF t(2) assms(2)] vga_type_ok [OF assms(2), of cs] t(2) assms(3)
    by (auto simp: logs_def prints_def sends_def only_screen_def)
  with t(1) show ?thesis by (simp add: runs_def)
qed

text \<open>The rule for a message in the middle of a run.\<close>

lemma runs_log:
  assumes "logs s0 s" "renderable fmt args" "\<And>t. logs s0 t \<Longrightarrow> runs (f t) Q"
  shows "runs (seq (vga_printf s fmt args) f) Q"
  using vga_printf_logs [OF assms(2), of s] assms(1,3) logs_trans [OF assms(1)]
  by (auto simp: runs_def logs_def [of s0 s])

end
