(* ===== verification/Cxxabi.thy ===== *)
theory Cxxabi
  imports Logging
begin

text \<open>
  The C++ run-time support, \<open>src/libcxx/src/cxxabi.cpp\<close>: the constructors of static objects, the table of destructors,
  the guards of local static objects, \<open>type_info\<close> and the entry points that do nothing. The constructors and
  destructors themselves are reached through pointers: the argument \<open>call\<close> of the definitions says what a call does.
\<close>

section \<open>Constructors of static objects\<close>

partial_function (option) ctor_loop ::
  "(addr \<Rightarrow> 'a machine_scheme \<Rightarrow> 'a machine_scheme exec) \<Rightarrow> addr \<Rightarrow> addr \<Rightarrow> 'a machine_scheme \<Rightarrow> 'a machine_scheme exec" where
  "ctor_loop call f init_array_end s =
     (if f < init_array_end
      then seq (call (read64 (ram s) f) s) (\<lambda>s. ctor_loop call (f + 8) init_array_end s)
      else ret s)"

definition cpp_init ::
  "(addr \<Rightarrow> 'a machine_scheme \<Rightarrow> 'a machine_scheme exec) \<Rightarrow> addr \<Rightarrow> addr \<Rightarrow> 'a machine_scheme \<Rightarrow> 'a machine_scheme exec" where
  "cpp_init call init_array_start init_array_end s = ctor_loop call init_array_start init_array_end s"

section \<open>Entry points that do nothing\<close>

definition cxa_pure_virtual :: "'s \<Rightarrow> 's" where "cxa_pure_virtual s = s"
definition cxa_rethrow :: "'s \<Rightarrow> 's" where "cxa_rethrow s = s"
definition Unwind_Resume :: "'s \<Rightarrow> 's" where "Unwind_Resume s = s"
definition cxa_begin_catch :: "'s \<Rightarrow> 's" where "cxa_begin_catch s = s"
definition cxa_end_catch :: "'s \<Rightarrow> 's" where "cxa_end_catch s = s"
definition gxx_personality_v0 :: "'s \<Rightarrow> 's" where "gxx_personality_v0 s = s"
definition operator_delete :: "addr \<Rightarrow> 's \<Rightarrow> 's" where "operator_delete ptr s = s"
definition operator_delete_sized :: "addr \<Rightarrow> u64 \<Rightarrow> 's \<Rightarrow> 's" where "operator_delete_sized ptr n s = s"
definition operator_delete_array :: "addr \<Rightarrow> 's \<Rightarrow> 's" where "operator_delete_array ptr s = operator_delete ptr s"
definition operator_delete_array_sized :: "addr \<Rightarrow> u64 \<Rightarrow> 's \<Rightarrow> 's" where
  "operator_delete_array_sized ptr n s = operator_delete ptr s"

section \<open>The table of destructors\<close>

definition ATEXIT_MAX_FUNCS :: nat where "ATEXIT_MAX_FUNCS = 128"

record atexit_func_entry_t =
  destructor_func :: addr
  obj_ptr :: addr
  dso_handle :: addr

record cxx = machine +
  atexit_funcs :: "atexit_func_entry_t list"
  atexit_func_count :: u32

text \<open>The body of \<open>__cxa_atexit\<close> is commented out.\<close>

definition cxa_atexit :: "addr \<Rightarrow> addr \<Rightarrow> addr \<Rightarrow> 'a cxx_scheme \<Rightarrow> u32 \<times> 'a cxx_scheme" where
  "cxa_atexit f objptr dso s = (0, s)"

definition aeabi_atexit :: "addr \<Rightarrow> addr \<Rightarrow> addr \<Rightarrow> 'a cxx_scheme \<Rightarrow> u32 \<times> 'a cxx_scheme" where
  "aeabi_atexit f objptr dso s =
     (if unat (atexit_func_count s) \<ge> ATEXIT_MAX_FUNCS then (- 1, s)
      else (0, s\<lparr>atexit_funcs := (atexit_funcs s)[unat (atexit_func_count s) :=
                    \<lparr>destructor_func = f, obj_ptr = objptr, dso_handle = dso\<rparr>],
                 atexit_func_count := atexit_func_count s + 1\<rparr>))"

fun finalize_all ::
  "(addr \<Rightarrow> addr \<Rightarrow> 'a cxx_scheme \<Rightarrow> 'a cxx_scheme exec) \<Rightarrow> nat \<Rightarrow> 'a cxx_scheme \<Rightarrow> 'a cxx_scheme exec" where
  "finalize_all call 0 s = ret s"
| "finalize_all call (Suc i) s =
     (if i \<ge> ATEXIT_MAX_FUNCS then fail Out_of_bounds
      else if destructor_func (atexit_funcs s ! i) \<noteq> 0
      then seq (call (destructor_func (atexit_funcs s ! i)) (obj_ptr (atexit_funcs s ! i)) s) (finalize_all call i)
      else finalize_all call i s)"

fun finalize_one ::
  "(addr \<Rightarrow> addr \<Rightarrow> 'a cxx_scheme \<Rightarrow> 'a cxx_scheme exec) \<Rightarrow> addr \<Rightarrow> nat \<Rightarrow> 'a cxx_scheme \<Rightarrow> 'a cxx_scheme exec" where
  "finalize_one call f 0 s = ret s"
| "finalize_one call f (Suc i) s =
     (if i \<ge> ATEXIT_MAX_FUNCS then fail Out_of_bounds
      else if destructor_func (atexit_funcs s ! i) = f
      then seq (call (destructor_func (atexit_funcs s ! i)) (obj_ptr (atexit_funcs s ! i)) s) (\<lambda>s.
           finalize_one call f i
             (s\<lparr>atexit_funcs := (atexit_funcs s)[i := (atexit_funcs s ! i)\<lparr>destructor_func := 0\<rparr>]\<rparr>))
      else finalize_one call f i s)"

definition cxa_finalize ::
  "(addr \<Rightarrow> addr \<Rightarrow> 'a cxx_scheme \<Rightarrow> 'a cxx_scheme exec) \<Rightarrow> addr \<Rightarrow> 'a cxx_scheme \<Rightarrow> 'a cxx_scheme exec" where
  "cxa_finalize call f s =
     (let i = unat (atexit_func_count s)
      in if f = 0 then finalize_all call i s else finalize_one call f i s)"

section \<open>Guards of local static objects\<close>

definition cxa_guard_acquire :: "addr \<Rightarrow> 'a machine_scheme \<Rightarrow> u32" where
  "cxa_guard_acquire g s = (if ram s g = 0 then 1 else 0)"

definition cxa_guard_release :: "addr \<Rightarrow> 'a machine_scheme \<Rightarrow> 'a machine_scheme" where
  "cxa_guard_release g s = s\<lparr>ram := write8 (ram s) g 1\<rparr>"

definition cxa_guard_abort :: "addr \<Rightarrow> 'a machine_scheme \<Rightarrow> 'a machine_scheme" where
  "cxa_guard_abort g s = s"

section \<open>Type information\<close>

text \<open>The name is a pointer to a string; two types are equal if the pointers are.\<close>

record type_info =
  tname :: addr

definition new_type_info :: "addr \<Rightarrow> type_info" where "new_type_info pname = \<lparr>tname = pname\<rparr>"
definition copy_type_info :: "type_info \<Rightarrow> type_info" where "copy_type_info t = \<lparr>tname = tname t\<rparr>"
definition type_info_name :: "type_info \<Rightarrow> addr" where "type_info_name t = tname t"
definition type_info_eq :: "type_info \<Rightarrow> type_info \<Rightarrow> bool" where "type_info_eq a b \<longleftrightarrow> tname a = tname b"
definition type_info_neq :: "type_info \<Rightarrow> type_info \<Rightarrow> bool" where "type_info_neq a b \<longleftrightarrow> tname a \<noteq> tname b"

end
