(* ===== verification/Boot.thy ===== *)
theory Boot
  imports Kernel Cxxabi
begin

text \<open>
  The way from the boot loader to the kernel, \<open>src/platform/x86_64/boot/boot.S\<close>: the multiboot header, the page tables,
  the descriptor table with the descriptors of \<open>gdt.h\<close>, the switch to long mode and the call of \<open>kernel_main\<close>. A machine is a
  pair of the control state of the processor, a record of its own, and the machine of the kernel. The addresses the linker
  gives the symbols of the file are a record. The translation of addresses by the processor, as the page tables of
  the boot code lead it, is a function of the memory.
\<close>

section \<open>Multiboot header\<close>

definition MULTIBOOT2_HEADER_MAGIC :: u32 where "MULTIBOOT2_HEADER_MAGIC = 0xe85250d6"
definition MULTIBOOT_ARCHITECTURE_I386 :: u32 where "MULTIBOOT_ARCHITECTURE_I386 = 0"
definition HEADER_LENGTH :: u32 where "HEADER_LENGTH = 4 + 4 + 4 + 4 + 2 + 2 + 4"

definition CHECKSUM :: u32 where
  "CHECKSUM = - (MULTIBOOT2_HEADER_MAGIC + MULTIBOOT_ARCHITECTURE_I386 + HEADER_LENGTH)"

definition multiboot_header :: "u8 list" where
  "multiboot_header = le_bytes 4 (unat MULTIBOOT2_HEADER_MAGIC) @ le_bytes 4 (unat MULTIBOOT_ARCHITECTURE_I386)
     @ le_bytes 4 (unat HEADER_LENGTH) @ le_bytes 4 (unat CHECKSUM) @ le_bytes 2 0 @ le_bytes 2 0 @ le_bytes 4 8"

section \<open>Segment descriptors\<close>

text \<open>The bit fields of a descriptor, from its eight bytes.\<close>

record gdt_entry_t =
  limit1 :: "16 word"
  base_addr1 :: "16 word"
  base_addr2 :: "8 word"
  seg_type :: "4 word"
  seg_s :: "1 word"
  seg_dpl :: "2 word"
  seg_p :: "1 word"
  limit2 :: "4 word"
  seg_avl :: "1 word"
  seg_l :: "1 word"
  seg_db :: "1 word"
  seg_g :: "1 word"
  base_addr3 :: "8 word"

definition gdt_entry :: "u64 \<Rightarrow> gdt_entry_t" where
  "gdt_entry v = \<lparr>limit1 = ucast v, base_addr1 = ucast (drop_bit 16 v), base_addr2 = ucast (drop_bit 32 v),
     seg_type = ucast (drop_bit 40 v), seg_s = ucast (drop_bit 44 v), seg_dpl = ucast (drop_bit 45 v),
     seg_p = ucast (drop_bit 47 v), limit2 = ucast (drop_bit 48 v), seg_avl = ucast (drop_bit 52 v),
     seg_l = ucast (drop_bit 53 v), seg_db = ucast (drop_bit 54 v), seg_g = ucast (drop_bit 55 v),
     base_addr3 = ucast (drop_bit 56 v)\<rparr>"

definition GDT_LENGTH :: u32 where "GDT_LENGTH = 5"
definition GDT_KERNEL_CODE :: u32 where "GDT_KERNEL_CODE = 1"
definition GDT_KERNEL_DATA :: u32 where "GDT_KERNEL_DATA = 2"
definition GDT_USER_CODE :: u32 where "GDT_USER_CODE = 3"
definition GDT_USER_DATA :: u32 where "GDT_USER_DATA = 4"
definition SEG_KERNEL_CODE :: u32 where "SEG_KERNEL_CODE = push_bit 3 GDT_KERNEL_CODE"
definition SEG_KERNEL_DATA :: u32 where "SEG_KERNEL_DATA = push_bit 3 GDT_KERNEL_DATA"
definition SEG_USER_CODE :: u32 where "SEG_USER_CODE = push_bit 3 GDT_USER_CODE"
definition SEG_USER_DATA :: u32 where "SEG_USER_DATA = push_bit 3 GDT_USER_DATA"
definition TYPE_DATA_READ_WRITE :: u32 where "TYPE_DATA_READ_WRITE = 0x02"
definition TYPE_CODE_EXECUTE_READ :: u32 where "TYPE_CODE_EXECUTE_READ = 0x0A"
definition S_CODE_DATA :: u32 where "S_CODE_DATA = 0x01"
definition L_64BIT :: u32 where "L_64BIT = 0x01"

text \<open>The table of the boot code: null, code, data, user code, user data.\<close>

definition gdt64_bytes :: "u8 list" where
  "gdt64_bytes = [0xFF, 0xFF, 0, 0, 0, 0, 0, 0,
     0, 0, 0, 0, 0, 0x9A, 0x20, 0,
     0, 0, 0, 0, 0, 0x92, 0, 0,
     0, 0, 0, 0, 0, 0xFA, 0x20, 0,
     0, 0, 0, 0, 0, 0xF2, 0, 0]"

section \<open>The processor\<close>

record boot_cpu =
  cr0 :: u64
  cr3 :: u64
  cr4 :: u64
  efer :: u64
  gdtr_limit :: u16
  gdtr_base :: u64
  seg_cs :: u16
  seg_ds :: u16
  seg_es :: u16
  seg_fs :: u16
  seg_gs :: u16
  seg_ss :: u16
  boot_rsp :: u64
  boot_rbp :: u64
  boot_if :: bool

text \<open>The symbols: the four page tables follow one another from \<open>pml4\<close>.\<close>

record boot_image =
  pml4 :: u32
  gdt64 :: u32
  stack_top :: u64

definition pdpt :: "boot_image \<Rightarrow> u32" where "pdpt bi = pml4 bi + 0x1000"
definition pd :: "boot_image \<Rightarrow> u32" where "pd bi = pml4 bi + 0x2000"
definition pt :: "boot_image \<Rightarrow> u32" where "pt bi = pml4 bi + 0x3000"

text \<open>The descriptor a selector picks from the table: inside the limit, and no local table.\<close>

definition descriptor :: "mem \<Rightarrow> boot_cpu \<Rightarrow> u16 \<Rightarrow> gdt_entry_t option" where
  "descriptor m c sel =
     (if sel AND 4 \<noteq> 0 \<or> unat (sel AND 0xFFF8) + 7 > unat (gdtr_limit c) then None
      else Some (gdt_entry (read64 m (gdtr_base c + ucast (sel AND 0xFFF8)))))"

text \<open>Paging in long mode with four levels; a set bit 7 of an entry of the middle levels is a large page.\<close>

definition canonical :: "addr \<Rightarrow> bool" where
  "canonical a \<longleftrightarrow> a < 0x800000000000 \<or> a \<ge> 0xFFFF800000000000"

definition frame_of :: "u64 \<Rightarrow> u64" where
  "frame_of e = e AND 0xFFFFFFFFFF000"

definition table_index :: "nat \<Rightarrow> addr \<Rightarrow> nat" where
  "table_index level a = unat a div 2 ^ (12 + 9 * level) mod 512"

fun walk :: "mem \<Rightarrow> nat \<Rightarrow> u64 \<Rightarrow> addr \<Rightarrow> addr option" where
  "walk m 0 e a = Some (frame_of e OR (a AND 0xFFF))"
| "walk m (Suc level) e a =
     (let e' = read64 m (frame_of e + 8 * of_nat (table_index level a)) in
      if \<not> bit e' 0 then None
      else if bit e' 7 \<and> 0 < level then
        (if level = 3 then None
         else Some ((frame_of e' AND NOT (mask (12 + 9 * level))) OR (a AND mask (12 + 9 * level))))
      else walk m level e' a)"

definition translate :: "mem \<Rightarrow> u64 \<Rightarrow> addr \<Rightarrow> addr option" where
  "translate m root a = (if canonical a then walk m 4 root a else None)"

section \<open>Page tables\<close>

definition store32 :: "mem \<Rightarrow> u32 \<Rightarrow> u32 \<Rightarrow> mem" where
  "store32 m a v = store_bytes m (ucast a) (le_bytes 4 (unat v))"

text \<open>The loop runs as often as \<open>%ecx\<close> says.\<close>

fun fill_pt :: "nat \<Rightarrow> u32 \<Rightarrow> u32 \<Rightarrow> mem \<Rightarrow> mem" where
  "fill_pt 0 ebx eax m = m"
| "fill_pt (Suc ecx) ebx eax m = fill_pt ecx (ebx + 0x1000) (eax + 8) (store32 m eax ebx)"

definition page_tables :: "boot_image \<Rightarrow> mem \<Rightarrow> mem" where
  "page_tables bi m =
     (let m = store32 m (pml4 bi) (pdpt bi OR 3);
          m = store32 m (pdpt bi) (pd bi OR 3);
          m = store32 m (pd bi) (pt bi OR 3)
      in fill_pt 512 0x3 (pt bi) m)"

section \<open>The entry points\<close>

definition boot_start :: "boot_image \<Rightarrow> u32 \<Rightarrow> u32 \<Rightarrow> boot_cpu \<times> 'a boot_scheme \<Rightarrow> boot_cpu \<times> 'a boot_scheme" where
  "boot_start bi eax ebx = (\<lambda>(c, s).
     let c = c\<lparr>boot_if := False\<rparr>;
         s = s\<lparr>boot_info_addr := (boot_info_addr s AND NOT 0xFFFFFFFF) OR ucast ebx\<rparr>;
         s = s\<lparr>multiboot2_magic := eax\<rparr>;
         c = c\<lparr>cr4 := cr4 c OR push_bit 5 1\<rparr>;
         s = s\<lparr>ram := page_tables bi (ram s)\<rparr>;
         c = c\<lparr>cr3 := ucast (pml4 bi)\<rparr>;
         c = c\<lparr>efer := efer c OR push_bit 8 1\<rparr>;
         c = c\<lparr>cr0 := cr0 c OR push_bit 31 1\<rparr>;
         c = c\<lparr>gdtr_limit := 39, gdtr_base := ucast (gdt64 bi)\<rparr>
     in (c\<lparr>seg_cs := 0x8\<rparr>, s))"

definition boot_start64 :: "boot_image \<Rightarrow> boot_cpu \<Rightarrow> boot_cpu" where
  "boot_start64 bi c =
     (let c = c\<lparr>gdtr_limit := 39, gdtr_base := ucast (gdt64 bi)\<rparr>;
          c = c\<lparr>seg_ds := 0x10, seg_es := 0x10, seg_fs := 0x10, seg_gs := 0x10, seg_ss := 0x10\<rparr>;
          c = c\<lparr>cr0 := (cr0 c AND NOT (push_bit 2 1)) OR push_bit 1 1\<rparr>;
          c = c\<lparr>cr4 := cr4 c OR push_bit 9 3\<rparr>;
          c = c\<lparr>boot_rsp := (stack_top bi + 4096 * 4) AND 0xFFFFFFFFFFFFF000\<rparr>
      in c\<lparr>boot_rbp := 0\<rparr>)"

text \<open>The state in which the C++ code starts, and the calls of the boot code; \<open>hlt\<close> and \<open>ret\<close> behind them are not reached, because
  \<open>kernel_main\<close> does not return.\<close>

definition handed_over :: "boot_image \<Rightarrow> u32 \<Rightarrow> u32 \<Rightarrow> boot_cpu \<times> 'a boot_scheme \<Rightarrow> boot_cpu \<times> 'a boot_scheme" where
  "handed_over bi eax ebx p = (let (c, s) = boot_start bi eax ebx p in (boot_start64 bi c, s))"

definition boot_kernel :: "boot_image \<Rightarrow> 'b machine_image_scheme \<Rightarrow> (addr \<Rightarrow> 'a intr_scheme \<Rightarrow> 'a intr_scheme exec) \<Rightarrow>
    addr \<Rightarrow> addr \<Rightarrow> u32 \<Rightarrow> u32 \<Rightarrow> boot_cpu \<times> 'a intr_scheme \<Rightarrow> unit exec" where
  "boot_kernel bi mi call init_start init_end eax ebx p =
     seq (cpp_init call init_start init_end (snd (handed_over bi eax ebx p))) (kernel_main mi)"

end
