(* ===== verification/Firstfit_Props.thy ===== *)
theory Firstfit_Props
  imports Firstfit
begin

text \<open>
  The first-fit allocator keeps the contract \<open>page_allocator\<close>: the bitmap as a set of pages, what the
  loops do to it, the search for the least free run, the interpretation, and the properties of
  the three operations.
\<close>

section \<open>The bitmap as a set of pages\<close>

definition used :: "FIRSTFIT \<Rightarrow> nat \<Rightarrow> bool" where
  "used ff j \<longleftrightarrow> bit (bitmap ff ! (j div 64)) (j mod 64)"

definition pages :: "FIRSTFIT \<Rightarrow> nat set" where
  "pages ff = {j. j < 32768 \<and> used ff j}"

lemma word_of_eq: "word_of idx = unat idx div 64"
  by (simp add: word_of_def SHIFT_def drop_bit_eq_div unat_div_distrib)

lemma bit_of_eq: "bit_of idx = push_bit (unat idx mod 64) 1"
proof -
  have "idx AND 0x3F = take_bit 6 idx" by (simp add: take_bit_eq_mask mask_eq_exp_minus_1)
  then have "unat (idx AND 0x3F) = unat idx mod 64" by (simp add: take_bit_eq_mod unat_mod_distrib)
  then show ?thesis by (simp add: bit_of_def MASK_def)
qed

lemma word_in_bitmap: "unat idx < 32768 \<Longrightarrow> word_of idx < 512"
  by (simp add: word_of_eq less_mult_imp_div_less)

lemma bit_pos_eq_iff: "i div 64 = j div 64 \<and> i mod 64 = j mod 64 \<longleftrightarrow> i = (j :: nat)"
  by (metis div_mult_mod_eq)

lemma ff_test_used:
  "length (bitmap ff) = 512 \<Longrightarrow> unat idx < 32768 \<Longrightarrow> ff_test ff idx = ret (used ff (unat idx))"
  by (simp add: ff_test_def word_in_bitmap used_def word_of_eq bit_of_eq
      bit_iff_and_push_bit_not_eq_0)

text \<open>\<open>changes ff t P\<close>: only the bitmap changed, and now exactly the pages in \<open>P\<close> are marked.\<close>

definition changes :: "FIRSTFIT \<Rightarrow> FIRSTFIT \<Rightarrow> (nat \<Rightarrow> bool) \<Rightarrow> bool" where
  "changes ff t P \<longleftrightarrow> t = ff\<lparr>bitmap := bitmap t\<rparr> \<and> length (bitmap t) = 512
     \<and> (\<forall>j < 32768. used t j = P j)"

lemma ff_set_changes:
  assumes "length (bitmap ff) = 512" "unat idx < 32768"
  shows "\<exists>t. ff_set ff idx = ret t \<and> changes ff t (\<lambda>j. j = unat idx \<or> used ff j)"
  using assms word_in_bitmap [OF assms(2)]
  by (auto simp: ff_set_def changes_def used_def word_of_eq bit_of_eq nth_list_update bit_or_iff
      bit_exp_iff dest: bit_pos_eq_iff [THEN iffD1, OF conjI])

lemma ff_clr_changes:
  assumes "length (bitmap ff) = 512" "unat idx < 32768"
  shows "\<exists>t. ff_clr ff idx = ret t \<and> changes ff t (\<lambda>j. j \<noteq> unat idx \<and> used ff j)"
  using assms word_in_bitmap [OF assms(2)]
  by (auto simp: ff_clr_def changes_def used_def word_of_eq bit_of_eq nth_list_update bit_and_iff bit_not_iff
      bit_exp_iff dest: bit_pos_eq_iff [THEN iffD1, OF conjI])

lemma changes_trans: "changes ff t P \<Longrightarrow> changes t u Q \<Longrightarrow> changes ff u Q"
  unfolding changes_def by (metis FIRSTFIT.update_convs(1) FIRSTFIT.surjective)

lemma changes_cong: "changes ff t P \<Longrightarrow> (\<And>j. j < 32768 \<Longrightarrow> P j = Q j) \<Longrightarrow> changes ff t Q"
  by (simp add: changes_def)

lemma changes_refl: "length (bitmap ff) = 512 \<Longrightarrow> changes ff ff (used ff)"
  by (simp add: changes_def)

lemma unat_Suc: "i < b \<Longrightarrow> unat (i + 1 :: u64) = Suc (unat i)"
  using unat_lt_64 [of b] unat_add_fits [of i 1] by (simp add: word_less_nat_alt)

lemma set_pages_changes:
  "length (bitmap ff) = 512 \<Longrightarrow> unat b \<le> 32768 \<Longrightarrow>
    \<exists>t. set_pages ff i b = ret t \<and> changes ff t (\<lambda>j. (unat i \<le> j \<and> j < unat b) \<or> used ff j)"
proof (induction ff i b rule: set_pages.induct)
  case (1 ff i b)
  show ?case
  proof (cases "i < b")
    case True
    then have "unat i < unat b" by (simp add: word_less_nat_alt)
    then obtain t where t: "ff_set ff i = ret t" "changes ff t (\<lambda>j. j = unat i \<or> used ff j)"
      using ff_set_changes [OF 1(2), of i] 1(3) by fastforce
    then have "length (bitmap t) = 512" by (simp add: changes_def)
    with 1 True t obtain u where u: "set_pages t (i + 1) b = ret u"
      "changes t u (\<lambda>j. (unat (i + 1) \<le> j \<and> j < unat b) \<or> used t j)"
      by blast
    have "changes ff u (\<lambda>j. (unat i \<le> j \<and> j < unat b) \<or> used ff j)"
      by (rule changes_cong [OF changes_trans [OF t(2) u(2)]])
        (use t(2) \<open>unat i < unat b\<close> in \<open>auto simp: changes_def unat_Suc [OF True]\<close>)
    with t u True show ?thesis by (subst set_pages.simps) simp
  next
    case False
    then have "changes ff ff (\<lambda>j. (unat i \<le> j \<and> j < unat b) \<or> used ff j)"
      using changes_refl [OF 1(2)] by (auto simp: word_less_nat_alt elim!: changes_cong)
    with False show ?thesis by (subst set_pages.simps) simp
  qed
qed

lemma clr_pages_changes:
  "length (bitmap ff) = 512 \<Longrightarrow> unat b \<le> 32768 \<Longrightarrow>
    \<exists>t. clr_pages ff i b = ret t \<and> changes ff t (\<lambda>j. \<not> (unat i \<le> j \<and> j < unat b) \<and> used ff j)"
proof (induction ff i b rule: clr_pages.induct)
  case (1 ff i b)
  show ?case
  proof (cases "i < b")
    case True
    then have "unat i < unat b" by (simp add: word_less_nat_alt)
    then obtain t where t: "ff_clr ff i = ret t" "changes ff t (\<lambda>j. j \<noteq> unat i \<and> used ff j)"
      using ff_clr_changes [OF 1(2), of i] 1(3) by fastforce
    then have "length (bitmap t) = 512" by (simp add: changes_def)
    with 1 True t obtain u where u: "clr_pages t (i + 1) b = ret u"
      "changes t u (\<lambda>j. \<not> (unat (i + 1) \<le> j \<and> j < unat b) \<and> used t j)"
      by blast
    have "changes ff u (\<lambda>j. \<not> (unat i \<le> j \<and> j < unat b) \<and> used ff j)"
      by (rule changes_cong [OF changes_trans [OF t(2) u(2)]])
        (use t(2) \<open>unat i < unat b\<close> in \<open>auto simp: changes_def unat_Suc [OF True]\<close>)
    with t u True show ?thesis by (subst clr_pages.simps) simp
  next
    case False
    then have "changes ff ff (\<lambda>j. \<not> (unat i \<le> j \<and> j < unat b) \<and> used ff j)"
      using changes_refl [OF 1(2)] by (auto simp: word_less_nat_alt elim!: changes_cong)
    with False show ?thesis by (subst clr_pages.simps) simp
  qed
qed

lemma any_used_spec:
  "length (bitmap ff) = 512 \<Longrightarrow> unat b \<le> 32768 \<Longrightarrow>
    any_used ff i b = ret (\<exists>j. unat i \<le> j \<and> j < unat b \<and> used ff j)"
proof (induction ff i b rule: any_used.induct)
  case (1 ff i b)
  show ?case
  proof (cases "i < b")
    case True
    then have ib: "unat i < unat b" by (simp add: word_less_nat_alt)
    then have test: "ff_test ff i = ret (used ff (unat i))" using ff_test_used 1 by simp
    show ?thesis
    proof (cases "used ff (unat i)")
      case used: True
      with True test ib show ?thesis by (subst any_used.simps) auto
    next
      case False
      have "(\<exists>j \<ge> Suc (unat i). j < unat b \<and> used ff j) = (\<exists>j \<ge> unat i. j < unat b \<and> used ff j)"
        using False by (metis Suc_leD Suc_leI le_neq_implies_less)
      with 1 True False test show ?thesis by (subst any_used.simps) (simp add: unat_Suc [OF True])
    qed
  qed (subst any_used.simps, auto simp: word_less_nat_alt)
qed

section \<open>The search\<close>

text \<open>A run of \<open>n\<close> pages of one value that ends within the managed range.\<close>

definition run_of :: "FIRSTFIT \<Rightarrow> bool \<Rightarrow> nat \<Rightarrow> nat \<Rightarrow> bool" where
  "run_of ff val n i \<longleftrightarrow> i + n \<le> min (unat (allocator_length ff)) 32768
     \<and> (\<forall>j. i \<le> j \<and> j < i + n \<longrightarrow> used ff j = val)"

text \<open>
  The outcome of the search: the least run in the part of the range the bitmap covers; if there is
  none, the answer \<open>~0\<close> when the bitmap covers the whole range and a read outside it otherwise.
\<close>

definition found :: "FIRSTFIT \<Rightarrow> bool \<Rightarrow> nat \<Rightarrow> u64 exec \<Rightarrow> bool" where
  "found ff val n res \<longleftrightarrow>
     (if \<exists>i. run_of ff val n i
      then \<exists>r. res = ret r \<and> run_of ff val n (unat r) \<and> (\<forall>i < unat r. \<not> run_of ff val n i)
      else if unat (allocator_length ff) \<le> 32768 then res = ret (NOT 0)
      else res = fail Out_of_bounds)"

lemma ff_test_outside: "length (bitmap ff) = 512 \<Longrightarrow> 32768 \<le> unat idx \<Longrightarrow> ff_test ff idx = fail Out_of_bounds"
  by (simp add: ff_test_def word_of_eq)

lemma find_len_loop_found:
  assumes "length (bitmap ff) = 512" "unat i \<le> min (unat (allocator_length ff)) 32768" "unat count < unat len"
    and "unat idx + unat count = unat i"
    and "\<And>j. unat idx \<le> j \<Longrightarrow> j < unat i \<Longrightarrow> used ff j = val"
    and "\<And>j. j < unat idx \<Longrightarrow> \<exists>k. j \<le> k \<and> k < j + unat len \<and> used ff k \<noteq> val"
  shows "found ff val (unat len) (find_len_loop ff len val i count idx)"
  using assms
proof (induction ff len val i count idx rule: find_len_loop.induct)
  case (1 ff len val i count idx)
  note prems = 1(2-)
  show ?case
  proof (cases "unat i < min (unat (allocator_length ff)) 32768")
    case False
    then have i: "unat i = min (unat (allocator_length ff)) 32768" using prems(2) by linarith
    have none: "\<not> run_of ff val (unat len) j" for j
    proof
      assume run: "run_of ff val (unat len) j"
      then have "j + unat len \<le> unat i" by (simp add: run_of_def i)
      then have "j < unat idx" using prems(3,4) by linarith
      with prems(6) run show False by (auto simp: run_of_def)
    qed
    show ?thesis
    proof (cases "unat (allocator_length ff) \<le> 32768")
      case True
      with i have "\<not> i < allocator_length ff" by (simp add: word_less_nat_alt)
      with none True show ?thesis by (subst find_len_loop.simps) (simp add: found_def)
    next
      case False
      with i have "i < allocator_length ff" "unat i = 32768" by (simp_all add: word_less_nat_alt)
      with none False prems(1) show ?thesis
        by (subst find_len_loop.simps) (simp add: found_def ff_test_outside)
    qed
  next
    case lt: True
    then have True: "i < allocator_length ff" by (simp add: word_less_nat_alt)
    have Suc_i: "unat (i + 1) = Suc (unat i)" by (rule unat_Suc [OF True])
    have test: "ff_test ff i = ret (used ff (unat i))" using ff_test_used prems(1) lt by simp
    show ?thesis
    proof (cases "used ff (unat i) = val")
      case False
      have "\<exists>k. j \<le> k \<and> k < j + unat len \<and> used ff k \<noteq> val" if "j < Suc (unat i)" for j
      proof (cases "j < unat idx")
        case False
        then have "unat i < j + unat len" using prems(3,4) by linarith
        with \<open>used ff (unat i) \<noteq> val\<close> that show ?thesis by (intro exI [of _ "unat i"]) auto
      qed (use prems(6) in blast)
      moreover have "len \<noteq> 0" using prems(3) by auto
      ultimately have "found ff val (unat len) (find_len_loop ff len val (i + 1) 0 (i + 1))"
        using 1(1) [OF True test, of "(0, i + 1)" 0 "i + 1"] False prems lt Suc_i
        by (simp add: unat_gt_0)
      with True test False \<open>len \<noteq> 0\<close> show ?thesis by (subst find_len_loop.simps) simp
    next
      case same: True
      have Suc_count: "unat (count + 1) = Suc (unat count)"
        using prems(3) by (intro unat_Suc [of _ len]) (simp add: word_less_nat_alt)
      show ?thesis
      proof (cases "count + 1 = len")
        case full: True
        then have len: "unat len = Suc (unat count)" using Suc_count by simp
        have "run_of ff val (unat len) (unat idx)"
          using prems(4,5) len lt same by (auto simp: run_of_def less_Suc_eq)
        moreover have "\<not> run_of ff val (unat len) j" if "j < unat idx" for j
          using prems(6) [OF that] by (auto simp: run_of_def)
        ultimately have "found ff val (unat len) (ret idx)" by (auto simp: found_def)
        with True test same full show ?thesis by (subst find_len_loop.simps) simp
      next
        case more: False
        then have "unat (count + 1) < unat len"
          using prems(3) Suc_count by (metis Suc_lessI word_unat_eq_iff)
        moreover have "used ff j = val" if "unat idx \<le> j" "j < Suc (unat i)" for j
          using that prems(5) same by (metis less_Suc_eq)
        ultimately have "found ff val (unat len) (find_len_loop ff len val (i + 1) (count + 1) idx)"
          using 1(1) [OF True test, of "(count + 1, idx)" "count + 1" idx] same more prems lt Suc_i Suc_count
          by simp
        with True test same more show ?thesis by (subst find_len_loop.simps) simp
      qed
    qed
  qed
qed

lemma find_len_found:
  "length (bitmap ff) = 512 \<Longrightarrow> 0 < len \<Longrightarrow> found ff val (unat len) (find_len ff len val)"
  unfolding find_len_def by (rule find_len_loop_found) (simp_all add: unat_gt_0 word_greater_zero_iff)

section \<open>The invariant\<close>

definition ff_pages :: "FIRSTFIT \<Rightarrow> nat" where
  "ff_pages ff = unat (allocator_length ff)"

definition ff_inv :: "FIRSTFIT \<Rightarrow> bool" where
  "ff_inv ff \<longleftrightarrow> length (bitmap ff) = 512 \<and> ff_pages ff \<le> 32768
     \<and> unat (allocator_start_addr ff) + 4096 * ff_pages ff < 2 ^ 64 \<and> allocator_start_addr ff \<noteq> 0
     \<and> pages ff \<subseteq> {..<ff_pages ff}
     \<and> unat (allocator_used_count ff) = card (pages ff)
     \<and> unat (allocator_free_count ff) = ff_pages ff - card (pages ff)"

lemma ff_invD:
  assumes "ff_inv ff"
  shows "length (bitmap ff) = 512" "unat (allocator_length ff) \<le> 32768"
    "unat (allocator_start_addr ff) + 4096 * ff_pages ff < 2 ^ 64"
    "pages ff \<subseteq> {..<ff_pages ff}" "unat (allocator_used_count ff) = card (pages ff)"
    "unat (allocator_free_count ff) = ff_pages ff - card (pages ff)" "allocator_start_addr ff \<noteq> 0"
  using assms by (auto simp: ff_inv_def ff_pages_def)

lemma pages_finite [simp, intro]: "finite (pages ff)"
  by (rule finite_subset [of _ "{..<32768}"]) (auto simp: pages_def)

lemma run_of_free:
  assumes "ff_inv ff"
  shows "run_of ff False n i \<longleftrightarrow> free_run (pages ff) (ff_pages ff) i n"
  using ff_invD(2) [OF assms]
  by (auto simp: run_of_def free_run_def pages_def page_run_def ff_pages_def)

text \<open>Marking free pages, or releasing held ones, with the counters that go with it.\<close>

lemma mark_inv:
  assumes inv: "ff_inv ff" and free: "free_run (pages ff) (ff_pages ff) i (unat n)"
    and t: "changes ff t (\<lambda>j. (i \<le> j \<and> j < i + unat n) \<or> used ff j)"
  shows "ff_inv (count_pages n t)" "pages (count_pages n t) = pages ff \<union> page_run i (unat n)"
    "allocator_start_addr (count_pages n t) = allocator_start_addr ff"
    "ff_pages (count_pages n t) = ff_pages ff"
proof -
  note D = ff_invD [OF inv]
  have i: "i + unat n \<le> ff_pages ff" "page_run i (unat n) \<inter> pages ff = {}"
    using free by (simp_all add: free_run_def)
  have t': "t = ff\<lparr>bitmap := bitmap t\<rparr>" "length (bitmap t) = 512"
    "\<And>j. j < 32768 \<Longrightarrow> used t j \<longleftrightarrow> (i \<le> j \<and> j < i + unat n) \<or> used ff j"
    using t unfolding changes_def by auto
  have fields: "allocator_start_addr t = allocator_start_addr ff" "allocator_length t = allocator_length ff"
    "allocator_used_count t = allocator_used_count ff" "allocator_free_count t = allocator_free_count ff"
    by (subst t'(1), simp)+
  have "pages t = pages ff \<union> page_run i (unat n)"
    using i(1) D(2) t'(3) by (auto simp: pages_def page_run_def ff_pages_def)
  then show pages: "pages (count_pages n t) = pages ff \<union> page_run i (unat n)"
    by (simp add: pages_def used_def count_pages_def)
  then have card: "card (pages (count_pages n t)) = card (pages ff) + unat n"
    using i(2) by (simp add: card_Un_disjoint Int_commute)
  have sub: "pages (count_pages n t) \<subseteq> {..<ff_pages ff}"
    using pages D(4) i(1) by (auto simp: page_run_def)
  have le: "card (pages ff) + unat n \<le> ff_pages ff"
    using card_mono [OF _ sub] card by simp
  have "unat (allocator_used_count ff + n) = card (pages ff) + unat n"
    using le D(2,5) by (intro trans [OF unat_add_lem [THEN iffD1]]) (simp_all add: ff_pages_def)
  moreover have "unat (allocator_free_count ff - n) = ff_pages ff - (card (pages ff) + unat n)"
    using le D(6) by (subst unat_sub) (simp_all add: word_le_nat_alt)
  ultimately show "ff_inv (count_pages n t)"
    using sub D(2,3,7) t'(2) card by (simp add: ff_inv_def ff_pages_def fields) (simp add: count_pages_def fields)
  show "allocator_start_addr (count_pages n t) = allocator_start_addr ff"
    "ff_pages (count_pages n t) = ff_pages ff"
    by (simp_all add: count_pages_def fields ff_pages_def)
qed

lemma release_inv:
  assumes inv: "ff_inv ff" and held: "page_run i (unat n) \<subseteq> pages ff"
    and t: "changes ff t (\<lambda>j. \<not> (i \<le> j \<and> j < i + unat n) \<and> used ff j)"
  shows "ff_inv (count_pages (- n) t)" "pages (count_pages (- n) t) = pages ff - page_run i (unat n)"
    "allocator_start_addr (count_pages (- n) t) = allocator_start_addr ff"
    "ff_pages (count_pages (- n) t) = ff_pages ff"
proof -
  note D = ff_invD [OF inv]
  have t': "t = ff\<lparr>bitmap := bitmap t\<rparr>" "length (bitmap t) = 512"
    "\<And>j. j < 32768 \<Longrightarrow> used t j \<longleftrightarrow> \<not> (i \<le> j \<and> j < i + unat n) \<and> used ff j"
    using t unfolding changes_def by auto
  have fields: "allocator_start_addr t = allocator_start_addr ff" "allocator_length t = allocator_length ff"
    "allocator_used_count t = allocator_used_count ff" "allocator_free_count t = allocator_free_count ff"
    by (subst t'(1), simp)+
  have "pages t = pages ff - page_run i (unat n)"
    using t'(3) by (auto simp: pages_def page_run_def)
  then show pages: "pages (count_pages (- n) t) = pages ff - page_run i (unat n)"
    by (simp add: pages_def used_def count_pages_def)
  then have card: "card (pages (count_pages (- n) t)) = card (pages ff) - unat n"
    using held by (simp add: card_Diff_subset)
  have sub: "pages (count_pages (- n) t) \<subseteq> {..<ff_pages ff}" using pages D(4) by auto
  have n: "unat n \<le> card (pages ff)" using card_mono [OF pages_finite held] by simp
  have le: "card (pages ff) \<le> ff_pages ff" using card_mono [OF _ D(4)] by simp
  have "unat (allocator_used_count ff - n) = card (pages ff) - unat n"
    using n D(5) by (subst unat_sub) (simp_all add: word_le_nat_alt)
  moreover have "unat (allocator_free_count ff + n) = ff_pages ff - (card (pages ff) - unat n)"
    using le n D(2,6) by (intro trans [OF unat_add_lem [THEN iffD1]]) (simp_all add: ff_pages_def)
  ultimately show "ff_inv (count_pages (- n) t)"
    using sub D(2,3,7) t'(2) card by (simp add: ff_inv_def ff_pages_def fields) (simp add: count_pages_def fields)
  show "allocator_start_addr (count_pages (- n) t) = allocator_start_addr ff"
    "ff_pages (count_pages (- n) t) = ff_pages ff"
    by (simp_all add: count_pages_def fields ff_pages_def)
qed

section \<open>The operations\<close>

lemma run_end:
  "i + unat n \<le> k \<Longrightarrow> k \<le> 32768 \<Longrightarrow> unat (of_nat i + n :: u64) = i + unat n \<and> unat (of_nat i :: u64) = i"
  using unat_add_fits [of n i] by (simp add: unat_of_nat_64 add.commute)

lemma page_index:
  assumes "ff_inv ff" "i < ff_pages ff"
  shows "\<not> out_of_range ff (page_addr (allocator_start_addr ff) i)"
    "(page_addr (allocator_start_addr ff) i - allocator_start_addr ff) div PAGE_SIZE = of_nat i"
proof -
  note D = ff_invD [OF assms(1)]
  let ?b = "allocator_start_addr ff"
  have m: "unat (4096 * of_nat k :: u64) = 4096 * k" if "k \<le> ff_pages ff" for k
  proof -
    have "(4096 * of_nat k :: u64) = of_nat (4096 * k)" by simp
    moreover have "unat (of_nat (4096 * k) :: u64) = 4096 * k"
      using that D(2) by (intro unat_of_nat_64) (simp add: ff_pages_def)
    ultimately show ?thesis by simp
  qed
  have plus: "unat (?b + 4096 * of_nat k) = unat ?b + 4096 * k" if "k \<le> ff_pages ff" for k
  proof -
    have "4096 * k \<le> 4096 * ff_pages ff" using that by simp
    then have "unat ?b + 4096 * k < 2 ^ 64" using D(3) by linarith
    then show ?thesis using unat_add_fits [of ?b "4096 * k"] by simp
  qed
  have bound: "unat (?b + allocator_length ff * PAGE_SIZE) = unat ?b + 4096 * ff_pages ff"
    using plus [of "ff_pages ff"] by (simp add: ff_pages_def mult.commute)
  show "\<not> out_of_range ff (page_addr ?b i)"
    using assms(2) bound plus [of i]
    by (simp add: out_of_range_def page_addr_def word_less_nat_alt word_le_nat_alt del: PAGE_SIZE_val)
  have "unat ((page_addr ?b i - ?b) div PAGE_SIZE) = i"
    using m [of i] assms(2) by (simp add: page_addr_def unat_div_distrib)
  then show "(page_addr ?b i - ?b) div PAGE_SIZE = of_nat i" by (metis of_nat_unat_64)
qed

lemma ff_alloc_step:
  assumes inv: "ff_inv ff" and n: "0 < n"
  shows "\<exists>a t. ff_alloc ff n = ret (a, t) \<and> ff_inv t
    \<and> allocator_start_addr t = allocator_start_addr ff \<and> ff_pages t = ff_pages ff
    \<and> (if \<exists>i. free_run (pages ff) (ff_pages ff) i (unat n)
       then \<exists>i. free_run (pages ff) (ff_pages ff) i (unat n)
          \<and> (\<forall>j < i. \<not> free_run (pages ff) (ff_pages ff) j (unat n))
          \<and> a = page_addr (allocator_start_addr ff) i \<and> pages t = pages ff \<union> page_run i (unat n)
       else a = 0 \<and> t = ff)"
proof -
  note D = ff_invD [OF inv]
  note r = find_len_found [OF D(1) n, of False]
  show ?thesis
  proof (cases "\<exists>i. free_run (pages ff) (ff_pages ff) i (unat n)")
    case False
    then have "find_len ff n False = ret (NOT 0)"
      using r D(2) by (simp add: found_def run_of_free [OF inv])
    with False inv show ?thesis by (simp add: ff_alloc_def)
  next
    case True
    then obtain r where r': "find_len ff n False = ret r" "free_run (pages ff) (ff_pages ff) (unat r) (unat n)"
      "\<forall>j < unat r. \<not> free_run (pages ff) (ff_pages ff) j (unat n)"
      using r by (auto simp: found_def run_of_free [OF inv])
    define i where "i = unat r"
    have i: "free_run (pages ff) (ff_pages ff) i (unat n)" "\<forall>j < i. \<not> free_run (pages ff) (ff_pages ff) j (unat n)"
      using r' by (simp_all add: i_def)
    have le: "i + unat n \<le> ff_pages ff" using i(1) by (simp add: free_run_def)
    have r_i: "r = of_nat i" by (simp add: i_def)
    have bound: "unat (r + n) = i + unat n" "unat r = i"
      using run_end [OF le] D(2) by (simp_all add: r_i ff_pages_def)
    have "r \<noteq> NOT 0"
    proof
      assume "r = NOT 0"
      then have "unat r = 2 ^ 64 - 1" by (simp add: unsigned_minus_1_eq_mask mask_eq_exp_minus_1)
      with bound le D(2) show False by (simp add: ff_pages_def)
    qed
    obtain t where t: "set_pages ff r (r + n) = ret t"
      "changes ff t (\<lambda>j. (i \<le> j \<and> j < i + unat n) \<or> used ff j)"
      using set_pages_changes [OF D(1), of "r + n" r] le D(2) by (auto simp: bound ff_pages_def)
    have "allocator_start_addr t = allocator_start_addr ff"
      using t(2) unfolding changes_def by (metis FIRSTFIT.select_convs FIRSTFIT.surjective ALLOCATOR.select_convs(2) FIRSTFIT.update_convs(1))
    then have "ff_alloc ff n = ret (page_addr (allocator_start_addr ff) i, count_pages n t)"
      using r'(1) t(1) \<open>r \<noteq> NOT 0\<close> by (simp add: ff_alloc_def page_addr_def r_i)
    with True i mark_inv [OF inv i(1) t(2)] show ?thesis by auto
  qed
qed

lemma ff_alloc_at_step:
  assumes inv: "ff_inv ff" and i: "i < ff_pages ff" "i + unat n \<le> ff_pages ff"
  shows "\<exists>t. ff_alloc_at ff (page_addr (allocator_start_addr ff) i) n
      = ret (free_run (pages ff) (ff_pages ff) i (unat n), t) \<and> ff_inv t
    \<and> allocator_start_addr t = allocator_start_addr ff \<and> ff_pages t = ff_pages ff
    \<and> (if free_run (pages ff) (ff_pages ff) i (unat n) then pages t = pages ff \<union> page_run i (unat n) else t = ff)"
proof -
  note D = ff_invD [OF inv] and P = page_index [OF inv i(1)]
  have bound: "unat (of_nat i + n) = i + unat n" "unat (of_nat i :: u64) = i"
    using run_end [OF i(2)] D(2) by (simp_all add: ff_pages_def)
  have le: "i + unat n \<le> 32768" using i(2) D(2) by (simp add: ff_pages_def)
  have any: "any_used ff (of_nat i) (of_nat i + n) = ret (\<not> free_run (pages ff) (ff_pages ff) i (unat n))"
    using any_used_spec [OF D(1), of "of_nat i + n" "of_nat i"] le i(2)
    by (auto simp: bound free_run_def pages_def page_run_def)
  show ?thesis
  proof (cases "free_run (pages ff) (ff_pages ff) i (unat n)")
    case True
    obtain t where t: "set_pages ff (of_nat i) (of_nat i + n) = ret t"
      "changes ff t (\<lambda>j. (i \<le> j \<and> j < i + unat n) \<or> used ff j)"
      using set_pages_changes [OF D(1), of "of_nat i + n" "of_nat i"] le by (auto simp: bound)
    have "ff_alloc_at ff (page_addr (allocator_start_addr ff) i) n = ret (True, count_pages n t)"
      using P t(1) any True by (simp add: ff_alloc_at_def del: PAGE_SIZE_val)
    with True mark_inv [OF inv True t(2)] show ?thesis by auto
  next
    case False
    with P any inv show ?thesis by (simp add: ff_alloc_at_def del: PAGE_SIZE_val)
  qed
qed

lemma ff_free_count:
  "ff_free ff a n = (if out_of_range ff a then ret ff
     else let idx = (a - allocator_start_addr ff) div PAGE_SIZE
          in seq (clr_pages ff idx (idx + n)) (\<lambda>t. ret (count_pages (- n) t)))"
  by (simp add: ff_free_def count_pages_def)

lemma ff_free_step:
  assumes inv: "ff_inv ff" and i: "i < ff_pages ff" and held: "page_run i (unat n) \<subseteq> pages ff"
  shows "\<exists>t. ff_free ff (page_addr (allocator_start_addr ff) i) n = ret t \<and> ff_inv t
    \<and> allocator_start_addr t = allocator_start_addr ff \<and> ff_pages t = ff_pages ff
    \<and> pages t = pages ff - page_run i (unat n)"
proof -
  note D = ff_invD [OF inv] and P = page_index [OF inv i(1)]
  have "i + unat n \<le> ff_pages ff"
  proof (cases "unat n = 0")
    case False
    then have "i + unat n - 1 \<in> page_run i (unat n)" by (simp add: page_run_def)
    with held D(4) have "i + unat n - 1 < ff_pages ff" by blast
    with False show ?thesis by simp
  qed (use i in simp)
  then have bound: "unat (of_nat i + n) = i + unat n" "unat (of_nat i :: u64) = i" "i + unat n \<le> 32768"
    using run_end [of i n "ff_pages ff"] D(2) by (simp_all add: ff_pages_def)
  obtain t where t: "clr_pages ff (of_nat i) (of_nat i + n) = ret t"
    "changes ff t (\<lambda>j. \<not> (i \<le> j \<and> j < i + unat n) \<and> used ff j)"
    using clr_pages_changes [OF D(1), of "of_nat i + n" "of_nat i"] bound by auto
  have "ff_free ff (page_addr (allocator_start_addr ff) i) n = ret (count_pages (- n) t)"
    using P t(1) by (simp add: ff_free_count del: PAGE_SIZE_val)
  with release_inv [OF inv held t(2)] show ?thesis by auto
qed

text \<open>The contract of the abstract class holds for \<open>FIRSTFIT\<close>.\<close>

interpretation ff: page_allocator ff_inv pages allocator_start_addr ff_pages
  ff_alloc ff_alloc_at ff_free ff_get_used_count ff_get_free_count
proof unfold_locales
  fix s n assume "ff_inv s" "0 < (n :: u64)"
  from ff_alloc_step [OF this] show "\<exists>a t. ff_alloc s n = ret (a, t) \<and> ff_inv t
      \<and> allocator_start_addr t = allocator_start_addr s \<and> ff_pages t = ff_pages s
      \<and> (if \<exists>i. free_run (pages s) (ff_pages s) i (unat n)
         then \<exists>i. free_run (pages s) (ff_pages s) i (unat n) \<and> a = page_addr (allocator_start_addr s) i
            \<and> pages t = pages s \<union> page_run i (unat n)
         else a = 0 \<and> t = s)"
    by (auto split: if_splits)
next
  fix s i n assume "ff_inv s" "i < ff_pages s" "i + unat (n :: u64) \<le> ff_pages s"
  then show "\<exists>t. ff_alloc_at s (page_addr (allocator_start_addr s) i) n
        = ret (free_run (pages s) (ff_pages s) i (unat n), t) \<and> ff_inv t
      \<and> allocator_start_addr t = allocator_start_addr s \<and> ff_pages t = ff_pages s
      \<and> (if free_run (pages s) (ff_pages s) i (unat n) then pages t = pages s \<union> page_run i (unat n) else t = s)"
    by (rule ff_alloc_at_step)
next
  fix s i n assume "ff_inv s" "i < ff_pages s" "page_run i (unat (n :: u64)) \<subseteq> pages s"
  then show "\<exists>t. ff_free s (page_addr (allocator_start_addr s) i) n = ret t \<and> ff_inv t
      \<and> allocator_start_addr t = allocator_start_addr s \<and> ff_pages t = ff_pages s
      \<and> pages t = pages s - page_run i (unat n)"
    by (rule ff_free_step)
qed (auto simp: ff_inv_def fits_def ff_get_used_count_def ff_get_free_count_def)

end
