(* ===== verification/Firstfit_Claims.thy ===== *)
theory Firstfit_Claims
  imports Firstfit_Props Vga_Printf
begin

text \<open>
  The properties of the first-fit allocator: the search, allocation and release with their exact
  effect, what clients may do with it, and the calls that go wrong.
\<close>

section \<open>Concrete allocators\<close>

definition fresh :: "u64 \<Rightarrow> FIRSTFIT" where
  "fresh len = \<lparr>tag = ''t'', allocator_start_addr = 0x100000, allocator_length = len,
     allocator_free_count = len, allocator_used_count = 0, bitmap = replicate 512 0\<rparr>"

lemma pages_zero: "bitmap ff = replicate 512 0 \<Longrightarrow> pages ff = {}"
  by (auto simp: pages_def used_def less_mult_imp_div_less)

lemma fresh_simps [simp]:
  "allocator_length (fresh len) = len" "allocator_start_addr (fresh len) = 0x100000"
  "ff_pages (fresh len) = unat len" "pages (fresh len) = {}"
  by (simp_all add: fresh_def ff_pages_def pages_zero)

lemma fresh_inv: "unat len \<le> 32768 \<Longrightarrow> ff_inv (fresh len)"
  unfolding ff_inv_def by (simp add: fresh_def ff_pages_def pages_zero)

section \<open>Properties\<close>

text \<open>C16: \<open>find_len\<close> returns the least index at which \<open>len\<close> consecutive bits of the managed range have
  the value. If there is none it returns \<open>~0\<close> for a range of at most 32768 pages; for a longer range,
  which the constructor accepts, it reads outside the bitmap.\<close>

theorem find_len_least:
  assumes "length (bitmap ff) = 512" "0 < len"
  shows "if \<exists>i. run_of ff val (unat len) i
    then \<exists>r. find_len ff len val = ret r
      \<and> run_of ff val (unat len) (unat r) \<and> (\<forall>i < unat r. \<not> run_of ff val (unat len) i)
    else if unat (allocator_length ff) \<le> 32768 then find_len ff len val = ret (NOT 0)
    else find_len ff len val = fail Out_of_bounds"
  using find_len_found [OF assms] by (simp only: found_def)

theorem find_len_least_witness: "find_len (fresh 16) 4 False = ret 0"
proof -
  have run: "run_of (fresh 16) False 4 0"
    by (auto simp: run_of_def used_def fresh_def less_mult_imp_div_less)
  have len: "length (bitmap (fresh 16)) = 512" by (simp add: fresh_def)
  have four: "unat (4 :: u64) = 4" and pos: "0 < (4 :: u64)"
    by simp_all
  have ex: "\<exists>i. run_of (fresh 16) False 4 i" using run by blast
  obtain r where r: "find_len (fresh 16) 4 False = ret r" "\<forall>i < unat r. \<not> run_of (fresh 16) False 4 i"
    using find_len_least [OF len pos, of False, unfolded four if_P [OF ex]] by blast
  then have "unat r = 0" using run by blast
  then have "r = 0" by (simp add: word_unat_eq_iff)
  with r(1) show ?thesis by simp
qed

text \<open>C15: \<open>alloc\<close> takes the first run of \<open>n\<close> free pages, answers the address of its first page and marks
  exactly these pages, or answers 0 and changes nothing if there is no such run. It keeps the
  invariant: marked pages within the range, the counters equal to the number of marked and of
  unmarked pages.\<close>

theorem ff_alloc_first_fit:
  assumes "ff_inv ff" "0 < n"
  shows "\<exists>a t. ff_alloc ff n = ret (a, t) \<and> ff_inv t
    \<and> (if \<exists>i. free_run (pages ff) (ff_pages ff) i (unat n)
       then \<exists>i. free_run (pages ff) (ff_pages ff) i (unat n)
          \<and> (\<forall>j < i. \<not> free_run (pages ff) (ff_pages ff) j (unat n))
          \<and> a = page_addr (allocator_start_addr ff) i \<and> pages t = pages ff \<union> page_run i (unat n)
       else a = 0 \<and> t = ff)"
  using ff_alloc_step [OF assms] by (simp only: if_bool_eq_disj) blast

theorem ff_alloc_first_fit_witness:
  "\<exists>t. ff_alloc (fresh 16) 17 = ret (0, t) \<and> t = fresh 16"
proof -
  have "\<nexists>i. free_run (pages (fresh 16)) (ff_pages (fresh 16)) i (unat (17 :: u64))"
    by (simp add: free_run_def)
  then show ?thesis using ff_alloc_first_fit [OF fresh_inv, of 16 17] by auto
qed

text \<open>C18: \<open>alloc\<close> at an address inside the range succeeds exactly if all the requested pages are free,
  and then marks exactly them; if one is in use it changes nothing. The request has to end within the range.\<close>

theorem ff_alloc_at_exact:
  assumes "ff_inv ff" "i < ff_pages ff" "i + unat n \<le> ff_pages ff"
  shows "\<exists>t. ff_alloc_at ff (page_addr (allocator_start_addr ff) i) n
      = ret (page_run i (unat n) \<inter> pages ff = {}, t) \<and> ff_inv t
    \<and> (if page_run i (unat n) \<inter> pages ff = {} then pages t = pages ff \<union> page_run i (unat n) else t = ff)"
proof -
  have "free_run (pages ff) (ff_pages ff) i (unat n) \<longleftrightarrow> page_run i (unat n) \<inter> pages ff = {}"
    using assms(3) by (simp add: free_run_def)
  then show ?thesis using ff.alloc_at_law [OF assms] by (elim exE conjE) (intro exI conjI, simp_all)
qed

theorem ff_alloc_at_exact_witness:
  "\<exists>t. ff_alloc_at (fresh 16) (page_addr 0x100000 3) 4 = ret (True, t) \<and> pages t = {3, 4, 5, 6}"
proof -
  have "page_run 3 4 = {3, 4, 5, 6}" by (auto simp: page_run_def)
  then show ?thesis using ff_alloc_at_exact [OF fresh_inv, of 16 3 4] by auto
qed

lemma bitmap_eqI:
  assumes "length (bitmap s) = 512" "length (bitmap t) = 512" "\<And>j. j < 32768 \<Longrightarrow> used s j = used t j"
  shows "bitmap s = bitmap t"
proof (rule nth_equalityI)
  fix k assume "k < length (bitmap s)"
  then have k: "k < 512" using assms(1) by simp
  show "bitmap s ! k = bitmap t ! k"
  proof (rule bit_word_eqI)
    fix b assume "b < LENGTH(64)"
    with k have "64 * k + b < 32768" "(64 * k + b) div 64 = k" "(64 * k + b) mod 64 = b" by auto
    with assms(3) [of "64 * k + b"] show "bit (bitmap s ! k) b = bit (bitmap t ! k) b" by (simp add: used_def)
  qed
qed (simp add: assms)

lemma ff_eqI:
  assumes "ff_inv s" "ff_inv t" "pages s = pages t" "tag s = tag t"
    "allocator_start_addr s = allocator_start_addr t" "allocator_length s = allocator_length t"
  shows "s = t"
proof -
  have "bitmap s = bitmap t"
  proof (rule bitmap_eqI)
    fix j :: nat assume "j < 32768"
    then show "used s j = used t j" using assms(3) by (auto simp: pages_def)
  qed (use assms(1,2) in \<open>simp_all add: ff_inv_def\<close>)
  moreover have "allocator_used_count s = allocator_used_count t"
    "allocator_free_count s = allocator_free_count t"
    using ff_invD(5,6) [OF assms(1)] ff_invD(5,6) [OF assms(2)] assms(3,6)
    by (simp_all add: word_unat_eq_iff ff_pages_def)
  ultimately show ?thesis using assms(4-6) by simp
qed

text \<open>Neither operation touches the name or the range of the allocator.\<close>

lemma set_pages_fields: "set_pages ff i b = ret t \<Longrightarrow>
    tag t = tag ff \<and> allocator_length t = allocator_length ff \<and> allocator_start_addr t = allocator_start_addr ff"
proof (induction ff i b rule: set_pages.induct)
  case (1 ff i b)
  from 1(2) show ?case
    by (subst (asm) set_pages.simps) (auto simp: seq_eq_ret ff_set_def split: if_splits dest!: 1(1))
qed

lemma clr_pages_fields: "clr_pages ff i b = ret t \<Longrightarrow>
    tag t = tag ff \<and> allocator_length t = allocator_length ff \<and> allocator_start_addr t = allocator_start_addr ff"
proof (induction ff i b rule: clr_pages.induct)
  case (1 ff i b)
  from 1(2) show ?case
    by (subst (asm) clr_pages.simps) (auto simp: seq_eq_ret ff_clr_def split: if_splits dest!: 1(1))
qed

lemma clr_pages_counts: "clr_pages ff i b = ret t \<Longrightarrow>
    allocator_used_count t = allocator_used_count ff \<and> allocator_free_count t = allocator_free_count ff"
proof (induction ff i b rule: clr_pages.induct)
  case (1 ff i b)
  from 1(2) show ?case
    by (subst (asm) clr_pages.simps) (auto simp: seq_eq_ret ff_clr_def split: if_splits dest!: 1(1))
qed

lemma unat_not_0: "unat (NOT 0 :: u64) = 2 ^ 64 - 1"
  by (simp add: unsigned_minus_1_eq_mask mask_eq_exp_minus_1)

lemma ff_alloc_fields: "ff_alloc ff n = ret (a, t) \<Longrightarrow>
    tag t = tag ff \<and> allocator_length t = allocator_length ff \<and> allocator_start_addr t = allocator_start_addr ff"
  by (auto simp: ff_alloc_def seq_eq_ret count_pages_def split: if_splits dest!: set_pages_fields)

lemma ff_free_fields: "ff_free ff a n = ret t \<Longrightarrow>
    tag t = tag ff \<and> allocator_length t = allocator_length ff \<and> allocator_start_addr t = allocator_start_addr ff"
  by (auto simp: ff_free_def Let_def seq_eq_ret split: if_splits dest!: clr_pages_fields)

text \<open>C17: Releasing a block that was just allocated restores the allocator: bitmap, counters and all.\<close>

theorem ff_alloc_free_roundtrip:
  assumes "ff_inv ff" "0 < n" "ff_alloc ff n = ret (a, t)" "a \<noteq> 0"
  shows "ff_free t a n = ret ff"
proof -
  have "\<exists>i. free_run (pages ff) (ff_pages ff) i (unat n)"
    using ff.alloc_law [OF assms(1,2)] assms(3,4) by (auto split: if_splits)
  then obtain u where u: "ff_free t a n = ret u" "ff_inv u" "pages u = pages ff"
    using ff.alloc_free_held [OF assms(1-3)] by blast
  have "u = ff"
    using ff_eqI [OF u(2) assms(1) u(3)] ff_free_fields [OF u(1)] ff_alloc_fields [OF assms(3)] by simp
  with u(1) show ?thesis by simp
qed

lemma fresh_alloc: "\<exists>t. ff_alloc (fresh 16) 4 = ret (0x100000, t) \<and> pages t = {0, 1, 2, 3} \<and> ff_inv t"
proof -
  have free: "free_run {} 16 0 4" by (simp add: free_run_def)
  have run: "page_run 0 4 = {0, 1, 2, 3}" by (auto simp: page_run_def)
  from ff_alloc_step [OF fresh_inv, of 16 4] free obtain i t where
    t: "ff_alloc (fresh 16) 4 = ret (page_addr 0x100000 i, t)" "ff_inv t" "pages t = page_run i 4"
      "\<forall>j < i. \<not> free_run {} 16 j 4"
    by (auto split: if_splits)
  then have "i = 0" using free by blast
  with t run show ?thesis by (simp add: page_addr_def)
qed

theorem ff_alloc_free_roundtrip_witness:
  "\<exists>t. ff_alloc (fresh 16) 4 = ret (0x100000, t) \<and> t \<noteq> fresh 16 \<and> ff_free t 0x100000 4 = ret (fresh 16)"
proof -
  obtain t where t: "ff_alloc (fresh 16) 4 = ret (0x100000, t)" "pages t = {0, 1, 2, 3}"
    using fresh_alloc by blast
  have "pages t \<noteq> pages (fresh 16)" by (simp add: t(2))
  then have "t \<noteq> fresh 16" by blast
  moreover have "ff_free t 0x100000 4 = ret (fresh 16)"
    using ff_alloc_free_roundtrip [OF fresh_inv, of 16 4 "0x100000" t] t(1) by simp
  ultimately show ?thesis using t(1) by blast
qed

text \<open>C14: However clients interleave their requests and releases, the invariant holds, no two blocks in
  their hands share a byte, the used counter has grown by exactly the pages of these blocks, the
  two counters add up to the number of pages, and the next request neither faults nor hangs.\<close>

theorem ff_clients_safe:
  assumes "ff_inv s0" "client ff_alloc ff_free s0 s bs"
  shows "ff_inv s
    \<and> sorted_wrt (\<lambda>(a, n) (b, k). disjoint_regions a (4096 * unat n) b (4096 * unat k)) bs
    \<and> unat (ff_get_used_count s) = unat (ff_get_used_count s0) + sum_list (map (\<lambda>b. unat (snd b)) bs)
    \<and> unat (ff_get_used_count s) + unat (ff_get_free_count s) = ff_pages s0
    \<and> (\<forall>n > 0. \<exists>r. ff_alloc s n = ret r)"
proof -
  have inv: "ff_inv s" using ff.client_blocks [OF assms(2,1)] by blast
  then have "\<exists>r. ff_alloc s n = ret r" if "0 < n" for n using ff.alloc_law [OF _ that] by blast
  with inv ff.client_disjoint [OF assms(2,1)] ff.client_counts [OF assms(2,1)] show ?thesis by blast
qed

theorem ff_clients_safe_witness:
  "\<exists>s. client ff_alloc ff_free (fresh 16) s [(0x100000, 4)] \<and> ff_inv s
    \<and> unat (ff_get_used_count s) = 4"
proof -
  obtain t where t: "ff_alloc (fresh 16) 4 = ret (0x100000, t)" using fresh_alloc by blast
  have c: "client ff_alloc ff_free (fresh 16) t [(0x100000, 4)]"
  proof -
    have "client ff_alloc ff_free (fresh 16) (fresh 16) []" by (rule client.Start)
    from client.Grant [OF this _ t] show ?thesis by simp
  qed
  from ff_clients_safe [OF fresh_inv c] c show ?thesis by (auto simp: ff_get_used_count_def fresh_def)
qed

section \<open>Calls that go wrong\<close>

text \<open>\<open>alloc\<close> at an address does not check where the request ends: a run of free bits that starts
  inside the range and ends behind it, but within the bitmap, is granted, and pages the allocator
  does not manage are marked and counted.\<close>

theorem ff_alloc_at_overrun:
  assumes "ff_inv ff" "i < ff_pages ff" "ff_pages ff < i + unat n" "i + unat n \<le> 32768"
    "page_run i (unat n) \<inter> pages ff = {}"
  shows "\<exists>t. ff_alloc_at ff (page_addr (allocator_start_addr ff) i) n = ret (True, t)
    \<and> i + unat n - 1 \<in> pages t \<and> \<not> ff_inv t"
proof -
  note D = ff_invD [OF assms(1)] and P = page_index [OF assms(1,2)]
  have bound: "unat (of_nat i + n) = i + unat n" "unat (of_nat i :: u64) = i"
    using run_end [of i n 32768] assms(4) by simp_all
  have "any_used ff (of_nat i) (of_nat i + n) = ret False"
    using any_used_spec [OF D(1), of "of_nat i + n" "of_nat i"] assms(4,5)
    by (auto simp: bound pages_def page_run_def)
  moreover obtain t where t: "set_pages ff (of_nat i) (of_nat i + n) = ret t"
    "changes ff t (\<lambda>j. (i \<le> j \<and> j < i + unat n) \<or> used ff j)"
    using set_pages_changes [OF D(1), of "of_nat i + n" "of_nat i"] assms(4) by (auto simp: bound)
  ultimately have res: "ff_alloc_at ff (page_addr (allocator_start_addr ff) i) n = ret (True, count_pages n t)"
    using P by (simp add: ff_alloc_at_def del: PAGE_SIZE_val)
  have "0 < unat n" using assms(2,3) by simp
  then have "i + unat n - 1 \<in> pages t" using t(2) assms(4) by (auto simp: changes_def pages_def)
  then have in_t: "i + unat n - 1 \<in> pages (count_pages n t)" by (simp add: pages_def used_def count_pages_def)
  have "allocator_length t = allocator_length ff" using set_pages_fields [OF t(1)] by simp
  then have "ff_pages (count_pages n t) \<le> i + unat n - 1"
    using assms(3) by (simp add: ff_pages_def count_pages_def)
  with in_t have "\<not> ff_inv (count_pages n t)" by (auto simp: ff_inv_def)
  with res in_t show ?thesis by blast
qed

theorem ff_alloc_at_overrun_witness:
  "\<exists>t. ff_alloc_at (fresh 16) (page_addr 0x100000 10) 7 = ret (True, t) \<and> 16 \<in> pages t"
  using ff_alloc_at_overrun [OF fresh_inv, of 16 10 7] by auto

text \<open>\<open>free\<close> does not check that the pages are in use: releasing free pages leaves the bitmap as it
  is and still moves the counters, which then no longer count the pages.\<close>

theorem ff_double_free:
  assumes "ff_inv ff" "0 < n" "free_run (pages ff) (ff_pages ff) i (unat n)"
  shows "\<exists>t. ff_free ff (page_addr (allocator_start_addr ff) i) n = ret t \<and> pages t = pages ff
    \<and> ff_get_used_count t = ff_get_used_count ff - n \<and> ff_get_free_count t = ff_get_free_count ff + n
    \<and> \<not> ff_inv t"
proof -
  have n: "0 < unat n" using assms(2) by (simp add: word_greater_zero_iff unat_gt_0)
  have i: "i < ff_pages ff" "i + unat n \<le> ff_pages ff" using assms(3) n by (simp_all add: free_run_def)
  note D = ff_invD [OF assms(1)] and P = page_index [OF assms(1) i(1)]
  have bound: "unat (of_nat i + n) = i + unat n" "unat (of_nat i :: u64) = i" "i + unat n \<le> 32768"
    using run_end [OF i(2)] D(2) i(2) by (simp_all add: ff_pages_def)
  obtain t where t: "clr_pages ff (of_nat i) (of_nat i + n) = ret t"
    "changes ff t (\<lambda>j. \<not> (i \<le> j \<and> j < i + unat n) \<and> used ff j)"
    using clr_pages_changes [OF D(1), of "of_nat i + n" "of_nat i"] bound by auto
  have res: "ff_free ff (page_addr (allocator_start_addr ff) i) n = ret (count_pages (- n) t)"
    using P t(1) by (simp add: ff_free_count del: PAGE_SIZE_val)
  have same: "pages (count_pages (- n) t) = pages ff"
    using t(2) assms(3) bound(3)
    by (auto simp: changes_def pages_def used_def count_pages_def free_run_def page_run_def)
  have "allocator_used_count t = allocator_used_count ff" "allocator_free_count t = allocator_free_count ff"
    using clr_pages_counts [OF t(1)] by simp_all
  then have counts: "ff_get_used_count (count_pages (- n) t) = ff_get_used_count ff - n"
    "ff_get_free_count (count_pages (- n) t) = ff_get_free_count ff + n"
    by (simp_all add: ff_get_used_count_def ff_get_free_count_def count_pages_def)
  have "\<not> ff_inv (count_pages (- n) t)"
  proof
    assume "ff_inv (count_pages (- n) t)"
    then have "unat (ff_get_used_count ff - n) = unat (ff_get_used_count ff)"
      using D(5) same counts(1) by (simp add: ff_inv_def ff_get_used_count_def)
    then have "ff_get_used_count ff - n = ff_get_used_count ff" by (simp only: word_unat_eq_iff)
    with assms(2) show False by simp
  qed
  with res same counts show ?thesis by blast
qed

theorem ff_double_free_witness:
  "\<exists>t. ff_free (fresh 16) (page_addr 0x100000 3) 1 = ret t \<and> ff_get_used_count t = - 1
    \<and> ff_get_free_count t = 17"
proof -
  have "free_run (pages (fresh 16)) (ff_pages (fresh 16)) 3 (unat (1 :: u64))" by (simp add: free_run_def)
  from ff_double_free [OF fresh_inv _ this] show ?thesis
    by (auto simp: ff_get_used_count_def ff_get_free_count_def fresh_def)
qed

text \<open>A request for no pages is not refused: with the first used page at \<open>i\<close> it is answered with the
  address of the next page, used or not, even the one behind the range, and nothing is marked.\<close>

theorem ff_alloc_zero:
  assumes "ff_inv ff" "i \<in> pages ff" "\<forall>j < i. j \<notin> pages ff"
  shows "ff_alloc ff 0 = ret (page_addr (allocator_start_addr ff) (i + 1), ff)"
proof -
  note D = ff_invD [OF assms(1)]
  have i: "i < unat (allocator_length ff)" using assms(2) D(4) by (auto simp: ff_pages_def)
  have scan: "find_len_loop ff 0 False (of_nat k) (of_nat k) 0 = ret (of_nat (i + 1))" if "k \<le> i" for k
    using that
  proof (induction k rule: inc_induct)
    case base
    have "unat (of_nat i :: u64) = i" using i D(2) by (intro unat_of_nat_64) simp
    moreover have "used ff i" using assms(2) by (simp add: pages_def)
    ultimately show ?case
      using i D(1,2) by (subst find_len_loop.simps) (simp add: word_less_nat_alt ff_test_used add.commute)
  next
    case (step k)
    have k: "unat (of_nat k :: u64) = k" using step i D(2) by (intro unat_of_nat_64) simp
    have k1: "unat (of_nat (Suc k) :: u64) = Suc k" using step i D(2) by (intro unat_of_nat_64) simp
    then have "(of_nat (Suc k) :: u64) \<noteq> 0" by (metis nat.distinct(1) unsigned_0)
    then have nz: "(of_nat k + 1 :: u64) \<noteq> 0" by (simp add: add.commute)
    have "\<not> used ff k" using assms(3) step i D(2) by (auto simp: pages_def)
    with step i D(1,2) k nz show ?case
      by (subst find_len_loop.simps) (simp add: word_less_nat_alt ff_test_used add.commute)
  qed
  have "of_nat (i + 1) \<noteq> (NOT 0 :: u64)"
  proof
    assume "of_nat (i + 1) = (NOT 0 :: u64)"
    then have "unat (of_nat (i + 1) :: u64) = 2 ^ 64 - 1"
      using unat_not_0 by argo
    moreover have "unat (of_nat (i + 1) :: u64) = i + 1" using i D(2) by (intro unat_of_nat_64) simp
    ultimately show False using i D(2) by simp
  qed
  moreover have "set_pages ff b b = ret ff" for b by (subst set_pages.simps) simp
  ultimately show ?thesis
    using scan [of 0] by (simp add: ff_alloc_def find_len_def page_addr_def count_pages_def del: of_nat_Suc of_nat_add)
qed

theorem ff_alloc_zero_witness:
  "\<exists>s. ff_inv s \<and> pages s = {0, 1, 2, 3} \<and> ff_alloc s 0 = ret (0x101000, s)"
proof -
  obtain s where s: "ff_alloc (fresh 16) 4 = ret (0x100000, s)" "pages s = {0, 1, 2, 3}" "ff_inv s"
    using fresh_alloc by blast
  then have "allocator_start_addr s = 0x100000" using ff_alloc_fields [OF s(1)] by simp
  with s ff_alloc_zero [of s 0] show ?thesis by (auto simp: page_addr_def)
qed

section \<open>Construction\<close>

text \<open>The constructor hands out an allocator that keeps the invariant with no page in use, for a range of
  at most 32768 pages that does not wrap or start at 0, and reports on the console. The report prefixes
  the start with \<open>0x\<close> twice and prints its unknown conversion \<open>%X\<close> as it stands.\<close>

theorem ff_new_ready:
  assumes "vga_ok s" "uart_drains (device s)" "CHR 0x00 \<notin> set name"
    and "unat len \<le> 32768" "unat addr + 4096 * unat len < 2 ^ 64" "addr \<noteq> 0"
  shows "\<exists>this' s'. ff_new s this name addr len = ret (this', s')
    \<and> ff_inv this' \<and> pages this' = {} \<and> allocator_start_addr this' = addr \<and> ff_pages this' = unat len
    \<and> vga_abs s' = vga_abs (vga_type s
        (name @ '': 0x0x'' @ pointer_string (unat addr) @ ''(0x%X pages) init.\<newline>''))"
proof -
  define this1 where "this1 = (ALLOCATOR_init this name addr len)\<lparr>bitmap := replicate (unat BITS_ARR_SIZE) 0\<rparr>"
  have arr: "unat BITS_ARR_SIZE = 512" by (simp add: BITS_ARR_SIZE_def BITS_PER_WORD_def)
  have fields: "tag this1 = name" "allocator_start_addr this1 = addr" "allocator_length this1 = len"
    "allocator_used_count this1 = 0" "allocator_free_count this1 = len" "bitmap this1 = replicate 512 0"
    by (simp_all add: this1_def ALLOCATOR_init_def arr)
  then have pages: "pages this1 = {}" by (intro pages_zero)
  then have inv: "ff_inv this1" using assms(4-6) by (simp add: ff_inv_def fields ff_pages_def)
  have plain: "renders fmt args t \<Longrightarrow> CHR ''%'' \<notin> set cs \<Longrightarrow> CHR 0x00 \<notin> set cs \<Longrightarrow> renders (cs @ fmt) args (cs @ t)"
    for cs fmt args t
    by (induction cs) (auto intro: renders.Plain)
  have "renders (CHR ''%'' # CHR ''X'' # '' pages) init.\<newline>'') [VaWord len] (CHR ''%'' # CHR ''X'' # '' pages) init.\<newline>'')"
    using plain [OF renders.End, of "'' pages) init.\<newline>''" "[VaWord len]"] by (intro renders.Unknown) simp_all
  from renders.Pointer [OF plain [OF this, of "''(0x''"], of addr]
  have "renders (CHR ''%'' # CHR ''p'' # ''(0x'' @ CHR ''%'' # CHR ''X'' # '' pages) init.\<newline>'')
    [VaWord addr, VaWord len] (''0x'' @ pointer_string (unat addr) @ ''(0x'' @ CHR ''%'' # CHR ''X'' # '' pages) init.\<newline>'')"
    by simp
  from renders.String [OF assms(3) plain [OF this, of "'': 0x''"]]
  have "renders ''%s: 0x%p(0x%X pages) init.\<newline>'' [VaStr name, VaWord addr, VaWord len]
    (name @ '': 0x0x'' @ pointer_string (unat addr) @ ''(0x%X pages) init.\<newline>'')"
    by simp
  from vga_printf_text [OF this assms(1,2)] obtain s'
    where "vga_printf s ''%s: 0x%p(0x%X pages) init.\<newline>'' [VaStr name, VaWord addr, VaWord len] = ret s'"
      "vga_abs s' = vga_abs (vga_type s
        (name @ '': 0x0x'' @ pointer_string (unat addr) @ ''(0x%X pages) init.\<newline>''))"
    by blast
  then show ?thesis
    using inv pages fields by (simp add: ff_new_def this1_def [symmetric] ff_pages_def)
qed

theorem ff_new_ready_witness:
  "\<exists>this' s'. ff_new blank_vga (fresh 0) ''pmm'' 0x900000 16 = ret (this', s') \<and> ff_inv this' \<and> ff_pages this' = 16"
proof -
  have "vga_ok blank_vga" "uart_drains (device blank_vga)" "CHR 0x00 \<notin> set ''pmm''"
    by (simp_all add: vga_ok_def blank_vga_def uart_drains_def uart_ready_def)
  from ff_new_ready [OF this, of 16 "0x900000" "fresh 0"] show ?thesis by auto
qed

end
