(* ===== verification/Multiboot_Props.thy ===== *)
theory Multiboot_Props
  imports Multiboot2 Logging
begin

text \<open>
  What the kernel learns from the boot loader: which boot information it accepts, how much memory it
  counts, and when the search for the memory map never ends.
\<close>

section \<open>The state of the boot information\<close>

lemma more_boot:
  fixes s t :: "'a boot_scheme"
  assumes "vga.more t = vga.more s"
  shows "tui_pos t = tui_pos s" "tui_color t = tui_color s" "boot_info_addr t = boot_info_addr s"
    "boot_info_size t = boot_info_size s" "multiboot2_magic t = multiboot2_magic s"
    "boot_inited t = boot_inited s" "boot.more t = boot.more s"
  using assms by (cases s; cases t; simp)+

lemma logs_boot:
  fixes s t :: "'a boot_scheme"
  assumes "logs s t"
  shows "tui_pos t = tui_pos s" "tui_color t = tui_color s" "boot_info_addr t = boot_info_addr s"
    "boot_info_size t = boot_info_size s" "multiboot2_magic t = multiboot2_magic s"
    "boot_inited t = boot_inited s" "boot.more t = boot.more s"
  using more_boot [of t s] assms by (simp_all add: logs_def)

text \<open>A region of memory that messages leave alone.\<close>

definition off_screen :: "addr \<Rightarrow> nat \<Rightarrow> bool" where
  "off_screen a n \<longleftrightarrow> n \<le> 2 ^ 64 \<and> disjoint_regions 0xB8000 4000 a n"

lemma off_screen_same:
  assumes "off_screen a n" "\<forall>x. outside_screen x \<longrightarrow> m' x = m x" "i < n"
  shows "m' (a + of_nat i) = m (a + of_nat i)"
  using assms disjoint_regions_notin [of "0xB8000" 4000 a n i] unfolding off_screen_def outside_screen_def by blast

lemma off_screen_bytes:
  assumes "off_screen a n" "\<forall>x. outside_screen x \<longrightarrow> m' x = m x" "i + k \<le> n"
  shows "bytes_at m' (a + of_nat i) k = bytes_at m (a + of_nat i) k"
proof (rule nth_equalityI)
  fix j assume "j < length (bytes_at m' (a + of_nat i) k)"
  then have "j < k" by simp
  then have "m' (a + of_nat (i + j)) = m (a + of_nat (i + j))"
    using assms(3) by (intro off_screen_same [OF assms(1,2)]) simp
  with \<open>j < k\<close> show "bytes_at m' (a + of_nat i) k ! j = bytes_at m (a + of_nat i) k ! j" by (simp add: add.assoc)
qed simp

lemma off_screen_read:
  assumes "off_screen a n" "\<forall>x. outside_screen x \<longrightarrow> m' x = m x"
  shows "i + 4 \<le> n \<Longrightarrow> read32 m' (a + of_nat i) = read32 m (a + of_nat i)"
    and "i + 8 \<le> n \<Longrightarrow> read64 m' (a + of_nat i) = read64 m (a + of_nat i)"
  by (simp_all add: read32_def read64_def off_screen_bytes [OF assms])

lemma off_screen_high:
  assumes "0x100000 \<le> a" "unat a + n \<le> 2 ^ 64"
  shows "off_screen a n"
proof -
  have "unat a \<ge> 0x100000" using assms(1) by (simp add: word_le_nat_alt)
  moreover have "fits 0xB8000 4000" by (simp add: fits_def)
  ultimately show ?thesis
    using assms(2) by (auto simp: off_screen_def fits_def intro: disjoint_regionsI_below)
qed

section \<open>Initialisation\<close>

text \<open>The boot information that is accepted.\<close>

definition boot_valid :: "'a boot_scheme \<Rightarrow> bool" where
  "boot_valid s \<longleftrightarrow> multiboot2_magic s = 0x36d76289 \<and> boot_info_addr s AND 7 = 0
     \<and> 0x100000 \<le> boot_info_addr s \<and> boot_info_addr s \<le> 0x1000000
     \<and> 8 \<le> read_size (ram s) (boot_info_addr s) \<and> read_size (ram s) (boot_info_addr s) \<le> 65536"

lemma read_size_same:
  assumes "off_screen a 4" "\<forall>x. outside_screen x \<longrightarrow> m' x = m x"
  shows "read_size m' a = read_size m a"
proof -
  have "m' (a + of_nat i) = m (a + of_nat i)" if "i < 4" for i
    using that by (rule off_screen_same [OF assms])
  from this [of 0] this [of 1] this [of 2] this [of 3] show ?thesis
    by (simp add: read_size_def upt_conv_Cons)
qed

lemma u32_u64 [simp]: "(ucast (ucast (w :: u32) :: u64) :: u32) = w"
  by (rule bit_word_eqI) (simp add: bit_unsigned_iff)

lemma u32_u64_le: "((ucast (w :: u32) :: u64) < 8 \<longleftrightarrow> w < 8) \<and> ((ucast w :: u64) > 65536 \<longleftrightarrow> w > 65536)"
proof -
  have "(ucast w :: u64) = of_nat (unat w)" by simp
  also have "unat \<dots> = unat w" using unsigned_less [of w, where 'a = nat] by (intro unat_of_nat_64) simp
  finally show ?thesis by (simp add: word_less_nat_alt)
qed

text \<open>What the initialisation leaves behind, apart from its answer.\<close>

definition boot_kept :: "'a boot_scheme \<Rightarrow> 'a boot_scheme \<Rightarrow> bool" where
  "boot_kept s t \<longleftrightarrow> vga_ok t \<and> device t = device s \<and> tui_pos t = tui_pos s \<and> tui_color t = tui_color s
     \<and> boot_info_addr t = boot_info_addr s \<and> multiboot2_magic t = multiboot2_magic s
     \<and> boot.more t = boot.more s \<and> (\<forall>a. outside_screen a \<longrightarrow> ram t a = ram s a)"

lemma logs_kept: "logs s t \<Longrightarrow> boot_kept s t"
  unfolding boot_kept_def by (intro conjI) (simp_all add: logs_boot, simp_all add: logs_def)

lemma logs_size:
  assumes "logs s t"
  shows "logs (s\<lparr>boot_info_size := k\<rparr>) (t\<lparr>boot_info_size := k\<rparr>)"
  using assms by (cases s; cases t) (simp add: logs_def vga_ok_def)

definition init_result :: "'a boot_scheme \<Rightarrow> bool \<times> 'a boot_scheme \<Rightarrow> bool" where
  "init_result s = (\<lambda>(ok, t). ok = boot_valid s \<and> boot_kept s t \<and> boot_inited t = boot_inited s
    \<and> (ok \<longrightarrow> boot_info_size t = ucast (read_size (ram s) (boot_info_addr s))))"

lemma read_boot_size_runs:
  assumes t: "logs s t" and ok: "vga_ok s" "uart_drains (device s)"
    and size: "read_size (ram s) (boot_info_addr s) \<noteq> 0x80000000"
    and addr: "multiboot2_magic s = 0x36d76289" "boot_info_addr s AND 7 = 0"
      "0x100000 \<le> boot_info_addr s" "boot_info_addr s \<le> 0x1000000"
  shows "runs (read_boot_size (boot_info_addr s) t) (init_result s)"
proof -
  let ?addr = "boot_info_addr s" and ?size = "read_size (ram s) (boot_info_addr s)"
  have same: "read_size (ram t) ?addr = ?size"
  proof (rule read_size_same)
    show "off_screen ?addr 4"
      using addr(3,4) by (intro off_screen_high) (simp_all add: word_le_nat_alt)
  qed (use t in \<open>simp add: logs_def\<close>)
  have valid: "boot_valid s \<longleftrightarrow> \<not> (ucast ?size < (8 :: u64) \<or> ucast ?size > (65536 :: u64))"
    using addr u32_u64_le [of ?size] by (auto simp: boot_valid_def not_less)
  define u where "u = t\<lparr>boot_info_size := ucast ?size\<rparr>"
  have u: "logs u u"
    by (rule logs_refl) (use t ok in \<open>simp_all add: u_def logs_def vga_ok_def\<close>)
  have num: "sint (ucast (boot_info_size v) :: u32) \<noteq> - (2 ^ 31)" if "logs u v" for v
    using size logs_boot(4) [OF that] by (simp only: u_def boot.select_convs boot.update_convs u32_u64 sint_least) simp
  have kept: "boot_kept s v \<and> boot_inited v = boot_inited s \<and> boot_info_size v = ucast ?size" if "logs u v" for v
  proof -
    have "logs s (v\<lparr>boot_info_size := boot_info_size t\<rparr>)"
      using logs_trans [OF t] logs_size [OF that, of "boot_info_size t"] by (simp add: u_def)
    from logs_kept [OF this] logs_boot(6) [OF this] logs_boot(4) [OF that]
    show ?thesis by (simp add: boot_kept_def vga_ok_def u_def)
  qed
  show ?thesis
    unfolding read_boot_size_def Let_def same u_def [symmetric]
  proof (rule runs_log [OF u], use num [OF u] in simp, rule runs_log, assumption, simp, rule runs_if, goal_cases)
    case (1 v w)
    show ?case by (rule runs_log [OF 1(2)]) (use num [OF 1(2)] kept [OF 1(2)] kept 1(3) valid in \<open>auto simp: init_result_def\<close>)
  next
    case (2 v w)
    show ?case by (rule runs_log [OF 2(2)]) (use kept [OF 2(2)] kept 2(3) valid in \<open>auto simp: init_result_def\<close>)
  qed
qed

lemma init_runs:
  assumes "vga_ok s" "uart_drains (device s)" "read_size (ram s) (boot_info_addr s) \<noteq> 0x80000000"
  shows "runs (multiboot2_init s) (init_result s)"
proof -
  have refuse: "runs (seq (vga_printf t fmt args) (\<lambda>t. ret (False, t))) (init_result s)"
    if "logs s t" "renderable fmt args" "\<not> boot_valid s" for t fmt args
  proof (rule runs_log [OF that(1,2)])
    fix u assume "logs s u"
    from logs_kept [OF this] logs_boot(6) [OF this] that(3) show "runs (ret (False, u)) (init_result s)"
      by (simp add: init_result_def)
  qed
  have same: "multiboot2_magic t = multiboot2_magic s" "boot_info_addr t = boot_info_addr s" if "logs s t" for t
    using logs_boot [OF that] by simp_all
  have magic: "MULTIBOOT2_BOOTLOADER_MAGIC = 0x36d76289" by (simp add: MULTIBOOT2_BOOTLOADER_MAGIC_def)
  show ?thesis
    unfolding multiboot2_init_def Let_def
    apply (rule runs_log [OF logs_refl [OF assms(1,2)]], simp)
    apply (rule runs_log, assumption, simp)
    apply (rule runs_log, assumption, simp)
    apply (rule runs_if, rule refuse, assumption, simp, simp add: same magic boot_valid_def)
    apply (rule runs_if, rule refuse, assumption, simp, simp add: same boot_valid_def)
    apply (rule runs_if, rule refuse, assumption, simp, simp add: same boot_valid_def)
    apply (rule runs_if, rule refuse, assumption, simp, simp add: same boot_valid_def flip: not_le, blast)
    apply (rule runs_log, assumption, simp)
    apply (simp add: same magic not_less)
    apply (rule read_boot_size_runs [OF _ assms], assumption)
    apply simp_all
    done
qed

text \<open>C31: \<open>multiboot2_init\<close> returns and accepts exactly the boot information with the right magic number, an address
  aligned to 8 between 1 MB and 16 MB, and a size from 8 to 65536 bytes, whose size it then records. It changes nothing
  else but the debug console. A size of 2^31 is excluded: printing it overflows.\<close>

theorem multiboot2_init_validates:
  assumes "vga_ok s" "uart_drains (device s)" "read_size (ram s) (boot_info_addr s) \<noteq> 0x80000000"
  shows "runs (multiboot2_init s) (\<lambda>(ok, t). ok = boot_valid s \<and> boot_kept s t \<and> boot_inited t = boot_inited s
    \<and> (ok \<longrightarrow> boot_info_size t = ucast (read_size (ram s) (boot_info_addr s))))"
  using init_runs [OF assms] by (simp only: init_result_def)

definition boot_state :: "mem \<Rightarrow> boot" where
  "boot_state m = \<lparr>ram = m, ports = [], device = \<lambda>_ _. 0x20, cursor_x = 0, cursor_y = 0,
     current_color = VGA_WHITE, tui_pos = new_pos 0 0, tui_color = new_col WHITE BLACK,
     boot_info_addr = 0x200000, boot_info_size = 0, multiboot2_magic = 0x36d76289, boot_inited = True\<rparr>"

lemma boot_state_ready: "vga_ok (boot_state m)" "uart_drains (device (boot_state m))"
  by (simp_all add: boot_state_def vga_ok_def uart_drains_def uart_ready_def)

theorem multiboot2_init_validates_witness:
  "runs (multiboot2_init (boot_state ((\<lambda>_. 0)(0x200000 := 0x28)))) (\<lambda>(ok, t). ok \<and> boot_info_size t = 0x28)"
proof -
  let ?s = "boot_state ((\<lambda>_. 0)(0x200000 := 0x28))"
  have "read_size (ram ?s) (boot_info_addr ?s) = 0x28"
    by (simp add: read_size_def boot_state_def upt_conv_Cons)
  moreover from this have "boot_valid ?s" by (simp add: boot_valid_def boot_state_def)
  ultimately show ?thesis
    using multiboot2_init_validates [OF boot_state_ready, of "(\<lambda>_. 0)(0x200000 := 0x28)"]
    by (auto elim!: runs_mono)
qed

section \<open>The search for the memory map\<close>

text \<open>The first tag of type 6 on the chain that starts at a tag, if there is one before the end tag.\<close>

inductive first_mmap :: "mem \<Rightarrow> addr \<Rightarrow> addr option \<Rightarrow> bool" for m where
  None: "tag_type m a = 0 \<Longrightarrow> first_mmap m a None"
| Here: "tag_type m a = 6 \<Longrightarrow> first_mmap m a (Some a)"
| Skip: "tag_type m a \<noteq> 0 \<Longrightarrow> tag_type m a \<noteq> 6 \<Longrightarrow>
    first_mmap m (a + ucast (ALIGN32 (tag_size m a) 8)) r \<Longrightarrow> first_mmap m a r"

text \<open>The sum of the lengths of the available entries that lie within the tag.\<close>

definition entry :: "mem \<Rightarrow> addr \<Rightarrow> nat \<Rightarrow> addr" where
  "entry m tg i = tg + 16 + of_nat i * ucast (mmap_entry_size m tg)"

definition available :: "mem \<Rightarrow> addr \<Rightarrow> u64" where
  "available m tg =
     (let size = unat (tag_size m tg); es = unat (mmap_entry_size m tg)
      in sum_list (map (\<lambda>i. if entry_type m (entry m tg i) = 1 then entry_len m (entry m tg i) else 0)
           (filter (\<lambda>i. 16 + i * es + 24 \<le> size) [0..<(size - 16) div es])))"

text \<open>A memory map tag as a boot loader makes it.\<close>

definition mmap_ok :: "mem \<Rightarrow> addr \<Rightarrow> bool" where
  "mmap_ok m tg \<longleftrightarrow> 16 \<le> unat (tag_size m tg) \<and> unat (tag_size m tg) < 2 ^ 31
     \<and> 0 < unat (mmap_entry_size m tg) \<and> unat (mmap_entry_size m tg) < 2 ^ 31
     \<and> unat tg + unat (tag_size m tg) + 2 ^ 32 < 2 ^ 64 \<and> off_screen tg (unat (tag_size m tg))"

lemma unat_u32_u64 [simp]: "unat (ucast (w :: u32) :: u64) = unat w"
proof -
  have "(ucast w :: u64) = of_nat (unat w)" by simp
  also have "unat \<dots> = unat w" using unsigned_less [of w, where 'a = nat] by (intro unat_of_nat_64) simp
  finally show ?thesis .
qed

lemma mmap_entry_offset:
  assumes "mmap_ok m tg" "i \<le> (unat (tag_size m tg) - 16) div unat (mmap_entry_size m tg)"
  shows "unat (entry m tg i) = unat tg + 16 + i * unat (mmap_entry_size m tg)"
    and "entry m tg i = tg + of_nat (16 + i * unat (mmap_entry_size m tg))"
    and "i * unat (mmap_entry_size m tg) + 16 \<le> unat (tag_size m tg)"
proof -
  let ?es = "unat (mmap_entry_size m tg)" and ?size = "unat (tag_size m tg)"
  have "i * ?es \<le> (?size - 16) div ?es * ?es" using assms(2) by (rule mult_le_mono1)
  also have "\<dots> \<le> ?size - 16" by simp
  finally show le: "i * ?es + 16 \<le> ?size" using assms(1) unfolding mmap_ok_def by linarith
  show eq: "entry m tg i = tg + of_nat (16 + i * ?es)"
    by (simp add: entry_def)
  have "unat (tg + of_nat (16 + i * ?es)) = unat tg + (16 + i * ?es)"
    using le assms(1) by (intro unat_add_fits) (simp add: mmap_ok_def)
  then show "unat (entry m tg i) = unat tg + 16 + i * ?es" by (simp add: eq)
qed

lemma entry_read:
  assumes "mmap_ok m tg" "\<forall>x. outside_screen x \<longrightarrow> m' x = m x" "i * unat (mmap_entry_size m tg) + 40 \<le> unat (tag_size m tg)"
  shows "entry_len m' (entry m tg i) = entry_len m (entry m tg i)"
    and "entry_type m' (entry m tg i) = entry_type m (entry m tg i)"
proof -
  let ?k = "16 + i * unat (mmap_entry_size m tg)"
  have off: "off_screen tg (unat (tag_size m tg))" using assms(1) by (simp add: mmap_ok_def)
  have e: "entry m tg i + 8 = tg + of_nat (?k + 8)" "entry m tg i + 16 = tg + of_nat (?k + 16)"
    by (simp_all add: entry_def)
  show "entry_len m' (entry m tg i) = entry_len m (entry m tg i)"
    unfolding entry_len_def e by (rule off_screen_read(2) [OF off assms(2)]) (use assms(3) in simp)
  show "entry_type m' (entry m tg i) = entry_type m (entry m tg i)"
    unfolding entry_type_def e by (rule off_screen_read(1) [OF off assms(2)]) (use assms(3) in simp)
qed

lemma mmap_loop_sums:
  fixes s0 :: "'a boot_scheme"
  defines "K m tg \<equiv> (unat (tag_size m tg) - 16) div unat (mmap_entry_size m tg)"
  assumes "mmap_ok m tg" "\<forall>x. outside_screen x \<longrightarrow> ram s0 x = m x" "i + n = K m tg" "logs s0 s"
  shows "runs (mmap_loop (tg + ucast (tag_size m tg)) (mmap_entry_size m tg) n (entry m tg i) len s)
    (\<lambda>(l, t). l = len + sum_list (map (\<lambda>i. if entry_type m (entry m tg i) = 1 then entry_len m (entry m tg i) else 0)
        (filter (\<lambda>i. 16 + i * unat (mmap_entry_size m tg) + 24 \<le> unat (tag_size m tg)) [i..<K m tg]))
      \<and> logs s0 t)"
  using assms(4,5)
proof (induction n arbitrary: i len s)
  case 0
  then show ?case by simp
next
  case (Suc n)
  let ?es = "unat (mmap_entry_size m tg)" and ?size = "unat (tag_size m tg)" and ?e = "entry m tg i"
  let ?f = "\<lambda>i. if entry_type m (entry m tg i) = 1 then entry_len m (entry m tg i) else 0"
  let ?P = "\<lambda>i. 16 + i * ?es + 24 \<le> ?size"
  have i: "i \<le> K m tg" "i < K m tg" "Suc i + n = K m tg" using Suc.prems(1) by simp_all
  note off = mmap_entry_offset [OF assms(2) i(1) [unfolded K_def]]
  have "unat (?e + of_nat 24) = unat ?e + 24"
    using off(1,3) assms(2) by (intro unat_add_fits) (simp add: mmap_ok_def)
  moreover have "unat (tg + of_nat ?size) = unat tg + ?size"
    using assms(2) by (intro unat_add_fits) (simp add: mmap_ok_def)
  ultimately have cond: "tg + ucast (tag_size m tg) < ?e + 24 \<longleftrightarrow> \<not> ?P i"
    using off(1) by (simp add: word_less_nat_alt) linarith
  show ?case
  proof (cases "?P i")
    case False
    have none: "filter ?P [i..<K m tg] = []"
    proof -
      have "\<not> ?P j" if "i \<le> j" for j
        using False mult_le_mono1 [OF that, of ?es] by linarith
      then show ?thesis by simp
    qed
    show ?thesis
      unfolding mmap_loop.simps none if_P [OF cond [THEN iffD2, OF False]]
      by (rule runs_log [OF Suc.prems(2)]) simp_all
  next
    case True
    have same: "\<forall>x. outside_screen x \<longrightarrow> ram s x = m x" using assms(3) Suc.prems(2) by (simp add: logs_def)
    have P: "i * ?es + 40 \<le> ?size" using True by simp
    note reads = entry_read [OF assms(2) same P]
    have next_entry: "?e + ucast (mmap_entry_size m tg) = entry m tg (Suc i)"
      by (simp add: entry_def algebra_simps)
    have range: "filter ?P [i..<K m tg] = i # filter ?P [Suc i..<K m tg]"
      using i(2) True by (simp add: upt_conv_Cons)
    let ?len = "if entry_len m ?e = 0 then len else if entry_type m ?e = 1 then len + entry_len m ?e else len"
    have loop: "mmap_loop (tg + ucast (tag_size m tg)) (mmap_entry_size m tg) (Suc n) ?e len s
      = mmap_loop (tg + ucast (tag_size m tg)) (mmap_entry_size m tg) n (entry m tg (Suc i)) ?len s"
      using True by (simp add: cond reads next_entry MULTIBOOT_MEMORY_AVAILABLE_def)
    have len: "?len = len + ?f i" by simp
    have sum: "sum_list (map ?f (filter ?P [i..<K m tg])) = ?f i + sum_list (map ?f (filter ?P [Suc i..<K m tg]))"
      by (simp only: range list.map sum_list.Cons)
    show ?thesis
      unfolding loop sum using Suc.IH [OF i(3) Suc.prems(2), of ?len] unfolding len add.assoc .
  qed
qed

lemma first_mmap_loop:
  assumes "first_mmap m a r" "m = ram s"
  shows "iter_loop get_memory a d s = (case r of None \<Rightarrow> ret (d, s) | Some tg \<Rightarrow> iter_loop get_memory tg d s)"
  using assms
proof (induction rule: first_mmap.induct)
  case (None a)
  then show ?case by (subst iter_loop.simps) (simp add: MULTIBOOT_TAG_TYPE_END_def)
next
  case (Here a)
  show ?case by simp
next
  case (Skip a r)
  then have "get_memory a d s = ret (False, d, s)" by (simp add: get_memory_def MULTIBOOT_TAG_TYPE_MMAP_def)
  with Skip show ?case by (subst iter_loop.simps) (simp add: MULTIBOOT_TAG_TYPE_END_def)
qed

lemma first_mmap_type: "first_mmap m a (Some tg) \<Longrightarrow> tag_type m tg = 6"
  by (induction a "Some tg" rule: first_mmap.induct) auto

lemma less_least: "unat (w :: u32) < 2 ^ 31 \<Longrightarrow> sint w \<noteq> - (2 ^ 31)"
  unfolding sint_least by (auto simp: word_unat_eq_iff)

lemma mmap_read_runs:
  assumes t: "logs s t" and tg: "mmap_ok (ram s) tg" and r: "mem_len r = 0"
  shows "runs (mmap_read tg r t) (\<lambda>(stop, r', u). stop \<and> logs s u \<and> r' = r\<lparr>mem_len := available (ram s) tg\<rparr>)"
    (is "runs _ ?Q")
proof -
  let ?m = "ram s"
  have off: "off_screen tg (unat (tag_size ?m tg))" and size: "16 \<le> unat (tag_size ?m tg)"
    and es: "mmap_entry_size ?m tg \<noteq> 0" and big: "\<not> tag_size ?m tg < 16"
    using tg by (auto simp: mmap_ok_def word_less_nat_alt word_unat_eq_iff)
  have eq: "\<forall>x. outside_screen x \<longrightarrow> ram t x = ?m x" using t by (simp add: logs_def)
  have same: "tag_size (ram t) tg = tag_size ?m tg" "mmap_entry_size (ram t) tg = mmap_entry_size ?m tg"
    using off_screen_read(1) [OF off eq, of 4] off_screen_read(1) [OF off eq, of 8] size
    by (simp_all add: tag_size_def mmap_entry_size_def)
  have num: "renderable ''multiboot2_get_memory: Tag size: %d, Entry size: %d\<newline>''
      [VaWord (ucast (tag_size ?m tg)), VaWord (ucast (mmap_entry_size ?m tg))]"
    using less_least [of "tag_size ?m tg"] less_least [of "mmap_entry_size ?m tg"] tg
    by (simp add: mmap_ok_def)
  let ?n = "(unat (tag_size ?m tg) - 16) div unat (mmap_entry_size ?m tg)"
  have n: "unat ((ucast (tag_size ?m tg) - 16) div ucast (mmap_entry_size ?m tg) :: u64) = ?n"
  proof -
    have "unat (ucast (tag_size ?m tg) - 16 :: u64) = unat (tag_size ?m tg) - 16"
      using size by (subst unat_sub) (simp_all add: word_le_nat_alt)
    then show ?thesis by (simp add: unat_div_distrib)
  qed
  have start: "tg + 16 = entry ?m tg 0" by (simp add: entry_def)
  show ?thesis
    unfolding mmap_read_def Let_def same n start r
  proof (rule runs_log [OF t num], rule runs_if, goal_cases)
    case (1 u)
    with es big show ?case by simp
  next
    case (2 u)
    have all: "\<forall>x. outside_screen x \<longrightarrow> ram s x = ?m x" and idx: "0 + ?n = ?n" by simp_all
    show ?case
    proof (rule runs_seq [OF mmap_loop_sums [OF tg all idx 2(1), of 0]], clarify, rule runs_log, assumption)
      fix l v assume "logs s v"
      then show "runs (ret (True, r\<lparr>mem_len := 0 + (\<Sum>i\<leftarrow>filter (\<lambda>i. 16 + i * unat (mmap_entry_size ?m tg) + 24
          \<le> unat (tag_size ?m tg)) [0..<?n]. if entry_type ?m (entry ?m tg i) = 1 then entry_len ?m (entry ?m tg i) else 0)\<rparr>, v)) ?Q"
        by (simp add: available_def Let_def)
    qed simp
  qed
qed

lemma get_memory_runs:
  assumes "vga_ok s" "uart_drains (device s)" "tag_type (ram s) tg = 6" "mmap_ok (ram s) tg"
  shows "runs (get_memory tg new_resource s) (\<lambda>(stop, r, t). stop \<and> logs s t
    \<and> r = \<lparr>res_type = 1, res_name = Some ''available phy memory'', mem_addr = 0,
         mem_len = available (ram s) tg, res_intr_no = 0\<rparr>)"
  unfolding get_memory_def
proof (rule runs_if, goal_cases)
  case 1
  with assms(3) show ?case by (simp add: MULTIBOOT_TAG_TYPE_MMAP_def)
next
  case 2
  show ?case
  proof (rule runs_log [OF logs_refl [OF assms(1,2)]], simp)
    fix t assume "logs s t"
    from mmap_read_runs [OF this assms(4)]
    show "runs (mmap_read tg (new_resource\<lparr>res_type := res_type new_resource OR RESOURCE_MEM,
        res_name := Some ''available phy memory'', mem_addr := 0, mem_len := 0\<rparr>) t)
      (\<lambda>(stop, r, t). stop \<and> logs s t \<and> r = \<lparr>res_type = 1, res_name = Some ''available phy memory'',
         mem_addr = 0, mem_len = available (ram s) tg, res_intr_no = 0\<rparr>)"
      by (rule runs_mono) (auto simp: new_resource_def RESOURCE_MEM_def)
  qed
qed


lemma get_memory_sums_aux:
  assumes "vga_ok s" "uart_drains (device s)" "boot_inited s"
    and "first_mmap (ram s) (boot_info_addr s + 8) r" "\<forall>tg. r = Some tg \<longrightarrow> mmap_ok (ram s) tg"
  shows "runs (BOOT_INFO_get_memory s) (\<lambda>(res, t). logs s t
    \<and> res = (case r of None \<Rightarrow> new_resource | Some tg \<Rightarrow>
        \<lparr>res_type = 1, res_name = Some ''available phy memory'', mem_addr = 0,
          mem_len = available (ram s) tg, res_intr_no = 0\<rparr>))"
proof (cases r)
  case None
  have "BOOT_INFO_get_memory s = ret (new_resource, s)"
    using first_mmap_loop [OF assms(4) refl] assms(3) by (simp add: BOOT_INFO_get_memory_def multiboot2_iter_def None)
  then show ?thesis using logs_refl [OF assms(1,2)] by (simp add: None)
next
  case (Some tg)
  have tg: "tag_type (ram s) tg = 6" "mmap_ok (ram s) tg"
    using first_mmap_type assms(4,5) Some by blast+
  have "BOOT_INFO_get_memory s = iter_loop get_memory tg new_resource s"
    using first_mmap_loop [OF assms(4) refl] assms(3) by (simp add: BOOT_INFO_get_memory_def multiboot2_iter_def Some)
  also have "\<dots> = seq (get_memory tg new_resource s) (\<lambda>r. case r of (stop, d, t) \<Rightarrow>
      if stop then ret (d, t) else iter_loop get_memory (tg + ucast (ALIGN32 (tag_size (ram t) tg) 8)) d t)"
    using tg(1) by (subst iter_loop.simps) (simp add: MULTIBOOT_TAG_TYPE_END_def)
  finally have eq: "BOOT_INFO_get_memory s = \<dots>" .
  show ?thesis
    unfolding eq using get_memory_runs [OF assms(1,2) tg] by (rule runs_seq) (auto simp: Some)
qed

text \<open>C30: After a successful start \<open>BOOT_INFO::get_memory\<close> finds the first memory map tag before the end tag and returns the
  sum (modulo 2^64) of the lengths of its entries of type 1 that lie within the tag; without such a tag it returns the
  empty resource. Only the debug console changes.\<close>

theorem get_memory_sums:
  assumes "vga_ok s" "uart_drains (device s)" "boot_inited s"
    and "first_mmap (ram s) (boot_info_addr s + 8) r" "\<forall>tg. r = Some tg \<longrightarrow> mmap_ok (ram s) tg"
  shows "runs (BOOT_INFO_get_memory s) (\<lambda>(res, t). logs s t
    \<and> res = (case r of None \<Rightarrow> new_resource | Some tg \<Rightarrow>
        \<lparr>res_type = 1, res_name = Some ''available phy memory'', mem_addr = 0,
          mem_len = available (ram s) tg, res_intr_no = 0\<rparr>))"
  using assms by (rule get_memory_sums_aux)

definition two_entries :: mem where
  "two_entries = (\<lambda>_. 0)(0x200008 := 6, 0x20000C := 64, 0x200010 := 24,
     0x200021 := 0x10, 0x200028 := 1, 0x20003A := 0x20, 0x200040 := 2)"

theorem get_memory_sums_witness:
  "runs (BOOT_INFO_get_memory (boot_state two_entries)) (\<lambda>(res, t). mem_len res = 0x1000)"
proof -
  let ?s = "boot_state two_entries" and ?tg = "0x200008 :: addr"
  have bytes: "tag_type (ram ?s) ?tg = 6" "tag_size (ram ?s) ?tg = 64" "mmap_entry_size (ram ?s) ?tg = 24"
    "entry (ram ?s) ?tg 0 = 0x200018" "entry (ram ?s) ?tg 1 = 0x200030"
    "entry_type (ram ?s) 0x200018 = 1" "entry_len (ram ?s) 0x200018 = 0x1000" "entry_type (ram ?s) 0x200030 = 2"
    by (simp_all add: tag_type_def tag_size_def mmap_entry_size_def entry_def entry_type_def entry_len_def
      boot_state_def two_entries_def read32_def read64_def bytes_at_def upt_conv_Cons)
  have tag: "first_mmap (ram ?s) (boot_info_addr ?s + 8) (Some ?tg)"
    using first_mmap.Here [OF bytes(1)] by (simp add: boot_state_def)
  have ok: "\<forall>tg. Some ?tg = Some tg \<longrightarrow> mmap_ok (ram ?s) tg"
    by (simp add: mmap_ok_def bytes(2,3)) (rule off_screen_high, simp_all)
  have "available (ram ?s) ?tg = 0x1000"
    by (simp add: available_def bytes bytes(5) [unfolded One_nat_def] upt_conv_Cons)
  with get_memory_sums [OF boot_state_ready _ tag ok] show ?thesis
    by (auto simp: boot_state_def elim!: runs_mono)
qed

text \<open>A tag that is its own successor is never left.\<close>

lemma iter_loop_stuck:
  assumes "tag_type (ram s) tg \<noteq> 0" "f tg d s = ret (False, d, s)" "ALIGN32 (tag_size (ram s) tg) 8 = 0"
  shows "iter_loop f tg d s = None"
proof (rule ccontr)
  assume "iter_loop f tg d s \<noteq> None"
  then obtain y where "iter_loop f tg d s = Some y" by blast
  then have "f tg d s = ret (False, d, s) \<longrightarrow> tag_type (ram s) tg \<noteq> 0 \<longrightarrow> ALIGN32 (tag_size (ram s) tg) 8 = 0 \<longrightarrow> False"
    by (rule iter_loop.raw_induct [rotated]) (auto simp: MULTIBOOT_TAG_TYPE_END_def split: if_splits)
  with assms show False by blast
qed



end
