(* ===== verification/Tui_Props.thy ===== *)
theory Tui_Props
  imports Tui Vga_Printf
begin

text \<open>
  What the text console guarantees: characters survive the way through memory, \<open>put_char\<close> implements
  the abstract screen and moves the hardware cursor along, nothing outside the text buffer is
  written, and the two places where it goes wrong: tabs at the end of a line and \<open>get_pos\<close>.
\<close>

section \<open>Characters in memory\<close>

lemma char_encode_decode [simp]: "char_encode (char_decode v) = v"
proof (rule bit_word_eqI)
  fix n assume n: "n < LENGTH(16)"
  show "bit (char_encode (char_decode v)) n = bit v n"
  proof (cases "n < 12")
    case True
    then show ?thesis
      using n by (auto simp: char_encode_def char_decode_def bit_or_iff bit_push_bit_iff bit_unsigned_iff bit_drop_bit_eq)
  next
    case False
    then obtain k where "n = 12 + k" using le_Suc_ex by (metis not_less)
    then show ?thesis
      using n by (simp add: char_encode_def char_decode_def bit_or_iff bit_push_bit_iff bit_unsigned_iff bit_drop_bit_eq)
  qed
qed

lemma char_decode_encode [simp]: "char_decode (char_encode x) = x"
proof -
  have "char_c (char_decode (char_encode x)) = char_c x"
    by (rule bit_word_eqI) (auto simp: char_encode_def char_decode_def bit_or_iff bit_push_bit_iff bit_unsigned_iff)
  moreover have "col_fore (char_color (char_decode (char_encode x))) = col_fore (char_color x)"
    by (rule bit_word_eqI)
      (auto simp: char_encode_def char_decode_def bit_or_iff bit_push_bit_iff bit_unsigned_iff bit_drop_bit_eq
        dest: bit_imp_le_length)
  moreover have "col_back (char_color (char_decode (char_encode x))) = col_back (char_color x)"
    by (rule bit_word_eqI)
      (auto simp: char_encode_def char_decode_def bit_or_iff bit_push_bit_iff bit_unsigned_iff bit_drop_bit_eq
        dest: bit_imp_le_length)
  ultimately show ?thesis by simp
qed

section \<open>The CRT controller\<close>

text \<open>The index register and a data register after a trace, and the cursor the two of them make up.\<close>

fun crt_index :: "port_event list \<Rightarrow> u8" where
  "crt_index [] = 0"
| "crt_index (Out8 q v # es) = (if q = 0x3D4 then v else crt_index es)"
| "crt_index (_ # es) = crt_index es"

fun crt_reg :: "u8 \<Rightarrow> port_event list \<Rightarrow> u8" where
  "crt_reg r [] = 0"
| "crt_reg r (Out8 q v # es) = (if q = 0x3D5 \<and> crt_index es = r then v else crt_reg r es)"
| "crt_reg r (_ # es) = crt_reg r es"

definition crt_cursor :: "port_event list \<Rightarrow> u16" where
  "crt_cursor tr = push_bit 8 (ucast (crt_reg 0xE tr)) OR ucast (crt_reg 0xF tr)"

definition linear :: "pos_t \<Rightarrow> nat" where
  "linear p = unat (pos_row p) * 80 + unat (pos_col p)"

lemma linear_bound: "linear p < 2 ^ 16"
proof -
  have "unat (pos_row p) < 256" "unat (pos_col p) < 256"
    using unsigned_less [of "pos_row p", where 'a = nat] unsigned_less [of "pos_col p", where 'a = nat] by simp_all
  then show ?thesis by (simp add: linear_def)
qed

lemma linear_index: "ucast (pos_row p) * TUI_WIDTH + ucast (pos_col p) = (of_nat (linear p) :: u64)"
  by (simp add: linear_def TUI_WIDTH_def)

lemma unat_of_linear: "unat (of_nat (linear p) :: u64) = linear p"
  using linear_bound [of p] by (intro unat_of_nat_64) simp

lemma set_pos_shape:
  "tui_set_pos p s = s\<lparr>tui_pos := p, ports :=
     Out8 0x3D5 (ucast (of_nat (linear p) :: u16)) # Out8 0x3D4 0xF
     # Out8 0x3D5 (ucast (drop_bit 8 (of_nat (linear p) :: u16))) # Out8 0x3D4 0xE # ports s\<rparr>"
proof -
  have "(ucast (of_nat (linear p) :: u64) :: u16) = of_nat (linear p)"
    by (simp add: unsigned_of_nat word_of_nat_eq_iff take_bit_take_bit)
  then show ?thesis
    unfolding tui_set_pos_def Let_def linear_index
    by (simp add: port_outb_def TUI_ADDR_def TUI_DATA_def TUI_CURSOR_H_def TUI_CURSOR_L_def)
qed

lemma set_pos_cursor: "crt_cursor (ports (tui_set_pos p s)) = of_nat (linear p)"
proof -
  have "push_bit 8 (ucast (ucast (drop_bit 8 w) :: u8)) OR ucast (ucast w :: u8) = (w :: u16)" for w
    by (rule bit_word_eqI) (auto simp: bit_or_iff bit_push_bit_iff bit_unsigned_iff bit_drop_bit_eq)
  then show ?thesis by (simp add: set_pos_shape crt_cursor_def)
qed

lemma set_pos_simps [simp]:
  "cursor_x (tui_set_pos p s) = cursor_x s" "cursor_y (tui_set_pos p s) = cursor_y s"
  "current_color (tui_set_pos p s) = current_color s"
  "ram (tui_set_pos p s) = ram s" "device (tui_set_pos p s) = device s" "tui_pos (tui_set_pos p s) = p"
  "tui_color (tui_set_pos p s) = tui_color s" "tui.more (tui_set_pos p s) = tui.more s"
  "written 0x3F8 (ports (tui_set_pos p s)) = written 0x3F8 (ports s)"
  "console_ports tr (ports (tui_set_pos p s)) = console_ports tr (ports s)"
  by (simp_all add: set_pos_shape console_ports_def)

section \<open>Steps of the console\<close>

text \<open>What a step may change: the first \<open>n\<close> cells, the position, the ports; the serial port gets \<open>bs\<close>.\<close>

definition tui_step :: "nat \<Rightarrow> 'a tui_scheme \<Rightarrow> 'a tui_scheme \<Rightarrow> u8 list \<Rightarrow> bool" where
  "tui_step n s t bs \<longleftrightarrow> device t = device s \<and> cursor_x t = cursor_x s \<and> cursor_y t = cursor_y s
     \<and> current_color t = current_color s \<and> tui_color t = tui_color s \<and> tui.more t = tui.more s
     \<and> written 0x3F8 (ports t) = written 0x3F8 (ports s) @ bs \<and> console_ports (ports s) (ports t)
     \<and> (\<forall>a. \<not> in_region 0xB8000 (2 * n) a \<longrightarrow> ram t a = ram s a)"

lemma tui_step_refl [simp]: "tui_step n s s []"
  by (simp add: tui_step_def)

lemma tui_step_trans: "tui_step n s t as \<Longrightarrow> tui_step n t u bs \<Longrightarrow> tui_step n s u (as @ bs)"
  unfolding tui_step_def using console_ports_trans by auto

lemma tui_step_mono: "tui_step n s t bs \<Longrightarrow> n \<le> k \<Longrightarrow> tui_step k s t bs"
  unfolding tui_step_def by (meson in_region_mono mult_le_mono2)

lemma tui_step_pos [simp]: "tui_step n s (t\<lparr>tui_pos := p\<rparr>) bs = tui_step n s t bs"
  by (simp add: tui_step_def)

lemma tui_step_set_pos [simp]: "tui_step n s (tui_set_pos p t) bs = tui_step n s t bs"
  by (simp add: tui_step_def)

lemma tui_buffer_cell: "tui_buffer (of_nat i) = cell_addr i"
  by (simp add: tui_buffer_def cell_addr_def TUI_MEM_BASE_def)

lemma tui_write_fields [simp]:
  "cursor_x (tui_write i d s) = cursor_x s" "cursor_y (tui_write i d s) = cursor_y s"
  "current_color (tui_write i d s) = current_color s" "device (tui_write i d s) = device s" "tui_color (tui_write i d s) = tui_color s"
  "tui_pos (tui_write i d s) = tui_pos s" "ports (tui_write i d s) = ports s"
  "tui.more (tui_write i d s) = tui.more s"
  by (simp_all add: tui_write_def)

lemma tui_write_cells:
  "i < 2000 \<Longrightarrow> cells (ram (tui_write (of_nat i) d s)) 2000 = (cells (ram s) 2000)[i := char_encode d]"
  by (simp add: tui_write_def tui_buffer_cell cells_store16)

lemma store16_outside_cells:
  assumes "i < n" "n \<le> 2 ^ 32" "\<not> in_region 0xB8000 (2 * n) a"
  shows "store16 m (cell_addr i) v a = m a"
proof -
  have "fits 0xB8000 (2 * n)" using assms(2) by (simp add: fits_def)
  then have "in_region 0xB8000 (2 * n) (cell_addr i)" "in_region 0xB8000 (2 * n) (cell_addr i + 1)"
    using assms(1,2) by (simp_all add: in_region_fits cell_addr_unat cell_addr_unat_Suc)
  with assms(3) show ?thesis by (intro store16_outside) auto
qed

lemma tui_write_step: "i < n \<Longrightarrow> n \<le> 2 ^ 32 \<Longrightarrow> tui_step n s (tui_write (of_nat i) d s) []"
  by (simp add: tui_step_def tui_write_def tui_buffer_cell store16_outside_cells)

lemma tui_step_write:
  "tui_step n s t bs \<Longrightarrow> i < n \<Longrightarrow> n \<le> 2 ^ 32 \<Longrightarrow> tui_step n s (tui_write (of_nat i) d t) bs"
  using tui_step_trans [OF _ tui_write_step, of n s t bs i] by simp

lemma sends_tui_step:
  fixes s t :: "'a tui_scheme"
  assumes "sends s t bs"
  shows "tui_step n s t bs \<and> ram t = ram s \<and> tui_pos t = tui_pos s"
proof -
  from assms obtain tr where "t = s\<lparr>ports := tr\<rparr>" "written 0x3F8 tr = written 0x3F8 (ports s) @ bs"
    "console_ports (ports s) tr" by (auto simp: sends_def)
  then show ?thesis by (simp add: tui_step_def)
qed

section \<open>Scrolling\<close>

definition blank_cell :: "'a tui_scheme \<Rightarrow> u16" where
  "blank_cell s = char_encode (new_char (of_char CHR '' '') (tui_color s))"

lemma tui_step_blank: "tui_step n s t bs \<Longrightarrow> blank_cell t = blank_cell s"
  by (simp add: tui_step_def blank_cell_def)

text \<open>The two loops, as operations on the cells.\<close>

lemma move_loop:
  fixes s :: "'a tui_scheme"
  defines "move \<equiv> (\<lambda>i s :: 'a tui_scheme. tui_write (of_nat i) (tui_read (of_nat i + TUI_WIDTH) s) s)"
  shows "cells (ram (fold move [0..<1920] s)) 2000 = fold (\<lambda>i xs. xs[i := xs ! (i + 80)]) [0..<1920] (cells (ram s) 2000)"
    and "tui_step 2000 s (fold move [0..<1920] s) []" and "tui_pos (fold move [0..<1920] s) = tui_pos s"
proof -
  have "cells (ram (move i t)) 2000 = (cells (ram t) 2000)[i := cells (ram t) 2000 ! (i + 80)]"
    if "i < 1920" for i and t :: "'a tui_scheme"
  proof -
    have "tui_buffer (of_nat i + TUI_WIDTH) = cell_addr (i + 80)"
      using tui_buffer_cell [of "i + 80"] by (simp add: TUI_WIDTH_def)
    with that show ?thesis by (simp add: move_def tui_write_cells tui_read_def)
  qed
  then show "cells (ram (fold move [0..<1920] s)) 2000
      = fold (\<lambda>i xs. xs[i := xs ! (i + 80)]) [0..<1920] (cells (ram s) 2000)"
    by (intro fold_abs [where F = "\<lambda>s. cells (ram s) 2000"]) simp
  show "tui_step 2000 s (fold move [0..<1920] s) []"
    by (rule fold_keeps) (simp_all add: move_def tui_step_write)
  show "tui_pos (fold move [0..<1920] s) = tui_pos s"
    by (rule fold_keeps) (simp_all add: move_def)
qed

lemma fill_loop:
  fixes s :: "'a tui_scheme"
  defines "fill \<equiv> (\<lambda>i s :: 'a tui_scheme. tui_write (of_nat i) (new_char (of_char CHR '' '') (tui_color s)) s)"
  assumes "k \<le> 2000"
  shows "cells (ram (fold fill [k..<2000] s)) 2000 = take k (cells (ram s) 2000) @ replicate (2000 - k) (blank_cell s)"
    and "tui_step 2000 s (fold fill [k..<2000] s) []" and "tui_pos (fold fill [k..<2000] s) = tui_pos s"
proof -
  show step: "tui_step 2000 s (fold fill [k..<2000] s) []"
    by (rule fold_keeps) (simp_all add: fill_def tui_step_write)
  show "tui_pos (fold fill [k..<2000] s) = tui_pos s"
    by (rule fold_keeps) (simp_all add: fill_def)
  have "tui_color t = tui_color s \<Longrightarrow> set xs \<subseteq> {..<2000} \<Longrightarrow>
      cells (ram (fold fill xs t)) 2000 = fold (\<lambda>i xs. xs[i := blank_cell s]) xs (cells (ram t) 2000)"
    for xs and t :: "'a tui_scheme"
    by (induction xs arbitrary: t) (simp_all add: fill_def tui_write_cells blank_cell_def)
  note that = this
  have "cells (ram (fold fill [k..<2000] s)) 2000
      = fold (\<lambda>i xs. xs[i := blank_cell s]) (map ((+) k) [0..<2000 - k]) (cells (ram s) 2000)"
  proof -
    have "[k..<2000] = map ((+) k) [0..<2000 - k]" using assms(2) by (intro nth_equalityI) auto
    moreover have "set (map ((+) k) [0..<2000 - k]) \<subseteq> {..<2000}" by auto
    ultimately show ?thesis using that [of s "map ((+) k) [0..<2000 - k]"] by (metis (no_types))
  qed
  also have "\<dots> = take k (cells (ram s) 2000) @ replicate (2000 - k) (blank_cell s)"
    using fold_fill [of k "2000 - k" "cells (ram s) 2000" "blank_cell s"] assms(2)
    by (simp add: fold_map comp_def)
  finally show "cells (ram (fold fill [k..<2000] s)) 2000
      = take k (cells (ram s) 2000) @ replicate (2000 - k) (blank_cell s)" .
qed

text \<open>A scroll of the console is a scroll of the abstract screen.\<close>

lemma unat_u8_u64 [simp]: "unat (ucast (x :: u8) :: u64) = unat x"
proof -
  have "(ucast x :: u64) = of_nat (unat x)" by simp
  also have "unat \<dots> = unat x"
    using unsigned_less [of x, where 'a = nat] by (intro unat_of_nat_64) simp
  finally show ?thesis .
qed

lemma tui_scroll_none: "unat (pos_row (tui_pos s)) < 25 \<Longrightarrow> tui_scroll s = s"
  by (simp add: tui_scroll_def word_le_nat_alt TUI_HEIGHT_def)

lemma tui_scroll_lines:
  assumes "25 \<le> unat (pos_row (tui_pos s))"
  shows "tui_step 2000 s (tui_scroll s) []"
    and "cells (ram (tui_scroll s)) 2000 = scroll_up (blank_cell s) (cells (ram s) 2000)"
    and "tui_pos (tui_scroll s) = (tui_pos s)\<lparr>pos_row := 24\<rparr>"
proof -
  define m where "m = fold (\<lambda>i s. tui_write (of_nat i) (tui_read (of_nat i + TUI_WIDTH) s) s) [0..<1920] s"
  define f where "f = fold (\<lambda>i s. tui_write (of_nat i) (new_char (of_char CHR '' '') (tui_color s)) s) [1920..<2000] m"
  have scr: "tui_scroll s = f\<lparr>tui_pos := (tui_pos f)\<lparr>pos_row := 24\<rparr>\<rparr>"
  proof -
    have "TUI_HEIGHT \<le> ucast (pos_row (tui_pos s))" using assms by (simp add: word_le_nat_alt TUI_HEIGHT_def)
    moreover have "unat ((TUI_HEIGHT - 1) * TUI_WIDTH) = 1920" "unat (TUI_HEIGHT * TUI_WIDTH) = 2000"
      "ucast (TUI_HEIGHT - 1) = (24 :: u8)"
      by (simp_all add: TUI_HEIGHT_def TUI_WIDTH_def)
    ultimately show ?thesis by (simp only: tui_scroll_def Let_def if_True m_def f_def)
  qed
  note moved = move_loop [of s, folded m_def]
  have filled: "cells (ram f) 2000 = take 1920 (cells (ram m) 2000) @ replicate 80 (blank_cell m)"
    "tui_step 2000 m f []" "tui_pos f = tui_pos m"
    using fill_loop [of 1920 m, folded f_def] by simp_all
  show "tui_step 2000 s (tui_scroll s) []"
    using tui_step_trans [OF moved(2) filled(2)] by (simp add: scr)
  show "tui_pos (tui_scroll s) = (tui_pos s)\<lparr>pos_row := 24\<rparr>"
    using moved(3) filled(3) by (simp add: scr)
  have "cells (ram f) 2000 = scroll_up (blank_cell s) (cells (ram s) 2000)"
    unfolding filled(1) moved(1) tui_step_blank [OF moved(2)] by (simp add: fold_shift scroll_up_def)
  then show "cells (ram (tui_scroll s)) 2000 = scroll_up (blank_cell s) (cells (ram s) 2000)"
    by (simp add: scr)
qed

section \<open>The abstract console\<close>

text \<open>The cells and the number of the cell the cursor is on; a tab moves to the next multiple of 4, a backspace
  blanks the cell to the left, unless it is in the first column.\<close>

definition tui_put :: "u16 \<Rightarrow> u16 \<Rightarrow> char \<Rightarrow> u16 list \<times> nat \<Rightarrow> u16 list \<times> nat" where
  "tui_put blank entry c = (\<lambda>(cs, p).
     if c = CHR 0x09 then (cs, p + 4 - p mod 4)
     else if c = CHR 0x08 then (if p mod 80 = 0 then (cs, p) else (cs[p - 1 := blank], p - 1))
     else screen_put blank entry c (cs, p))"

definition tui_ok :: "'a tui_scheme \<Rightarrow> bool" where
  "tui_ok s \<longleftrightarrow> unat (pos_row (tui_pos s)) < 25 \<and> unat (pos_col (tui_pos s)) < 80"

definition tui_abs :: "'a tui_scheme \<Rightarrow> u16 list \<times> nat" where
  "tui_abs s = (cells (ram s) 2000, linear (tui_pos s))"

definition tui_serial :: "char \<Rightarrow> u8 list" where
  "tui_serial c = (if c = CHR 0x09 \<or> c = CHR 0x08 then [] else serial_bytes [c])"

text \<open>The end of \<open>put_char\<close>: scroll and move the hardware cursor.\<close>

lemma tui_finish:
  assumes "tui_step 2000 s t bs" "unat (pos_row (tui_pos t)) \<le> 25" "unat (pos_col (tui_pos t)) < 80"
    and "u = (let s = tui_scroll t in tui_set_pos (tui_pos s) s)"
  shows "tui_ok u \<and> tui_step 2000 s u bs \<and> crt_cursor (ports u) = of_nat (linear (tui_pos u))
    \<and> tui_abs u = (if linear (tui_pos t) < 2000 then (cells (ram t) 2000, linear (tui_pos t))
        else (scroll_up (blank_cell s) (cells (ram t) 2000), linear (tui_pos t) - 80))"
proof (cases "unat (pos_row (tui_pos t)) = 25")
  case True
  then have "linear (tui_pos t) = 2000 + unat (pos_col (tui_pos t))" by (simp add: linear_def)
  then show ?thesis
    using assms(1,3) True tui_scroll_lines [of t] tui_step_trans [of 2000 s t bs "tui_scroll t" "[]"]
    by (simp add: assms(4) Let_def tui_ok_def tui_abs_def set_pos_cursor tui_step_blank) (simp add: linear_def)
next
  case False
  with assms(2) have row: "unat (pos_row (tui_pos t)) < 25" by simp
  with assms(3) have "linear (tui_pos t) < 2000" by (simp add: linear_def)
  with row assms(1,3) show ?thesis
    by (simp add: assms(4) Let_def tui_scroll_none tui_ok_def tui_abs_def set_pos_cursor)
qed

text \<open>The four kinds of characters, up to the scroll.\<close>

definition entry_cell :: "'a tui_scheme \<Rightarrow> char \<Rightarrow> u16" where
  "entry_cell s c = char_encode (new_char (of_char c) (tui_color s))"

lemma u8_plus: "unat (x :: u8) < 255 \<Longrightarrow> unat (x + 1) = unat x + 1"
  by (simp add: unat_word_ariths)

lemma put_char_finish:
  assumes "escapeconv c s = ret (True, t) \<or> (escapeconv c s = ret (False, s)
      \<and> seq (serial_putc (put_entry_at c (tui_color s) (ucast (pos_col (tui_pos s))) (ucast (pos_row (tui_pos s))) s) c)
          (\<lambda>s. let p = (tui_pos s)\<lparr>pos_col := pos_col (tui_pos s) + 1\<rparr>
               in ret (s\<lparr>tui_pos := if ucast (pos_col p) \<ge> TUI_WIDTH
                                 then \<lparr>pos_col = 0, pos_row = pos_row p + 1\<rparr> else p\<rparr>)) = ret t)"
  shows "tui_put_char c s = ret (let s = tui_scroll t in tui_set_pos (tui_pos s) s)"
  using assms by (elim disjE conjE) (simp_all add: tui_put_char_def Let_def)

lemma put_newline:
  assumes "tui_ok s" "uart_drains (device s)"
  shows "\<exists>t. escapeconv CHR 0x0A s = ret (True, t) \<and> tui_step 2000 s t (serial_bytes [CHR 0x0A])
    \<and> cells (ram t) 2000 = cells (ram s) 2000
    \<and> unat (pos_row (tui_pos t)) = unat (pos_row (tui_pos s)) + 1 \<and> pos_col (tui_pos t) = 0"
proof -
  let ?s = "s\<lparr>tui_pos := \<lparr>pos_col = 0, pos_row = pos_row (tui_pos s) + 1\<rparr>\<rparr>"
  obtain t where t: "serial_putc ?s CHR 0x0A = ret t" "sends ?s t (serial_bytes [CHR 0x0A])"
    using serial_putc_sends_aux [of ?s "CHR 0x0A"] assms(2) by auto
  have row: "unat (pos_row (tui_pos s) + 1) = unat (pos_row (tui_pos s)) + 1"
    using assms(1) by (intro u8_plus) (simp add: tui_ok_def)
  have st: "tui_step 2000 s ?s []" by simp
  from tui_step_trans [OF st] sends_tui_step [OF t(2), of 2000] t(1) row
  show ?thesis by (auto simp: escapeconv_def Let_def)
qed

lemma put_tab:
  assumes "unat (pos_col (tui_pos s)) < 252"
  shows "\<exists>t. escapeconv CHR 0x09 s = ret (True, t) \<and> tui_step 2000 s t []
    \<and> cells (ram t) 2000 = cells (ram s) 2000 \<and> pos_row (tui_pos t) = pos_row (tui_pos s)
    \<and> unat (pos_col (tui_pos t)) = unat (pos_col (tui_pos s)) + 4 - unat (pos_col (tui_pos s)) mod 4"
proof -
  let ?c = "pos_col (tui_pos s)"
  have mod: "unat (?c mod 4) = unat ?c mod 4" by (simp add: unat_mod_distrib)
  then have "unat (if ?c mod 4 = 0 then 4 else 4 - ?c mod 4) = 4 - unat ?c mod 4"
    by (simp add: word_unat_eq_iff unat_sub word_le_nat_alt)
  then have "unat (?c + (if ?c mod 4 = 0 then 4 else 4 - ?c mod 4)) = unat ?c + (4 - unat ?c mod 4)"
    using assms by (simp add: unat_word_ariths)
  then have "unat (?c + (if ?c mod 4 = 0 then 4 else 4 - ?c mod 4)) = unat ?c + 4 - unat ?c mod 4" by simp
  then show ?thesis by (intro exI [of _ "snd (projr (the (escapeconv CHR 0x09 s)))"])
    (simp add: escapeconv_def Let_def ret_def)
qed

lemma put_backspace:
  assumes "tui_ok s"
  shows "\<exists>t. escapeconv CHR 0x08 s = ret (True, t) \<and> tui_step 2000 s t []
    \<and> pos_row (tui_pos t) = pos_row (tui_pos s)
    \<and> unat (pos_col (tui_pos t)) = unat (pos_col (tui_pos s)) - 1
    \<and> cells (ram t) 2000 = (if pos_col (tui_pos s) = 0 then cells (ram s) 2000
        else (cells (ram s) 2000)[linear (tui_pos s) - 1 := blank_cell s])"
proof (cases "pos_col (tui_pos s) = 0")
  case True
  then show ?thesis by (auto simp: escapeconv_def Let_def)
next
  case False
  let ?p = "tui_pos s" let ?q = "?p\<lparr>pos_col := pos_col ?p - 1\<rparr>"
  let ?s = "s\<lparr>tui_pos := ?q\<rparr>"
  let ?d = "new_char (of_char CHR '' '') (tui_color s)"
  have pos: "pos_col ?p > 0" "unat (pos_col ?p - 1) = unat (pos_col ?p) - 1"
    using False by (simp_all add: word_greater_zero_iff unat_minus_one)
  have lin: "linear ?q = linear ?p - 1" "linear ?p - 1 < 2000"
    using assms pos by (auto simp: linear_def tui_ok_def word_less_nat_alt)
  have "escapeconv CHR 0x08 s = ret (True, tui_write (of_nat (linear ?p - 1)) ?d ?s)"
    using pos(1) linear_index [of ?q] lin(1) by (simp add: escapeconv_def Let_def)
  moreover have "tui_step 2000 s (tui_write (of_nat (linear ?p - 1)) ?d ?s) []"
    by (rule tui_step_write) (use lin(2) in simp_all)
  ultimately show ?thesis
    using False pos lin by (simp add: tui_write_cells blank_cell_def)
qed

lemma put_plain:
  assumes "tui_ok s" "uart_drains (device s)" "c \<notin> {CHR 0x0A, CHR 0x09, CHR 0x08}"
  shows "\<exists>t. escapeconv c s = ret (False, s)
    \<and> seq (serial_putc (put_entry_at c (tui_color s) (ucast (pos_col (tui_pos s))) (ucast (pos_row (tui_pos s))) s) c)
        (\<lambda>s. let p = (tui_pos s)\<lparr>pos_col := pos_col (tui_pos s) + 1\<rparr>
             in ret (s\<lparr>tui_pos := if ucast (pos_col p) \<ge> TUI_WIDTH
                               then \<lparr>pos_col = 0, pos_row = pos_row p + 1\<rparr> else p\<rparr>)) = ret t
    \<and> tui_step 2000 s t (serial_bytes [c])
    \<and> cells (ram t) 2000 = (cells (ram s) 2000)[linear (tui_pos s) := entry_cell s c]
    \<and> linear (tui_pos t) = linear (tui_pos s) + 1
    \<and> unat (pos_row (tui_pos t)) \<le> 25 \<and> unat (pos_col (tui_pos t)) < 80
    \<and> (unat (pos_row (tui_pos t)) = 25 \<longrightarrow> pos_col (tui_pos t) = 0)"
proof -
  let ?p = "tui_pos s" and ?d = "new_char (of_char c) (tui_color s)"
  let ?w = "tui_write (of_nat (linear ?p)) ?d s"
  have lin: "linear ?p < 2000" using assms(1) by (simp add: tui_ok_def linear_def)
  have entry: "put_entry_at c (tui_color s) (ucast (pos_col ?p)) (ucast (pos_row ?p)) s = ?w"
    by (simp add: put_entry_at_def linear_index)
  obtain t where t: "serial_putc ?w c = ret t" "sends ?w t (serial_bytes [c])"
    using serial_putc_sends_aux [of ?w c] assms(2) by auto
  note sent = sends_tui_step [OF t(2), of 2000]
  have w: "tui_step 2000 s ?w []" by (rule tui_step_write) (use lin in simp_all)
  have step: "tui_step 2000 s t (serial_bytes [c])" using tui_step_trans [OF w] sent by fastforce
  have cells: "cells (ram t) 2000 = (cells (ram s) 2000)[linear ?p := entry_cell s c]" and pos: "tui_pos t = ?p"
    using sent lin by (simp_all add: tui_write_cells entry_cell_def)
  have inc: "unat (pos_col ?p + 1) = unat (pos_col ?p) + 1" "unat (pos_row ?p + 1) = unat (pos_row ?p) + 1"
    using assms(1) by (simp_all add: u8_plus tui_ok_def)
  define q where "q = (if 80 \<le> unat (pos_col ?p) + 1 then \<lparr>pos_col = 0, pos_row = pos_row ?p + 1\<rparr>
    else ?p\<lparr>pos_col := pos_col ?p + 1\<rparr>)"
  have "linear q = linear ?p + 1" "unat (pos_row q) \<le> 25" "unat (pos_col q) < 80"
    "unat (pos_row q) = 25 \<longrightarrow> pos_col q = 0"
    using assms(1) inc by (auto simp: q_def linear_def tui_ok_def)
  moreover have "TUI_WIDTH \<le> ucast (pos_col ?p + 1) \<longleftrightarrow> 80 \<le> unat (pos_col ?p) + 1"
    by (simp add: TUI_WIDTH_def word_le_nat_alt inc)
  ultimately show ?thesis
    using assms(3) t(1) step cells pos
    by (intro exI [of _ "t\<lparr>tui_pos := q\<rparr>"]) (simp add: escapeconv_def Let_def entry q_def)
qed

lemma tui_put_char_step:
  assumes "tui_ok s" "uart_drains (device s)" "c = CHR 0x09 \<Longrightarrow> unat (pos_col (tui_pos s)) < 76"
  shows "\<exists>u. tui_put_char c s = ret u \<and> tui_ok u \<and> tui_step 2000 s u (tui_serial c)
    \<and> tui_abs u = tui_put (blank_cell s) (entry_cell s c) c (tui_abs s)
    \<and> crt_cursor (ports u) = of_nat (linear (tui_pos u))"
proof -
  let ?p = "linear (tui_pos s)" and ?cs = "cells (ram s) 2000"
  let ?col = "unat (pos_col (tui_pos s))" and ?row = "unat (pos_row (tui_pos s))"
  have ok: "?row < 25" "?col < 80" "?p = ?row * 80 + ?col" "?p < 2000"
    using assms(1) by (simp_all add: tui_ok_def linear_def)
  consider "c = CHR 0x0A" | "c = CHR 0x09" | "c = CHR 0x08" | "c \<notin> {CHR 0x0A, CHR 0x09, CHR 0x08}" by blast
  then show ?thesis
  proof cases
    case 1
    obtain t where t: "escapeconv c s = ret (True, t)" "tui_step 2000 s t (serial_bytes [c])"
      "cells (ram t) 2000 = ?cs" "unat (pos_row (tui_pos t)) = ?row + 1" "pos_col (tui_pos t) = 0"
      using put_newline [OF assms(1,2)] 1 by blast
    define u where "u = (let s = tui_scroll t in tui_set_pos (tui_pos s) s)"
    have div: "?p div 80 = ?row" using ok(2,3) by (metis add.commute div_mult_self3 div_less zero_neq_numeral add_0)
    have lin: "linear (tui_pos t) = (?row + 1) * 80" by (simp only: linear_def t(4,5) unsigned_0 add_0_right)
    have "tui_put (blank_cell s) (entry_cell s c) c (?cs, ?p) =
      (if (?row + 1) * 80 < 2000 then (?cs, (?row + 1) * 80) else (scroll_up (blank_cell s) ?cs, 1920))"
      using 1 by (simp add: tui_put_def screen_put_def div)
    moreover have "(?row + 1) * 80 < 2000 \<or> (?row + 1) * 80 = 2000" using ok(1) by presburger
    ultimately have "tui_put (blank_cell s) (entry_cell s c) c (tui_abs s)
        = (if linear (tui_pos t) < 2000 then (?cs, linear (tui_pos t))
           else (scroll_up (blank_cell s) ?cs, linear (tui_pos t) - 80))"
      unfolding lin by (auto simp: tui_abs_def)
    with tui_finish [OF t(2) _ _ u_def] put_char_finish [OF disjI1 [OF t(1)], folded u_def] t 1 ok show ?thesis
      by (simp add: tui_serial_def)
  next
    case 2
    obtain t where t: "escapeconv c s = ret (True, t)" "tui_step 2000 s t []" "cells (ram t) 2000 = ?cs"
      "pos_row (tui_pos t) = pos_row (tui_pos s)" "unat (pos_col (tui_pos t)) = ?col + 4 - ?col mod 4"
      using put_tab [of s] ok(2) 2 by auto
    define u where "u = (let s = tui_scroll t in tui_set_pos (tui_pos s) s)"
    have col: "?col + 4 - ?col mod 4 < 80" using assms(3) [OF 2] by presburger
    have mod: "?p mod 4 = ?col mod 4" using ok(3) by presburger
    have "linear (tui_pos t) = ?row * 80 + (?col + 4 - ?col mod 4)" by (simp only: linear_def t(4,5))
    then have "linear (tui_pos t) = ?p + 4 - ?p mod 4" "linear (tui_pos t) < 2000"
      unfolding mod using col ok mod_less_eq_dividend [of ?col 4] by linarith+
    with tui_finish [OF t(2) _ _ u_def] put_char_finish [OF disjI1 [OF t(1)], folded u_def] t 2 ok col show ?thesis
      by (simp add: tui_serial_def tui_put_def tui_abs_def)
  next
    case 3
    obtain t where t: "escapeconv c s = ret (True, t)" "tui_step 2000 s t []"
      "pos_row (tui_pos t) = pos_row (tui_pos s)" "unat (pos_col (tui_pos t)) = ?col - 1"
      "cells (ram t) 2000 = (if pos_col (tui_pos s) = 0 then ?cs else ?cs[?p - 1 := blank_cell s])"
      using put_backspace [OF assms(1)] 3 by blast
    define u where "u = (let s = tui_scroll t in tui_set_pos (tui_pos s) s)"
    have zero: "pos_col (tui_pos s) = 0 \<longleftrightarrow> ?col = 0" by (simp add: word_unat_eq_iff)
    moreover have "?p mod 80 = ?col" unfolding ok(3) using ok(2) by simp
    moreover have "linear (tui_pos t) = ?row * 80 + (?col - 1)" by (simp only: linear_def t(3,4))
    then have "linear (tui_pos t) = (if ?col = 0 then ?p else ?p - 1)" "linear (tui_pos t) < 2000"
      using ok by auto
    ultimately show ?thesis
      using tui_finish [OF t(2) _ _ u_def] put_char_finish [OF disjI1 [OF t(1)], folded u_def] t 3 ok
      by (simp add: tui_serial_def tui_put_def tui_abs_def)
  next
    case 4
    from put_plain [OF assms(1,2) 4] obtain t where e: "tui_put_char c s = ret (let s = tui_scroll t in tui_set_pos (tui_pos s) s)"
      and t: "tui_step 2000 s t (serial_bytes [c])" "cells (ram t) 2000 = ?cs[?p := entry_cell s c]"
      "linear (tui_pos t) = ?p + 1" "unat (pos_row (tui_pos t)) \<le> 25" "unat (pos_col (tui_pos t)) < 80"
      using put_char_finish [OF disjI2, of c s] by blast
    define u where "u = (let s = tui_scroll t in tui_set_pos (tui_pos s) s)"
    from tui_finish [OF t(1) t(4,5) u_def] e [folded u_def] t 4 ok show ?thesis
      by (auto simp: tui_serial_def tui_put_def screen_put_def tui_abs_def)
  qed
qed


definition boot_tui :: tui where
  "boot_tui = \<lparr>ram = \<lambda>_. 0, ports = [], device = \<lambda>_ _. 0x20,
     cursor_x = 0, cursor_y = 0, current_color = VGA_WHITE, tui_pos = new_pos 79 24, tui_color = new_col WHITE BLACK\<rparr>"


section \<open>Memory safety\<close>

text \<open>A row inside the screen is enough: whatever the column, a character goes to one of the first 2176 cells.\<close>

lemma linear_safe: "unat (pos_row p) < 25 \<Longrightarrow> linear p < 2176"
  using unsigned_less [of "pos_col p", where 'a = nat] by (simp add: linear_def)

lemma row_inc: "unat (pos_row p) < 25 \<Longrightarrow> unat (pos_row p + 1) = unat (pos_row p) + 1"
  by (simp add: u8_plus)

lemma put_safe:
  assumes "unat (pos_row (tui_pos s)) < 25" "uart_drains (device s)"
  shows "\<exists>t. tui_put_char c s = ret (let s = tui_scroll t in tui_set_pos (tui_pos s) s)
    \<and> tui_step 2176 s t (tui_serial c) \<and> unat (pos_row (tui_pos t)) \<le> 25"
proof -
  let ?p = "tui_pos s"
  have wr: "tui_step 2176 s (tui_write (of_nat (linear q)) d t) []"
    if "unat (pos_row q) < 25" "tui_step 2176 s t []" for q d and t :: "'a tui_scheme"
    using tui_step_write [OF that(2) linear_safe [OF that(1)]] by simp
  consider "c = CHR 0x0A" | "c = CHR 0x09" | "c = CHR 0x08" | "c \<notin> {CHR 0x0A, CHR 0x09, CHR 0x08}" by blast
  then show ?thesis
  proof cases
    case 1
    let ?s = "s\<lparr>tui_pos := \<lparr>pos_col = 0, pos_row = pos_row ?p + 1\<rparr>\<rparr>"
    obtain t where t: "serial_putc ?s c = ret t" "sends ?s t (serial_bytes [c])"
      using serial_putc_sends_aux [of ?s c] assms(2) by auto
    have st: "tui_step 2176 s ?s []" by simp
    have "escapeconv c s = ret (True, t)" using 1 t(1) by (simp add: escapeconv_def Let_def)
    note e = put_char_finish [OF disjI1 [OF this]]
    from e tui_step_trans [OF st] sends_tui_step [OF t(2), of 2176] row_inc [OF assms(1)] assms(1) 1
    show ?thesis by (intro exI [of _ t]) (auto simp: tui_serial_def)
  next
    case 2
    define q where "q = ?p\<lparr>pos_col := pos_col ?p + (if pos_col ?p mod 4 = 0 then 4 else 4 - pos_col ?p mod 4)\<rparr>"
    have q: "escapeconv c s = ret (True, s\<lparr>tui_pos := q\<rparr>)" "pos_row q = pos_row ?p"
      using 2 by (simp_all add: escapeconv_def Let_def q_def)
    from put_char_finish [OF disjI1 [OF q(1)]] q(2) assms(1) 2
    show ?thesis by (intro exI [of _ "s\<lparr>tui_pos := q\<rparr>"]) (simp add: tui_serial_def)
  next
    case 3
    let ?q = "?p\<lparr>pos_col := pos_col ?p - 1\<rparr>" and ?d = "new_char (of_char CHR '' '') (tui_color s)"
    let ?t = "if pos_col ?p > 0 then tui_write (of_nat (linear ?q)) ?d (s\<lparr>tui_pos := ?q\<rparr>) else s"
    have "escapeconv c s = ret (True, ?t)"
      using 3 linear_index [of ?q] by (simp add: escapeconv_def Let_def)
    note e = put_char_finish [OF disjI1 [OF this]]
    have "tui_step 2176 s ?t []" using wr [of ?q "s\<lparr>tui_pos := ?q\<rparr>" ?d] assms(1) by simp
    with e assms(1) 3 show ?thesis by (intro exI [of _ ?t]) (simp add: tui_serial_def)
  next
    case 4
    let ?w = "tui_write (of_nat (linear ?p)) (new_char (of_char c) (tui_color s)) s"
    obtain t where t: "serial_putc ?w c = ret t" "sends ?w t (serial_bytes [c])"
      using serial_putc_sends_aux [of ?w c] assms(2) by auto
    define q where "q = (if ucast (pos_col ?p + 1) \<ge> TUI_WIDTH then \<lparr>pos_col = 0, pos_row = pos_row ?p + 1\<rparr>
      else ?p\<lparr>pos_col := pos_col ?p + 1\<rparr>)"
    note sent = sends_tui_step [OF t(2), of 2176]
    have "tui_put_char c s = ret (let s = tui_scroll (t\<lparr>tui_pos := q\<rparr>) in tui_set_pos (tui_pos s) s)"
      by (rule put_char_finish, rule disjI2)
        (use 4 t(1) sent in \<open>simp add: escapeconv_def put_entry_at_def linear_index Let_def q_def\<close>)
    moreover have "tui_step 2176 s (t\<lparr>tui_pos := q\<rparr>) (serial_bytes [c])"
      using tui_step_trans [OF wr [OF assms(1) tui_step_refl]] sent by fastforce
    moreover have "unat (pos_row q) \<le> 25" using assms(1) row_inc [OF assms(1)] by (simp add: q_def)
    ultimately show ?thesis using 4 by (intro exI [of _ "t\<lparr>tui_pos := q\<rparr>"]) (simp add: tui_serial_def)
  qed
qed

text \<open>As long as the row is on the screen, \<open>put_char\<close> of any character in any column returns with the row on
  the screen, sends the character and writes only inside the 32 KB text buffer.\<close>

theorem tui_put_char_safe:
  assumes "unat (pos_row (tui_pos s)) < 25" "uart_drains (device s)"
  shows "\<exists>u. tui_put_char c s = ret u \<and> unat (pos_row (tui_pos u)) < 25
    \<and> tui_step (unat TUI_MEM_SIZE div 2) s u (tui_serial c)"
proof -
  obtain t where e: "tui_put_char c s = ret (let s = tui_scroll t in tui_set_pos (tui_pos s) s)"
    and t: "tui_step 2176 s t (tui_serial c)" "unat (pos_row (tui_pos t)) \<le> 25"
    using put_safe [OF assms] by blast
  have "tui_step 2176 t (tui_scroll t) [] \<and> unat (pos_row (tui_pos (tui_scroll t))) < 25"
  proof (cases "unat (pos_row (tui_pos t)) < 25")
    case False
    then show ?thesis using tui_scroll_lines [of t] tui_step_mono [of 2000 t "tui_scroll t" "[]" 2176] by simp
  qed (simp add: tui_scroll_none)
  with e t(1) show ?thesis
    using tui_step_mono [OF tui_step_trans [OF t(1)], of "tui_scroll t" "[]" "unat TUI_MEM_SIZE div 2"]
    by (simp add: Let_def TUI_MEM_SIZE_def)
qed

theorem tui_put_char_safe_witness:
  "\<exists>u. tui_put_char CHR 0x09 boot_tui = ret u \<and> unat (pos_row (tui_pos u)) < 25"
  using tui_put_char_safe [of boot_tui "CHR 0x09"]
  by (auto simp: boot_tui_def new_pos_def uart_drains_def uart_ready_def)

end
