(* ===== verification/Tui_Text.thy ===== *)
theory Tui_Text
  imports Tui_Props
begin

text \<open>
  Strings on the text console, clearing it, its colours, and the places where it goes wrong: a tab
  in the last columns and reading the cursor back.
\<close>

section \<open>Strings\<close>

text \<open>Typing a text on the abstract console, and what it sends.\<close>

definition tui_puts :: "'a tui_scheme \<Rightarrow> string \<Rightarrow> u16 list \<times> nat \<Rightarrow> u16 list \<times> nat" where
  "tui_puts s cs = fold (\<lambda>c. tui_put (blank_cell s) (entry_cell s c) c) cs"

definition tui_serials :: "string \<Rightarrow> u8 list" where
  "tui_serials cs = concat (map tui_serial cs)"

lemma tui_puts_Cons: "tui_puts s (c # cs) x = tui_puts s cs (tui_put (blank_cell s) (entry_cell s c) c x)"
  by (simp add: tui_puts_def)

lemma tui_step_puts: "tui_step n s t bs \<Longrightarrow> tui_puts t cs = tui_puts s cs"
  by (simp add: tui_puts_def blank_cell_def entry_cell_def tui_step_def)

lemma tui_serials_Cons [simp]: "tui_serials [] = []" "tui_serials (c # cs) = tui_serial c @ tui_serials cs"
  by (simp_all add: tui_serials_def)

lemma tui_step_region:
  assumes "tui_step 2000 s t bs" "disjoint_regions 0xB8000 4000 a n" "n \<le> 2 ^ 64"
  shows "bytes_at (ram t) a n = bytes_at (ram s) a n"
proof (rule nth_equalityI)
  fix i assume "i < length (bytes_at (ram t) a n)"
  then have i: "i < n" by simp
  with assms(1) disjoint_regions_notin [OF assms(2) i]
  show "bytes_at (ram t) a n ! i = bytes_at (ram s) a n ! i" by (simp add: tui_step_def)
qed simp

lemma unat_of_char: "unat (of_char c :: u8) = of_char c"
proof -
  have "of_char c < (256 :: nat)" by simp
  moreover have "(of_char c :: u8) = of_nat (of_char c)" by (simp add: of_nat_of_char)
  ultimately show ?thesis by (simp only: unat_of_nat) (simp add: take_bit_nat_eq_self)
qed

lemma tui_write_loop_types:
  assumes "tui_ok s" "uart_drains (device s)" "CHR 0x09 \<notin> set cs"
    and "bytes_at (ram s) (str + i) (length cs) = map of_char cs"
    and "disjoint_regions 0xB8000 4000 (str + i) (length cs)" "length cs < 2 ^ 64"
  shows "\<exists>u. tui_write_loop str i (length cs) s = ret u \<and> tui_ok u \<and> tui_step 2000 s u (tui_serials cs)
    \<and> tui_abs u = tui_puts s cs (tui_abs s)"
  using assms
proof (induction cs arbitrary: s i)
  case Nil
  then show ?case by (simp add: tui_puts_def)
next
  case (Cons c cs)
  have c: "char_of (unat (ram s (str + i))) = c"
  proof -
    have "ram s (str + i) = (of_char c :: u8)" using Cons.prems(4) by (simp add: bytes_at_Suc)
    then show ?thesis by (simp add: unat_of_char)
  qed
  obtain t where t: "tui_put_char c s = ret t" "tui_ok t" "tui_step 2000 s t (tui_serial c)"
    "tui_abs t = tui_put (blank_cell s) (entry_cell s c) c (tui_abs s)"
    using tui_put_char_step [OF Cons.prems(1,2), of c] Cons.prems(3) by auto
  have "disjoint_regions 0xB8000 4000 (str + (i + 1)) (length cs)"
    unfolding disjoint_regions_def
  proof (intro allI impI)
    fix j k assume "j < (4000 :: nat)" "k < length cs"
    then have "0xB8000 + of_nat j \<noteq> str + i + of_nat (Suc k)"
      using Cons.prems(5) unfolding disjoint_regions_def by (metis length_Cons Suc_less_eq)
    then show "0xB8000 + of_nat j \<noteq> str + (i + 1) + of_nat k" by (simp add: algebra_simps)
  qed
  moreover have "bytes_at (ram s) (str + (i + 1)) (length cs) = map of_char cs"
    using Cons.prems(4) by (simp add: bytes_at_Suc add.assoc)
  ultimately obtain u where "tui_write_loop str (i + 1) (length cs) t = ret u" "tui_ok u"
    "tui_step 2000 t u (tui_serials cs)" "tui_abs u = tui_puts t cs (tui_abs t)"
    using Cons.IH [OF t(2), of "i + 1"] tui_step_region [OF t(3)] Cons.prems t(3)
    by (auto simp: tui_step_def [of 2000 s t])
  then show ?case
    using c t tui_step_trans [OF t(3)] tui_step_puts [OF t(3)]
    by (auto simp: tui_puts_Cons)
qed

section \<open>Clearing and colours\<close>

lemma tui_clear_loop:
  "tui_clear s = tui_set_pos (new_pos 0 0)
    (fold (\<lambda>i s. tui_write (of_nat i) (new_char (of_char CHR '' '') (tui_color s)) s) [0..<2000] s)"
proof -
  have w: "unat TUI_WIDTH = 80" "unat TUI_HEIGHT = 25" by (simp_all add: TUI_WIDTH_def TUI_HEIGHT_def)
  have cells_number: "80 * 25 = (2000 :: nat)" by simp
  have index: "of_nat y * TUI_WIDTH + of_nat x = (of_nat (80 * y + x) :: u64)" for x y
    by (simp add: TUI_WIDTH_def)
  show ?thesis
    unfolding tui_clear_def w index Let_def
    using fold_nested [of "\<lambda>i s. tui_write (of_nat i) (new_char (of_char CHR '' '') (tui_color s)) s" 80 25 s]
    by (simp only: cells_number)
qed

text \<open>\<open>clear\<close> blanks the 2000 cells in the current colour, puts the cursor and the hardware cursor in the
  corner, from any state, and writes nothing outside the screen.\<close>

theorem tui_clear_blank:
  "tui_ok (tui_clear s) \<and> tui_step 2000 s (tui_clear s) []
    \<and> tui_abs (tui_clear s) = (replicate 2000 (blank_cell s), 0) \<and> crt_cursor (ports (tui_clear s)) = 0"
  using fill_loop [of 0 s]
  by (simp add: tui_clear_loop tui_ok_def tui_abs_def new_pos_def linear_def set_pos_cursor)

lemma all_colors_code: "color_code (all_colors ! i) = of_nat i" if "i < 16"
proof -
  have "\<forall>i \<in> set [0..<16]. color_code (all_colors ! i) = of_nat i"
    by (simp add: all_colors_def upt_conv_Cons)
  with that show ?thesis by simp
qed

lemma color_cast_code [simp]: "color_cast (color_code c) = c"
  by (cases c) (simp_all add: color_cast_def all_colors_def)

lemma color_code_less: "color_code c < 16"
  by (cases c) simp_all

lemma color_code_cast: "v < 16 \<Longrightarrow> color_code (color_cast v) = v"
  using all_colors_code [of "unat v"] by (simp add: color_cast_def word_less_nat_alt)

text \<open>The enumerators are ordered by their codes, as in C++, and \<open>all_colors\<close> lists them in this order.\<close>

instantiation color_t :: linorder
begin

definition less_eq_color_t :: "color_t \<Rightarrow> color_t \<Rightarrow> bool" where
  "less_eq_color_t c d \<longleftrightarrow> color_code c \<le> color_code d"

definition less_color_t :: "color_t \<Rightarrow> color_t \<Rightarrow> bool" where
  "less_color_t c d \<longleftrightarrow> color_code c < color_code d"

instance
proof
  fix c d e :: color_t
  show "c < d \<longleftrightarrow> c \<le> d \<and> \<not> d \<le> c" "c \<le> c" "c \<le> d \<or> d \<le> c" by (auto simp: less_eq_color_t_def less_color_t_def)
  show "c \<le> d \<Longrightarrow> d \<le> e \<Longrightarrow> c \<le> e" by (simp add: less_eq_color_t_def)
  assume "c \<le> d" "d \<le> c"
  then have "color_code c = color_code d" by (simp add: less_eq_color_t_def)
  then show "c = d" by (metis color_cast_code)
qed

end

lemma all_colors_sorted: "sorted_wrt (<) all_colors"
  by (simp add: all_colors_def less_color_t_def)

lemma color_range: "BLACK \<le> c" "c \<le> WHITE"
  by (cases c; simp add: less_eq_color_t_def)+

lemma color_nibble: "ucast (ucast (color_code c) :: 4 word) = color_code c"
  by (cases c) simp_all

lemma get_color_code:
  "color_code (tui_get_color (tui_set_color fore back s)) = color_code fore OR color_code back"
proof -
  have "color_code c = take_bit 4 (color_code c)" for c by (cases c) simp_all
  then have "color_code fore OR color_code back = take_bit 4 (color_code fore OR color_code back)"
    by (metis take_bit_or)
  moreover have "take_bit 4 v < 16" for v :: u8
    by (simp add: word_less_nat_alt take_bit_eq_mod unat_mod_distrib)
  ultimately have "color_code fore OR color_code back < 16" by metis
  then show ?thesis
    by (simp add: tui_get_color_def tui_set_color_def new_col_def color_nibble color_code_cast or.commute)
qed

text \<open>What \<open>get_color\<close> reports is the bitwise or of the two codes of the current colours: it is the foreground
  that was set exactly if the background adds no bit to it.\<close>

theorem get_color_mixes:
  "color_code (tui_get_color (tui_set_color fore back s)) = color_code fore OR color_code back
    \<and> (tui_get_color (tui_set_color fore back s) = fore \<longleftrightarrow> color_code back AND NOT (color_code fore) = 0)"
proof -
  have "a OR b = a \<longleftrightarrow> b AND NOT a = 0" for a b :: u8
    by (auto simp: bit_eq_iff bit_or_iff bit_and_iff bit_not_iff)
  moreover have "x = y \<longleftrightarrow> color_code x = color_code y" for x y by (metis color_cast_code)
  ultimately show ?thesis using get_color_code by metis
qed

text \<open>So the colour reported is at least the larger of the two.\<close>

lemma get_color_above: "max fore back \<le> tui_get_color (tui_set_color fore back s)"
proof -
  have "c \<le> tui_get_color (tui_set_color fore back s)" if "c = fore \<or> c = back" for c
    unfolding less_eq_color_t_def get_color_code using that by (auto simp: le_word_or1 le_word_or2)
  then show ?thesis by simp
qed

section \<open>What goes wrong\<close>

text \<open>A CRT controller that answers a read of its data port with the register its index port selects.\<close>

definition crt_device :: "(port_event list \<Rightarrow> u16 \<Rightarrow> u32) \<Rightarrow> bool" where
  "crt_device d \<longleftrightarrow> (\<forall>tr. ucast (d tr 0x3D5) = crt_reg (crt_index tr) tr)"

text \<open>\<open>get_pos\<close> does not return the position that was set: it takes the two bytes of the linear position,
  row times 80 plus column, for the row and the column.\<close>

theorem get_pos_wrong:
  assumes "crt_device (device s)"
  shows "fst (tui_get_pos (tui_set_pos p s)) = new_pos (of_nat (linear p mod 256)) (of_nat (linear p div 256))"
proof -
  let ?w = "of_nat (linear p) :: u16"
  have w: "unat ?w = linear p" using linear_bound [of p] by (simp add: unat_of_nat take_bit_nat_eq_self)
  have "(ucast ?w :: u8) = of_nat (linear p mod 256)"
    by (simp only: word_unat_eq_iff unsigned_ucast_eq w unat_of_nat)
      (simp add: take_bit_eq_mod mod_mod_cancel)
  moreover have "(ucast (drop_bit 8 ?w) :: u8) = of_nat (linear p div 256)"
    by (simp only: word_unat_eq_iff unsigned_ucast_eq unsigned_drop_bit_eq w unat_of_nat)
      (use linear_bound [of p] in \<open>simp add: take_bit_eq_mod drop_bit_eq_div\<close>)
  moreover have "ucast (device s tr 0x3D5) = crt_reg (crt_index tr) tr" for tr
    using assms by (simp add: crt_device_def)
  ultimately show ?thesis
    by (simp add: tui_get_pos_def set_pos_shape port_outb_def port_inb_def Let_def TUI_ADDR_def TUI_DATA_def
        TUI_CURSOR_H_def TUI_CURSOR_L_def split_def)
qed

theorem get_pos_wrong_witness:
  "fst (tui_get_pos (tui_set_pos (new_pos 10 20) (boot_tui\<lparr>device := \<lambda>tr _. ucast (crt_reg (crt_index tr) tr)\<rparr>)))
    = new_pos 74 6"
proof -
  have "ucast (ucast (v :: u8) :: u32) = v" for v
    by (rule bit_word_eqI) (simp add: bit_unsigned_iff)
  then have "crt_device (\<lambda>tr _. ucast (crt_reg (crt_index tr) tr))" by (simp only: crt_device_def simp_thms)
  then show ?thesis
    using get_pos_wrong [of "boot_tui\<lparr>device := \<lambda>tr _. ucast (crt_reg (crt_index tr) tr)\<rparr>" "new_pos 10 20"]
    by (simp add: linear_def new_pos_def)
qed

text \<open>After a tab in one of the last four columns of a line the next two plain characters go to the same cell:
  the first of the following line. The first of them is lost.\<close>

theorem tab_loses_character:
  assumes "unat (pos_row (tui_pos s)) < 24" "unat (pos_col (tui_pos s)) \<in> {76..79}" "uart_drains (device s)"
    and "c \<notin> {CHR 0x0A, CHR 0x09, CHR 0x08}" "d \<notin> {CHR 0x0A, CHR 0x09, CHR 0x08}"
  shows "\<exists>u. seq (tui_put_char CHR 0x09 s) (\<lambda>s. seq (tui_put_char c s) (tui_put_char d)) = ret u
    \<and> cells (ram u) 2000 = (cells (ram s) 2000)[(unat (pos_row (tui_pos s)) + 1) * 80 := entry_cell s d]
    \<and> written 0x3F8 (ports u) = written 0x3F8 (ports s) @ [of_char c, of_char d]"
proof -
  let ?row = "pos_row (tui_pos s)" and ?d = "new_char (of_char c) (tui_color s)"
  obtain t where t: "escapeconv CHR 0x09 s = ret (True, t)" "tui_step 2000 s t []"
    "cells (ram t) 2000 = cells (ram s) 2000" "pos_row (tui_pos t) = ?row"
    "unat (pos_col (tui_pos t)) = unat (pos_col (tui_pos s)) + 4 - unat (pos_col (tui_pos s)) mod 4"
    using put_tab [of s] assms(2) by auto
  have col: "unat (pos_col (tui_pos t)) = 80"
  proof -
    have "k + 4 - k mod 4 = 80" if "k \<in> {76..79}" for k :: nat
    proof -
      from that consider "k = 76" | "k = 77" | "k = 78" | "k = 79" by fastforce
      then show ?thesis by cases simp_all
    qed
    then show ?thesis using t(5) assms(2) by metis
  qed
  define p where "p = tui_pos t"
  define s1 where "s1 = tui_set_pos p t"
  have s1: "tui_put_char CHR 0x09 s = ret s1"
    using put_char_finish [OF disjI1 [OF t(1)]] tui_scroll_none [of t] t(4) assms(1) by (simp add: Let_def s1_def p_def)
  have lin: "linear p = (unat ?row + 1) * 80" using t(4) col by (simp add: p_def linear_def)
  then have lt: "linear p < 2000" using assms(1) by simp
  let ?w = "tui_write (of_nat (linear p)) ?d s1"
  obtain v where v: "serial_putc ?w c = ret v" "sends ?w v (serial_bytes [c])"
    using serial_putc_sends_aux [of ?w c] assms(3) t(2) by (auto simp: s1_def tui_step_def)
  have vs: "tui_pos v = p" "ram v = ram ?w" "tui_color v = tui_color s1"
    "tui_step 2000 ?w v (serial_bytes [c])"
    using sends_tui_step [OF v(2), of 2000] by (simp_all add: s1_def) (simp add: tui_step_def s1_def)
  have s1_fields: "tui_pos s1 = p" "tui_color s1 = tui_color s" "pos_row p = ?row"
    using t(2,4) by (simp_all add: s1_def p_def tui_step_def)
  define q where "q = \<lparr>pos_col = 0, pos_row = pos_row p + 1\<rparr>"
  have row: "unat (pos_row p + 1) = unat ?row + 1" using assms(1) s1_fields(3) by (simp add: u8_plus)
  have entry: "put_entry_at c (tui_color s1) (ucast (pos_col p)) (ucast (pos_row p)) s1 = ?w"
    by (simp add: put_entry_at_def linear_index s1_fields(2))
  have "TUI_WIDTH \<le> ucast (pos_col p + 1)"
    using col by (simp add: TUI_WIDTH_def word_le_nat_alt u8_plus p_def)
  then have "tui_put_char c s1 = ret (let s = tui_scroll (v\<lparr>tui_pos := q\<rparr>) in tui_set_pos (tui_pos s) s)"
    using assms(4) v(1) vs(1)
    by (intro put_char_finish disjI2) (simp add: escapeconv_def entry s1_fields(1) Let_def q_def)
  moreover have "unat (pos_row q) < 25" using row assms(1) by (simp add: q_def)
  ultimately have c: "tui_put_char c s1 = ret (tui_set_pos q v)"
    using tui_scroll_none [of "v\<lparr>tui_pos := q\<rparr>"] by (simp add: Let_def set_pos_shape)
  define s2 where "s2 = tui_set_pos q v"
  have ok: "tui_ok s2" "linear (tui_pos s2) = linear p"
    using row assms(1) lin by (simp_all add: s2_def q_def tui_ok_def linear_def)
  have step: "tui_step 2000 s s2 (serial_bytes [c])"
  proof -
    have "tui_step 2000 s s1 []" using t(2) by (simp add: s1_def)
    from tui_step_trans [OF tui_step_write [OF this lt] vs(4)] show ?thesis by (simp add: s2_def)
  qed
  have cells: "cells (ram s2) 2000 = (cells (ram s) 2000)[linear p := char_encode ?d]"
    using lt t(3) by (simp add: s2_def vs(2) tui_write_cells s1_def)
  obtain u where u: "tui_put_char d s2 = ret u" "tui_step 2000 s2 u (tui_serial d)"
    "tui_abs u = tui_put (blank_cell s2) (entry_cell s2 d) d (tui_abs s2)"
    using tui_put_char_step [OF ok(1), of d] assms(3,5) step by (auto simp: tui_step_def)
  have "entry_cell s2 d = entry_cell s d" using step by (simp add: entry_cell_def tui_step_def)
  moreover have "linear p + 1 < 2000" using lin assms(1) by simp
  ultimately have "cells (ram u) 2000 = (cells (ram s) 2000)[linear p := entry_cell s d]"
    using u(3) assms(5) ok(2) cells by (simp add: tui_abs_def tui_put_def screen_put_def)
  moreover have "written 0x3F8 (ports u) = written 0x3F8 (ports s) @ [of_char c, of_char d]"
    using step u(2) assms(4,5) by (simp add: tui_step_def tui_serial_def serial_bytes_def)
  ultimately show ?thesis using s1 c u(1) by (simp add: s2_def lin)
qed

theorem tab_loses_character_witness:
  "\<exists>u. seq (tui_put_char CHR 0x09 (boot_tui\<lparr>tui_pos := new_pos 78 3\<rparr>))
      (\<lambda>s. seq (tui_put_char CHR ''A'' s) (tui_put_char CHR ''B'')) = ret u
    \<and> cells (ram u) 2000 = (cells (\<lambda>_. 0) 2000)[320 := entry_cell boot_tui CHR ''B'']"
  using tab_loses_character [of "boot_tui\<lparr>tui_pos := new_pos 78 3\<rparr>" "CHR ''A''" "CHR ''B''"]
  by (auto simp: boot_tui_def new_pos_def uart_drains_def uart_ready_def entry_cell_def)

end
