(* ===== verification/Vsprintf_Text.thy ===== *)
theory Vsprintf_Text
  imports Vsprintf Numerals
begin

text \<open>
  The text a format and its arguments stand for, and the proof that the formatter hands exactly this
  text, character by character, to whatever output function it was given. The conversion buffer
  never overflows, so every step of a number conversion is a total function of the digits.
\<close>

section \<open>Flags\<close>

lemmas FLAGS_defs = FLAGS_ZEROPAD_def FLAGS_LEFT_def FLAGS_PLUS_def FLAGS_SPACE_def FLAGS_HASH_def
  FLAGS_UPPERCASE_def FLAGS_CHAR_def FLAGS_SHORT_def FLAGS_LONG_def FLAGS_LONG_LONG_def FLAGS_PRECISION_def

lemma has_bit: "has flags (push_bit k 1) \<longleftrightarrow> bit flags k"
  by (simp add: has_def bit_iff_and_push_bit_not_eq_0)

lemma has_or: "has flags (f OR g) \<longleftrightarrow> has flags f \<or> has flags g"
  by (simp add: has_def bit.conj_disj_distrib or_eq_0_iff)

lemmas flag_simps = has_or has_bit bit_or_iff bit_and_iff bit_not_iff bit_push_bit_iff bit_1_iff FLAGS_defs

section \<open>Emitting a text\<close>

definition emit_all :: "(char \<Rightarrow> u64 \<Rightarrow> 's \<Rightarrow> 's) \<Rightarrow> string \<Rightarrow> 's \<times> u64 \<Rightarrow> 's \<times> u64" where
  "emit_all out cs = fold (emit out) cs"

lemma emit_all_simps [simp]:
  "emit_all out [] st = st" "emit_all out (c # cs) st = emit_all out cs (emit out c st)"
  "emit_all out (xs @ ys) st = emit_all out ys (emit_all out xs st)"
  by (simp_all add: emit_all_def)

lemma snd_emit [simp]: "snd (emit out c st) = snd st + 1"
  by (cases st) (simp add: emit_def)

lemma snd_emit_all: "snd (emit_all out cs st) = snd st + of_nat (length cs)"
  by (induction cs arbitrary: st) (simp_all add: algebra_simps)

lemma pad_spaces_emit: "pad_spaces out i width st = emit_all out (replicate (width - i) CHR '' '') st"
proof (induction out i width st rule: pad_spaces.induct)
  case (1 out i width st)
  show ?case
  proof (cases "i < width")
    case True
    then have "width - i = Suc (width - (i + 1))" by simp
    with 1 True show ?thesis by (subst pad_spaces.simps) simp
  qed (subst pad_spaces.simps, simp)
qed

lemma pad_left_emit:
  "pad_left out start width st = emit_all out (replicate (unat width - unat (snd st - start)) CHR '' '') st"
proof (induction out start width st rule: pad_left.induct)
  case (1 out start width st)
  show ?case
  proof (cases "snd st - start < width")
    case True
    then have lt: "unat (snd st - start) < unat width" by (simp add: word_less_nat_alt)
    have "snd (emit out CHR '' '' st) - start = snd st - start + 1" by simp
    moreover have "unat (snd st - start + 1) = Suc (unat (snd st - start))"
      using lt unat_lt_64 [of width] unat_add_fits [of "snd st - start" 1] by simp
    ultimately have "unat width - unat (snd st - start) = Suc (unat width - unat (snd (emit out CHR '' '' st) - start))"
      using lt by (metis Suc_diff_Suc)
    with 1 True show ?thesis by (subst pad_left.simps) (simp del: snd_emit)
  next
    case False
    then show ?thesis by (subst pad_left.simps) (simp add: word_less_nat_alt)
  qed
qed

definition out_rev_text :: "string \<Rightarrow> u32 \<Rightarrow> u32 \<Rightarrow> string" where
  "out_rev_text buf width flags =
     (let spaces = replicate (unat width - length buf) CHR '' ''
      in if has flags FLAGS_LEFT then rev buf @ spaces
         else if has flags FLAGS_ZEROPAD then rev buf
         else spaces @ rev buf)"

lemma out_rev_emit:
  assumes "length buf < 2 ^ 64"
  shows "out_rev out st buf width flags = emit_all out (out_rev_text buf width flags) st"
proof -
  have "unat (ucast width :: u64) = unat width"
    using unsigned_less [of width, where 'a = nat]
    by (simp add: unsigned_ucast_eq take_bit_nat_eq_self)
  moreover have "snd (emit_all out (rev buf) st) - snd st = of_nat (length buf)"
    by (simp add: snd_emit_all)
  ultimately show ?thesis
    using assms unfolding out_rev_def out_rev_text_def Let_def
    by (simp add: pad_spaces_emit pad_left_emit emit_all_def [symmetric] unat_of_nat_64)
qed

section \<open>Integers\<close>

text \<open>A character is stored while there is room.\<close>

definition room :: "char \<Rightarrow> string \<Rightarrow> string" where
  "room c buf = (if length buf < 32 then buf @ [c] else buf)"

definition zeros_to :: "nat \<Rightarrow> string \<Rightarrow> string" where
  "zeros_to n buf = buf @ replicate (min n 32 - length buf) CHR ''0''"

definition sign_text :: "bool \<Rightarrow> u32 \<Rightarrow> string \<Rightarrow> string" where
  "sign_text negative flags buf =
     (if negative then room CHR ''-'' buf
      else if has flags FLAGS_PLUS then room CHR ''+'' buf
      else if has flags FLAGS_SPACE then room CHR '' '' buf else buf)"

definition hash_text :: "u32 \<Rightarrow> u32 \<Rightarrow> u32 \<Rightarrow> u32 \<Rightarrow> string \<Rightarrow> string" where
  "hash_text base prec width flags buf =
     (let buf = (if \<not> has flags FLAGS_PRECISION \<and> buf \<noteq> []
                   \<and> (length buf = unat prec \<or> length buf = unat width)
                 then if butlast buf \<noteq> [] \<and> base = 16 then butlast (butlast buf) else butlast buf
                 else buf)
      in room CHR ''0''
           (if base = 16 then room (if has flags FLAGS_UPPERCASE then CHR ''X'' else CHR ''x'') buf
            else if base = 2 then room CHR ''b'' buf else buf))"

lemma room_le [simp]: "length buf \<le> 32 \<Longrightarrow> length (room c buf) \<le> 32"
  by (simp add: room_def)

lemma zeros_to_le [simp]: "length buf \<le> 32 \<Longrightarrow> length (zeros_to n buf) \<le> 32"
  by (simp add: zeros_to_def)

lemma sign_text_le [simp]: "length buf \<le> 32 \<Longrightarrow> length (sign_text negative flags buf) \<le> 32"
  by (simp add: sign_text_def)

lemma hash_text_le [simp]: "length buf \<le> 32 \<Longrightarrow> length (hash_text base prec width flags buf) \<le> 32"
  by (simp add: hash_text_def Let_def)

lemma pad_zeros_total: "pad_zeros n buf = ret (zeros_to n buf)"
proof (induction n buf rule: pad_zeros.induct)
  case (1 n buf)
  show ?case
  proof (cases "length buf < n \<and> length buf < 32")
    case True
    then have push: "buf_push CHR ''0'' buf = ret (buf @ [CHR ''0''])" and
      "min n 32 - length buf = Suc (min n 32 - Suc (length buf))"
      by (simp add: buf_push_def PRINTF_NTOA_BUFFER_SIZE_def) (use True in linarith)
    then have "zeros_to n (buf @ [CHR ''0'']) = zeros_to n buf" by (simp add: zeros_to_def)
    with 1 [OF _ push] True push show ?thesis
      by (subst pad_zeros.simps) (simp add: PRINTF_NTOA_BUFFER_SIZE_def)
  next
    case False
    then show ?thesis
      by (subst pad_zeros.simps) (auto simp: PRINTF_NTOA_BUFFER_SIZE_def zeros_to_def min_def)
  qed
qed

lemma sign_of_total: "sign_of negative flags buf = ret (sign_text negative flags buf)"
  by (simp add: sign_of_def sign_text_def room_def buf_push_def PRINTF_NTOA_BUFFER_SIZE_def)

lemma hash_prefix_total: "hash_prefix base prec width flags buf = ret (hash_text base prec width flags buf)"
proof -
  let ?letter = "\<lambda>b. if base = 16 then room (if has flags FLAGS_UPPERCASE then CHR ''X'' else CHR ''x'') b
      else if base = 2 then room CHR ''b'' b else b"
  have letter: "(if base = 16 \<and> \<not> has flags FLAGS_UPPERCASE \<and> length b < PRINTF_NTOA_BUFFER_SIZE
              then buf_push CHR ''x'' b
              else if base = 16 \<and> has flags FLAGS_UPPERCASE \<and> length b < PRINTF_NTOA_BUFFER_SIZE
              then buf_push CHR ''X'' b
              else if base = 2 \<and> length b < PRINTF_NTOA_BUFFER_SIZE
              then buf_push CHR ''b'' b
              else ret b) = ret (?letter b)" for b
    by (cases "length b < 32") (auto simp: room_def buf_push_def PRINTF_NTOA_BUFFER_SIZE_def)
  have zero: "(if length b < PRINTF_NTOA_BUFFER_SIZE then buf_push CHR ''0'' b else ret b) = ret (room CHR ''0'' b)" for b
    by (simp add: room_def buf_push_def PRINTF_NTOA_BUFFER_SIZE_def)
  show ?thesis
    unfolding hash_prefix_def hash_text_def Let_def letter zero seq_ret by simp
qed

text \<open>The conversion buffer of a number, before it is sent out in reverse, and its text.\<close>

definition number_width :: "u32 \<Rightarrow> bool \<Rightarrow> u32 \<Rightarrow> u32" where
  "number_width width negative flags =
     (if \<not> has flags FLAGS_LEFT \<and> width \<noteq> 0 \<and> has flags FLAGS_ZEROPAD
        \<and> (negative \<or> has flags FLAGS_PLUS \<or> has flags FLAGS_SPACE) then width - 1 else width)"

definition number_buf :: "string \<Rightarrow> bool \<Rightarrow> u32 \<Rightarrow> u32 \<Rightarrow> u32 \<Rightarrow> u32 \<Rightarrow> string" where
  "number_buf buf negative base prec width flags =
     (let w = number_width width negative flags;
          buf = (if has flags FLAGS_LEFT then buf
                 else if has flags FLAGS_ZEROPAD then zeros_to (unat w) (zeros_to (unat prec) buf)
                 else zeros_to (unat prec) buf);
          buf = (if has flags FLAGS_HASH then hash_text base prec w flags buf else buf)
      in sign_text negative flags buf)"

lemma number_buf_le [simp]: "length buf \<le> 32 \<Longrightarrow> length (number_buf buf negative base prec width flags) \<le> 32"
  by (simp add: number_buf_def Let_def)

lemma ntoa_format_emit:
  assumes "length buf \<le> 32"
  shows "ntoa_format out st buf negative base prec width flags
    = ret (emit_all out (out_rev_text (number_buf buf negative base prec width flags)
        (number_width width negative flags) flags) st)"
proof -
  have "length (number_buf buf negative base prec width flags) < 2 ^ 64"
    by (rule le_less_trans [OF number_buf_le [OF assms]]) simp
  note rev = out_rev_emit [OF this, of out st "number_width width negative flags" flags, symmetric]
  show ?thesis
    unfolding rev
    by (simp add: ntoa_format_def number_buf_def number_width_def Let_def pad_zeros_total
        sign_of_total hash_prefix_total has_or)
qed

text \<open>The digits, least significant first, as many as the buffer holds.\<close>

definition digits_buf :: "u32 \<Rightarrow> u64 \<Rightarrow> u64 \<Rightarrow> string" where
  "digits_buf flags base val = take 32 (rev (num_string (has flags FLAGS_UPPERCASE) (unat base) (unat val)))"

lemma digit_char_word:
  assumes "unat d < 16"
  shows "char_of (unat (if d < 10 then of_char CHR ''0'' + d
      else (if up then of_char CHR ''A'' else of_char CHR ''a'') + d - 10 :: u64)) = digit_char up (unat d)"
proof -
  have "\<forall>k \<in> set [0..<16]. char_of (unat (if (of_nat k :: u64) < 10 then of_char CHR ''0'' + of_nat k
      else (if up then of_char CHR ''A'' else of_char CHR ''a'') + of_nat k - 10 :: u64)) = digit_char up k"
    by (simp add: upt_conv_Cons digit_char_def)
  moreover have "unat d \<in> set [0..<16]" using assms by simp
  ultimately show ?thesis by (metis of_nat_unat_64)
qed

lemma num_string_step:
  "2 \<le> b \<Longrightarrow> rev (num_string u b n) = digit_char u (n mod b) # (if n div b = 0 then [] else rev (num_string u b (n div b)))"
  by (subst num_string.simps) (auto simp: div_eq_0_iff)

lemma ntoa_digits_total:
  assumes "2 \<le> unat base" "unat base \<le> 16" "length buf < 32"
  shows "ntoa_digits flags base val buf
    = ret (take 32 (buf @ rev (num_string (has flags FLAGS_UPPERCASE) (unat base) (unat val))))"
  using assms
proof (induction flags base val buf rule: ntoa_digits.induct)
  case (1 flags base val buf)
  note b = 1(2,3)
  let ?u = "has flags FLAGS_UPPERCASE" and ?b = "unat base" and ?n = "unat val"
  let ?c = "digit_char ?u (?n mod ?b)"
  have mod: "unat (val mod base) = ?n mod ?b" and div: "unat (val div base) = ?n div ?b"
    by (simp_all add: unat_mod_distrib unat_div_distrib)
  have "?n mod ?b < ?b" by (rule mod_less_divisor [OF less_le_trans [OF _ b(1)]]) simp
  then have "unat (val mod base) < 16" using b(2) by (simp only: mod)
  note digit = digit_char_word [OF this, of ?u, unfolded mod]
  have push: "buf_push ?c buf = ret (buf @ [?c])" using 1(4) by (simp add: buf_push_def PRINTF_NTOA_BUFFER_SIZE_def)
  have stop: "val div base = 0 \<longleftrightarrow> ?n div ?b = 0" by (simp add: word_unat_eq_iff div)
  note step = num_string_step [OF b(1), of ?u ?n]
  show ?case
  proof (cases "val div base \<noteq> 0 \<and> Suc (length buf) < 32")
    case True
    have "ntoa_digits flags base (val div base) (buf @ [?c])
      = ret (take 32 ((buf @ [?c]) @ rev (num_string ?u ?b (unat (val div base)))))"
      by (rule 1(1) [OF refl refl]) (use True digit push b in \<open>simp_all add: PRINTF_NTOA_BUFFER_SIZE_def Let_def\<close>)
    then show ?thesis
      using True push stop step
      by (subst ntoa_digits.simps) (simp add: Let_def digit div PRINTF_NTOA_BUFFER_SIZE_def del: take_append)
  next
    case False
    have "take 32 (buf @ rev (num_string ?u ?b ?n)) = buf @ [?c]"
    proof (cases "?n div ?b = 0")
      case True
      with step 1(4) show ?thesis by simp
    next
      case more: False
      with False stop 1(4) have "length buf = 31" by simp
      then show ?thesis by (subst step) simp
    qed
    with False push show ?thesis
      by (subst ntoa_digits.simps) (auto simp: Let_def digit PRINTF_NTOA_BUFFER_SIZE_def)
  qed
qed

definition number_text :: "u64 \<Rightarrow> bool \<Rightarrow> u64 \<Rightarrow> u32 \<Rightarrow> u32 \<Rightarrow> u32 \<Rightarrow> string" where
  "number_text val negative base prec width flags =
     (let flags = (if val = 0 then flags AND NOT FLAGS_HASH else flags);
          buf = (if has flags FLAGS_PRECISION \<and> val = 0 then [] else digits_buf flags base val)
      in out_rev_text (number_buf buf negative (ucast base) prec width flags)
           (number_width width negative flags) flags)"

lemma ntoa_long_emit:
  assumes "2 \<le> unat base" "unat base \<le> 16"
  shows "ntoa_long out st val negative base prec width flags
    = ret (emit_all out (number_text val negative base prec width flags) st)"
  using assms
  by (auto simp: ntoa_long_def number_text_def Let_def ntoa_digits_total digits_buf_def ntoa_format_emit)

lemma ntoa_long_long_emit:
  assumes "2 \<le> unat base" "unat base \<le> 16"
  shows "ntoa_long_long out st val negative base prec width flags
    = ret (emit_all out (number_text val negative base prec width flags) st)"
  using ntoa_long_emit [OF assms] by (simp only: ntoa_long_long_def ntoa_long_def)

lemma ntoa_emit:
  assumes "2 \<le> unat base" "unat base \<le> 16"
  shows "ntoa out st val negative base prec width flags
    = ret (emit_all out (number_text val negative base prec width flags) st)"
  using assms by (simp add: ntoa_def ntoa_long_emit ntoa_long_long_emit)

section \<open>Conversions\<close>

definition int_base :: "char \<Rightarrow> u64" where
  "int_base c = (if c = CHR ''x'' \<or> c = CHR ''X'' then 16 else if c = CHR ''o'' then 8
     else if c = CHR ''b'' then 2 else 10)"

definition int_flags :: "u32 \<Rightarrow> char \<Rightarrow> u32" where
  "int_flags flags c =
     (let flags = (if int_base c = 10 then flags AND NOT FLAGS_HASH else flags);
          flags = (if c = CHR ''X'' then flags OR FLAGS_UPPERCASE else flags);
          flags = (if c = CHR ''i'' \<or> c = CHR ''d'' then flags else flags AND NOT (FLAGS_PLUS OR FLAGS_SPACE))
      in if has flags FLAGS_PRECISION then flags AND NOT FLAGS_ZEROPAD else flags)"

definition int_text :: "u32 \<Rightarrow> u32 \<Rightarrow> u32 \<Rightarrow> char \<Rightarrow> va_arg list \<Rightarrow> (string \<times> va_arg list) exec" where
  "int_text flags width prec c args =
     (let f = int_flags flags c
      in seq (vga_word args) (\<lambda>(v, args).
           if c = CHR ''i'' \<or> c = CHR ''d'' then
             seq (magnitude f (signed_value f v)) (\<lambda>m.
               ret (number_text m (signed_value f v < 0) (int_base c) prec width f, args))
           else ret (number_text (unsigned_value f v) False (int_base c) prec width f, args)))"

lemma int_base_bounds: "2 \<le> unat (int_base c)" "unat (int_base c) \<le> 16"
  by (simp_all add: int_base_def)

lemma convert_int_emit:
  "convert_int out st flags width prec c args
    = seq (int_text flags width prec c args) (\<lambda>(cs, args). ret (emit_all out cs st, args))"
proof -
  have base: "(if c = CHR ''x'' \<or> c = CHR ''X'' then 16 else if c = CHR ''o'' then 8
      else if c = CHR ''b'' then 2 else 10) = int_base c"
    by (simp add: int_base_def)
  have nested: "seq (if p then a else b) f = (if p then seq a f else seq b f)"
    for p and a b :: "'x exec" and f :: "'x \<Rightarrow> 'y exec" by simp
  show ?thesis
    unfolding convert_int_def int_text_def int_flags_def base Let_def if_not_P
    by (auto simp: seq_assoc split_def ntoa_emit int_base_bounds nested intro!: seq_cong)
qed

definition pad_text :: "u32 \<Rightarrow> nat \<Rightarrow> u32 \<Rightarrow> string \<Rightarrow> string" where
  "pad_text flags l width cs =
     (let spaces = replicate (unat width - l) CHR '' ''
      in if has flags FLAGS_LEFT then cs @ spaces else spaces @ cs)"

lemma convert_char_emit:
  "convert_char out st flags width c = emit_all out (pad_text flags 1 width [c]) st"
  by (simp add: convert_char_def pad_text_def Let_def pad_spaces_emit)

fun str_prefix :: "bool \<Rightarrow> nat \<Rightarrow> string \<Rightarrow> string" where
  "str_prefix limited prec [] = []"
| "str_prefix limited prec (c # p) =
     (if c \<noteq> CHR 0x00 \<and> (\<not> limited \<or> prec \<noteq> 0) then c # str_prefix limited (prec - 1) p else [])"

lemma str_out_emit: "str_out out p limited prec st = emit_all out (str_prefix limited prec p) st"
  by (induction out p limited prec st rule: str_out.induct) auto

definition str_text :: "u32 \<Rightarrow> u32 \<Rightarrow> u32 \<Rightarrow> string \<Rightarrow> string" where
  "str_text flags width prec p =
     (let l = unat (of_nat (strnlen_s p (if prec \<noteq> 0 then unat prec else 2 ^ 64 - 1)) :: u32)
      in pad_text flags (if has flags FLAGS_PRECISION then min l (unat prec) else l) width
           (str_prefix (has flags FLAGS_PRECISION) (unat prec) p))"

lemma convert_str_emit: "convert_str out st flags width prec p = emit_all out (str_text flags width prec p) st"
proof -
  have min: "(if l < k then l else k) = min l k" for l k :: nat by simp
  show ?thesis
    unfolding convert_str_def str_text_def Let_def min
    by (simp add: pad_text_def Let_def pad_spaces_emit str_out_emit)
qed

definition convert_text :: "u32 \<Rightarrow> u32 \<Rightarrow> u32 \<Rightarrow> char \<Rightarrow> va_arg list \<Rightarrow> (string \<times> va_arg list) exec" where
  "convert_text flags width prec c args =
     (if c \<in> {CHR ''d'', CHR ''i'', CHR ''u'', CHR ''x'', CHR ''X'', CHR ''o'', CHR ''b''} then
        int_text flags width prec c args
      else if c = CHR ''c'' then
        seq (vga_word args) (\<lambda>(v, args). ret (pad_text flags 1 width [char_of (unat v)], args))
      else if c = CHR ''s'' then
        (case args of
           VaStr p # args \<Rightarrow> ret (str_text flags width prec p, args)
         | _ \<Rightarrow> fail Bad_argument)
      else if c = CHR ''p'' then
        seq (vga_word args) (\<lambda>(v, args).
          ret (number_text v False 16 prec 16 (flags OR FLAGS_ZEROPAD OR FLAGS_UPPERCASE), args))
      else ret ([c], args))"

lemma convert_emit:
  "convert out st flags width prec c args
    = seq (convert_text flags width prec c args) (\<lambda>(cs, args). ret (emit_all out cs st, args))"
  by (auto simp: convert_def convert_text_def convert_int_emit convert_char_emit convert_str_emit
      ntoa_long_long_emit seq_assoc split_def split: list.splits va_arg.splits intro!: seq_cong)

section \<open>Formats\<close>

definition directive_text :: "string \<Rightarrow> va_arg list \<Rightarrow> (string \<times> string \<times> va_arg list) exec" where
  "directive_text fmt args =
     (case parse_flags 0 fmt of (flags, fmt) \<Rightarrow>
      seq (parse_width flags fmt args) (\<lambda>(flags, width, fmt, args).
      seq (parse_precision flags fmt args) (\<lambda>(flags, prec, fmt, args).
      seq (parse_length flags fmt) (\<lambda>(flags, fmt).
      seq (convert_text flags width prec (peek fmt) args) (\<lambda>(cs, args).
      seq (adv fmt) (\<lambda>fmt. ret (cs, fmt, args)))))))"

lemma directive_emit:
  "directive out st fmt args
    = seq (directive_text fmt args) (\<lambda>(cs, fmt, args). ret (emit_all out cs st, fmt, args))"
  by (simp add: directive_def directive_text_def seq_assoc split_def convert_emit)

lemma directive_text_length: "directive_text fmt args = ret (cs, fmt', args') \<Longrightarrow> length fmt' < length fmt"
  using directive_length [of "\<lambda>_ _ s. s" "((), 0)" fmt args _ fmt' args']
  by (simp add: directive_emit)

function format_text :: "string \<Rightarrow> va_arg list \<Rightarrow> string exec" where
  "format_text [] args = ret []"
| "format_text (c # fmt) args =
     (if c = CHR 0x00 then ret []
      else if c \<noteq> CHR ''%'' then seq (format_text fmt args) (\<lambda>cs. ret (c # cs))
      else seq (directive_text fmt args) (\<lambda>(cs, fmt, args). seq (format_text fmt args) (\<lambda>ds. ret (cs @ ds))))"
  by pat_completeness auto
termination
  by (relation "measure (\<lambda>(fmt, args). length fmt)") (auto dest: directive_text_length)

lemma vsnprintf_loop_emit:
  "vsnprintf_loop out st fmt args = seq (format_text fmt args) (\<lambda>cs. ret (emit_all out cs st))"
proof (induction fmt args arbitrary: st rule: format_text.induct)
  case (1 args)
  then show ?case by simp
next
  case (2 c fmt args)
  note IH = 2
  show ?case
  proof (cases "c = CHR ''%''")
    case True
    have "vsnprintf_loop out (emit_all out (fst r) st) (fst (snd r)) (snd (snd r))
        = seq (format_text (fst (snd r)) (snd (snd r))) (\<lambda>cs. ret (emit_all out cs (emit_all out (fst r) st)))"
      if "directive_text fmt args = ret r" for r
      using IH(2) [OF _ _ that, of "fst r" "snd r" "fst (snd r)" "snd (snd r)" "emit_all out (fst r) st"] True
      by simp
    with True show ?thesis
      by (auto simp: directive_emit seq_assoc split_def intro!: seq_cong)
  qed (use IH(1) in \<open>auto simp: seq_assoc\<close>)
qed

end
