(* ===== verification/Vsprintf_Props.thy ===== *)
theory Vsprintf_Props
  imports Vsprintf_Text Vga_Printf
begin

text \<open>
  The properties of the formatter: what it stores and returns, that the conversion buffer is never
  overrun, what integers look like, that it agrees with the formatter of the debug console, and the
  formats that go wrong.
\<close>

section \<open>Storing the text\<close>

lemma write8_twice [simp]: "write8 (write8 m a v) a w = write8 m a w"
  by (simp add: write8_def)

lemma emit_out_buffer:
  assumes "length cs < 2 ^ 64"
  shows "emit_all (out_buffer buf maxlen) cs (m, 0)
    = (store_bytes m buf (map of_char (take (unat maxlen) cs)), of_nat (length cs))"
  using assms
proof (induction cs rule: rev_induct)
  case (snoc c cs)
  then have len: "unat (of_nat (length cs) :: u64) = length cs" by (intro unat_of_nat_64) simp
  show ?case
  proof (cases "length cs < unat maxlen")
    case True
    with snoc len show ?thesis
      by (simp add: emit_def out_buffer_def word_less_nat_alt store_bytes_append add.commute)
  next
    case False
    with snoc len show ?thesis by (simp add: emit_def out_buffer_def word_less_nat_alt add.commute)
  qed
qed simp

lemma emit_out_null: "emit_all out_null cs (m, 0) = (m, of_nat (length cs))"
proof -
  have "emit_all out_null cs (m, i) = (m, i + of_nat (length cs))" for i
    by (induction cs arbitrary: i) (simp_all add: emit_def out_null_def algebra_simps)
  then show ?thesis by simp
qed

lemma of_nat_take_bit_u32: "(of_nat (take_bit 64 n) :: u32) = of_nat n"
  by (simp add: word_of_nat_eq_iff take_bit_take_bit)

text \<open>What a buffer of \<open>n\<close> bytes gets of a text: as much as fits before a NUL.\<close>

definition truncated :: "nat \<Rightarrow> string \<Rightarrow> u8 list" where
  "truncated n cs = (if n = 0 then [] else map of_char (take (n - 1) cs) @ [0])"

lemma vsnprintf_stores:
  assumes "format_text fmt args = ret cs" "length cs < 2 ^ 64"
  shows "vsnprintf m buf maxlen fmt args = ret (of_nat (length cs),
    if buf = 0 then m else store_bytes m buf (truncated (unat maxlen) cs))"
proof -
  have cast: "ucast (of_nat (length cs) :: u64) = (of_nat (length cs) :: u32)"
    by (simp add: unsigned_of_nat of_nat_take_bit_u32)
  have len: "unat (of_nat (length cs) :: u64) = length cs" using assms(2) by (rule unat_of_nat_64)
  show ?thesis
  proof (cases "buf = 0")
    case True
    with assms(1) show ?thesis
      by (simp add: vsnprintf_def vsnprintf_loop_emit emit_out_null out_null_def cast)
  next
    case False
    let ?idx = "of_nat (length cs) :: u64" and ?n = "unat maxlen"
    let ?m = "store_bytes m buf (map of_char (take ?n cs))"
    have "out_buffer buf maxlen CHR 0x00 (if ?idx < maxlen then ?idx else maxlen - 1) ?m
      = store_bytes m buf (truncated ?n cs)"
    proof (cases "?n = 0")
      case True
      then have "maxlen = 0" by (simp add: word_unat_eq_iff)
      then show ?thesis by (simp add: out_buffer_def truncated_def)
    next
      case n: False
      show ?thesis
      proof (cases "length cs < ?n")
        case True
        with n len show ?thesis
          by (simp add: out_buffer_def word_less_nat_alt truncated_def store_bytes_append)
      next
        case False
        obtain k where k: "?n = Suc k" using n by (metis not0_implies_Suc)
        have n1: "unat (maxlen - 1) = k" using n k by (simp add: unat_minus_one word_unat_eq_iff)
        then have pos: "maxlen - 1 = of_nat k" by (metis of_nat_unat_64)
        have idx: "\<not> ?idx < maxlen" "maxlen - 1 < maxlen"
          using False len n1 k by (simp_all add: word_less_nat_alt)
        have len_k: "length (take k cs) = k" "k < length cs" using False k by simp_all
        then have "?m = write8 (store_bytes m buf (map of_char (take k cs))) (buf + of_nat k) (of_char (cs ! k))"
          by (simp add: k take_Suc_conv_app_nth store_bytes_append)
        moreover have "store_bytes m buf (truncated ?n cs)
          = write8 (store_bytes m buf (map of_char (take k cs))) (buf + of_nat k) 0"
          using len_k by (simp add: truncated_def k store_bytes_append)
        ultimately show ?thesis using idx by (simp add: out_buffer_def pos)
      qed
    qed
    with False assms show ?thesis
      by (simp add: vsnprintf_def vsnprintf_loop_emit emit_out_buffer cast)
  qed
qed

text \<open>C34: For a format that stands for a text, \<open>vsnprintf\<close> returns the length of the whole text and stores in
  the buffer as many of its characters as fit before a NUL in \<open>maxlen\<close> bytes; it changes no other byte,
  and none at all for a null buffer or \<open>maxlen\<close> 0.\<close>

theorem vsnprintf_contract:
  assumes "format_text fmt args = ret cs" "length cs < 2 ^ 64"
  shows "vsnprintf m buf maxlen fmt args = ret (of_nat (length cs),
    if buf = 0 then m else store_bytes m buf (truncated (unat maxlen) cs))"
  using assms by (rule vsnprintf_stores)

theorem vsnprintf_contract_witness:
  "\<exists>m'. vsnprintf (\<lambda>_. 7) 0x1000 3 ''ab%%c'' [] = ret (4, m') \<and> bytes_at m' 0x1000 4 = [0x61, 0x62, 0, 7]"
proof -
  have t: "format_text ''ab%%c'' [] = ret ''ab%c''"
    by (simp add: format_text.simps directive_text_def parse_width_def parse_precision_def parse_length_def
        peek_def convert_text_def adv_def is_digit_def)
  have "bytes_at (store_bytes (\<lambda>_. 7) 0x1000 [0x61, 0x62, 0]) 0x1000 4 = [0x61, 0x62, 0, 7 :: u8]"
    by (simp add: bytes_at_def write8_def upt_conv_Cons)
  with vsnprintf_contract [OF t, of "\<lambda>_. 7" "0x1000" 3] show ?thesis
    by (auto simp: truncated_def)
qed

text \<open>C36: No conversion of an integer overruns the 32-byte buffer, whatever the value, the base, the width,
  the precision and the flags: it hands a text to the output function and returns.\<close>

theorem ntoa_never_overruns:
  assumes "base \<in> {2, 8, 10, 16}"
  shows "\<exists>cs. (\<forall>st. ntoa_long out st val negative base prec width flags = ret (emit_all out cs st)
    \<and> ntoa_long_long out st val negative base prec width flags = ret (emit_all out cs st))"
  using assms
  by (intro exI [of _ "number_text val negative base prec width flags"])
    (auto simp: ntoa_long_emit ntoa_long_long_emit)

theorem ntoa_never_overruns_witness:
  "\<exists>st. ntoa_long out_null ((\<lambda>_. 0), 0) (- 1) True 2 100 200 (FLAGS_ZEROPAD OR FLAGS_HASH OR FLAGS_PLUS) = ret st"
  using ntoa_never_overruns [of 2 out_null "- 1" True 100 200 "FLAGS_ZEROPAD OR FLAGS_HASH OR FLAGS_PLUS"] by auto

section \<open>Integers\<close>

definition sign_chars :: "bool \<Rightarrow> u32 \<Rightarrow> string" where
  "sign_chars negative flags = (if negative then ''-'' else if has flags FLAGS_PLUS then ''+''
     else if has flags FLAGS_SPACE then '' '' else [])"

lemma rev_sign_text:
  "length buf < 32 \<or> sign_chars negative flags = [] \<Longrightarrow>
    rev (sign_text negative flags buf) = sign_chars negative flags @ rev buf"
  by (auto simp: sign_text_def sign_chars_def room_def split: if_splits)

lemma without_bit: "\<not> bit (flags :: u32) k \<Longrightarrow> flags AND NOT (push_bit k 1) = flags"
  by (rule bit_word_eqI) (auto simp: bit_and_iff bit_not_iff bit_exp_iff)

lemma without_hash: "\<not> has flags FLAGS_HASH \<Longrightarrow> flags AND NOT FLAGS_HASH = flags"
  unfolding FLAGS_HASH_def has_bit by (rule without_bit)

lemma integer_shape:
  assumes "2 \<le> unat base" "\<not> has flags FLAGS_HASH" "\<not> has flags FLAGS_PRECISION"
    and "ds = num_string (has flags FLAGS_UPPERCASE) (unat base) (unat val)" "sg = sign_chars negative flags"
    and "length sg + length ds \<le> 32" "has flags FLAGS_ZEROPAD \<Longrightarrow> unat width \<le> 32"
  shows "number_text val negative base 0 width flags =
    (if has flags FLAGS_LEFT then sg @ ds @ replicate (unat width - length sg - length ds) CHR '' ''
     else if has flags FLAGS_ZEROPAD then sg @ replicate (unat width - length sg - length ds) CHR ''0'' @ ds
     else replicate (unat width - length sg - length ds) CHR '' '' @ sg @ ds)"
proof -
  define w where "w = number_width width negative flags"
  have digits: "digits_buf flags base val = rev ds" using assms(4,6) by (simp add: digits_buf_def)
  have sg1: "length sg \<le> 1" by (simp add: assms(5) sign_chars_def)
  have flags0: "(if val = 0 then flags AND NOT FLAGS_HASH else flags) = flags"
    using assms(2) by (simp add: without_hash)
  have shape: "number_text val negative base 0 width flags
    = out_rev_text (sign_text negative flags (if has flags FLAGS_LEFT then rev ds
        else if has flags FLAGS_ZEROPAD then zeros_to (unat w) (rev ds) else rev ds)) w flags"
    unfolding number_text_def Let_def flags0 digits number_buf_def w_def
    using assms(2,3) by (simp add: zeros_to_def)
  show ?thesis
  proof (cases "has flags FLAGS_LEFT \<or> \<not> has flags FLAGS_ZEROPAD")
    case True
    then have "w = width" by (auto simp: w_def number_width_def)
    moreover have "length ds < 32 \<or> sg = []" using assms(6) by (cases sg) auto
    then have "rev (sign_text negative flags (rev ds)) = sg @ ds"
      using rev_sign_text [of "rev ds" negative flags] by (auto simp: assms(5))
    moreover from this have "length (sign_text negative flags (rev ds)) = length sg + length ds"
      by (metis length_append length_rev)
    ultimately show ?thesis
      using True unfolding shape out_rev_text_def Let_def by (auto simp: diff_diff_left)
  next
    case False
    then have zp: "\<not> has flags FLAGS_LEFT" "has flags FLAGS_ZEROPAD" by simp_all
    have "unat w = unat width - length sg"
    proof (cases "width = 0 \<or> sg = []")
      case True
      then show ?thesis by (auto simp: w_def number_width_def assms(5) sign_chars_def split: if_splits)
    next
      case False
      then have "length sg = 1" using sg1 by (cases sg) auto
      moreover have "w = width - 1"
        using False zp by (auto simp: w_def number_width_def assms(5) sign_chars_def split: if_splits)
      ultimately show ?thesis using False by (simp add: unat_minus_one)
    qed
    then have z: "zeros_to (unat w) (rev ds) = rev ds @ replicate (unat width - length sg - length ds) CHR ''0''"
      using assms(7) [OF zp(2)] by (simp add: zeros_to_def)
    have "length (zeros_to (unat w) (rev ds)) < 32 \<or> sg = []"
      using assms(6) assms(7) [OF zp(2)] sg1 unfolding z by (cases sg) auto
    then have "rev (sign_text negative flags (zeros_to (unat w) (rev ds))) = sg @ rev (zeros_to (unat w) (rev ds))"
      using rev_sign_text by (auto simp: assms(5))
    then show ?thesis
      using zp unfolding shape out_rev_text_def Let_def by (simp add: z)
  qed
qed

text \<open>Without \<open>#\<close> and precision an integer is printed as its sign and the digits of its magnitude in the base,
  most significant first, padded to the width: with spaces on the left, with zeros behind the sign, or
  with spaces on the right; provided sign and digits, and the width of a zero-padded number, take at most 32 characters.\<close>

theorem integer_text:
  assumes "2 \<le> unat base" "\<not> has flags FLAGS_HASH" "\<not> has flags FLAGS_PRECISION"
    and "ds = num_string (has flags FLAGS_UPPERCASE) (unat base) (unat val)" "sg = sign_chars negative flags"
    and "length sg + length ds \<le> 32" "has flags FLAGS_ZEROPAD \<Longrightarrow> unat width \<le> 32"
  shows "number_text val negative base 0 width flags =
    (if has flags FLAGS_LEFT then sg @ ds @ replicate (unat width - length sg - length ds) CHR '' ''
     else if has flags FLAGS_ZEROPAD then sg @ replicate (unat width - length sg - length ds) CHR ''0'' @ ds
     else replicate (unat width - length sg - length ds) CHR '' '' @ sg @ ds)"
  using assms by (rule integer_shape)

theorem integer_text_witness:
  "number_text 42 True 10 0 6 FLAGS_ZEROPAD = ''-00042''"
proof -
  have three: "replicate 3 CHR ''0'' = ''000''" by (simp add: numeral_eq_Suc)
  have ds: "num_string False 10 42 = ''42''" by (simp add: num_string.simps digit_char_def char_of_def bit_0)
  show ?thesis
    using integer_text [of 10 FLAGS_ZEROPAD "num_string False 10 42" 42 "''-''" True 6]
    by (simp add: ds has_def FLAGS_defs sign_chars_def three)
qed

section \<open>Agreement with the debug console\<close>

text \<open>A conversion with nothing between the \<open>%\<close> and its letter, and one with an \<open>l\<close>.\<close>

lemma no_flags [simp]: "\<not> has 0 f"
  by (simp add: has_def)

definition conversion_letter :: "char \<Rightarrow> bool" where
  "conversion_letter c \<longleftrightarrow> c = CHR ''d'' \<or> c = CHR ''u'' \<or> c = CHR ''x'' \<or> c = CHR ''c'' \<or> c = CHR ''s''"

lemma parse_letter:
  assumes "conversion_letter c"
  shows "parse_flags f (c # fmt) = (f, c # fmt)"
    and "parse_width f (c # fmt) args = ret (f, 0, c # fmt, args)"
    and "parse_precision f (c # fmt) args = ret (f, 0, c # fmt, args)"
    and "parse_length f (c # fmt) = ret (f, c # fmt)"
  using assms unfolding conversion_letter_def
  by (elim disjE; simp add: parse_width_def parse_precision_def parse_length_def peek_def is_digit_def)+

lemma parse_l:
  assumes "conversion_letter c"
  shows "parse_flags f (CHR ''l'' # c # fmt) = (f, CHR ''l'' # c # fmt)"
    and "parse_width f (CHR ''l'' # c # fmt) args = ret (f, 0, CHR ''l'' # c # fmt, args)"
    and "parse_precision f (CHR ''l'' # c # fmt) args = ret (f, 0, CHR ''l'' # c # fmt, args)"
    and "parse_length 0 (CHR ''l'' # c # fmt) = ret (FLAGS_LONG, c # fmt)"
  using assms unfolding conversion_letter_def
  by (auto simp: parse_width_def parse_precision_def parse_length_def peek_def is_digit_def adv_def)

lemma directive_plain:
  "conversion_letter c \<Longrightarrow>
    directive_text (c # fmt) args = seq (convert_text 0 0 0 c args) (\<lambda>(cs, args). ret (cs, fmt, args))"
  by (simp add: directive_text_def parse_letter split_def adv_def peek_def del: parse_flags.simps)

lemma directive_long:
  "conversion_letter c \<Longrightarrow>
    directive_text (CHR ''l'' # c # fmt) args
      = seq (convert_text FLAGS_LONG 0 0 c args) (\<lambda>(cs, args). ret (cs, fmt, args))"
  by (simp add: directive_text_def parse_l split_def adv_def peek_def del: parse_flags.simps)

lemma number_text_plain:
  assumes "base = 10 \<or> base = 16" "f = 0 \<or> f = FLAGS_LONG"
  shows "number_text val negative base 0 0 f
    = (if negative then ''-'' else []) @ num_string False (unat base) (unat val)"
proof -
  have f: "\<not> has f FLAGS_HASH" "\<not> has f FLAGS_PRECISION" "\<not> has f FLAGS_ZEROPAD" "\<not> has f FLAGS_LEFT"
    "\<not> has f FLAGS_UPPERCASE" "\<not> has f FLAGS_PLUS" "\<not> has f FLAGS_SPACE"
    using assms(2) by (auto simp: has_def FLAGS_defs)
  have base: "2 \<le> unat base" using assms(1) by auto
  have "length (num_string False (unat base) (unat val)) \<le> 20"
    using assms(1) unat_lt_64 [of val] num_string_31 [of "unat base" "unat val" False] by auto
  then have len: "length (sign_chars negative f) + length (num_string (has f FLAGS_UPPERCASE) (unat base) (unat val)) \<le> 32"
    by (simp add: sign_chars_def f)
  show ?thesis
    using integer_shape [OF base f(1,2) refl refl len, of 0] f by (simp add: sign_chars_def)
qed

lemma long_flags [simp]:
  "has FLAGS_LONG FLAGS_LONG" "\<not> has FLAGS_LONG FLAGS_LONG_LONG" "\<not> has FLAGS_LONG FLAGS_LEFT"
  "\<not> has FLAGS_LONG FLAGS_ZEROPAD" "\<not> has FLAGS_LONG FLAGS_PLUS" "\<not> has FLAGS_LONG FLAGS_SPACE"
  "\<not> has FLAGS_LONG FLAGS_HASH" "\<not> has FLAGS_LONG FLAGS_UPPERCASE" "\<not> has FLAGS_LONG FLAGS_PRECISION"
  "FLAGS_LONG AND NOT FLAGS_HASH = FLAGS_LONG" "FLAGS_LONG AND NOT FLAGS_PLUS AND NOT FLAGS_SPACE = FLAGS_LONG"
  "FLAGS_LONG \<noteq> 0"
  by (simp_all add: has_def FLAGS_defs)

lemma int_flags_plain:
  assumes "c = CHR ''d'' \<or> c = CHR ''u'' \<or> c = CHR ''x''" "f = 0 \<or> f = FLAGS_LONG"
  shows "int_flags f c = f"
  using assms by (elim disjE; hypsubst; simp add: int_flags_def Let_def)

lemma unat_of_int_64: "0 \<le> k \<Longrightarrow> k < 2 ^ 64 \<Longrightarrow> unat (of_int k :: u64) = nat k"
  using unat_of_nat_64 [of "nat k"] by simp

lemma magnitude_nat:
  assumes "- (2 ^ 63) \<le> v" "v < 2 ^ 63"
    and "v \<noteq> (if has f FLAGS_LONG_LONG \<or> has f FLAGS_LONG then - (2 ^ 63) else - (2 ^ 31))"
  shows "\<exists>m. magnitude f v = ret m \<and> unat m = nat \<bar>v\<bar>"
proof (cases "0 < v")
  case True
  with assms(2) unat_of_int_64 [of v] show ?thesis by (simp add: magnitude_def)
next
  case False
  with assms(1) have "unat (of_int (- v) :: u64) = nat (- v)" by (intro unat_of_int_64) simp_all
  with False assms(3) show ?thesis unfolding magnitude_def by (simp only: if_False) simp
qed

text \<open>The conversions both formatters know and print alike.\<close>

fun common_format :: "string \<Rightarrow> bool" where
  "common_format [] = True"
| "common_format (c # fmt) =
     (if c \<noteq> CHR ''%'' then common_format fmt
      else case fmt of
          [] \<Rightarrow> False
        | d # fmt' \<Rightarrow>
            if d \<in> {CHR ''d'', CHR ''u'', CHR ''x'', CHR ''c'', CHR ''s''} then common_format fmt'
            else if d = CHR ''l'' then
              (case fmt' of [] \<Rightarrow> False | e # fmt'' \<Rightarrow> e \<in> {CHR ''d'', CHR ''u'', CHR ''x''} \<and> common_format fmt'')
            else False)"

lemma str_text_plain: "CHR 0x00 \<notin> set p \<Longrightarrow> str_text 0 0 0 p = p"
proof -
  assume "CHR 0x00 \<notin> set p"
  then have "str_prefix False k p = p" for k by (induction p arbitrary: k) auto
  then show ?thesis by (simp add: str_text_def pad_text_def Let_def)
qed

lemma sint_u32_bounds: "- (2 ^ 63) \<le> sint (w :: u32)" "sint (w :: u32) < 2 ^ 63"
  using sint_ge [of w] sint_lt [of w] by simp_all

lemma sint_u64_bounds: "- (2 ^ 63) \<le> sint (w :: u64)" "sint (w :: u64) < 2 ^ 63"
  using sint_ge [of w] sint_lt [of w] by simp_all

text \<open>The common conversions, by \<open>vsnprintf\<close>.\<close>

lemma convert_signed_plain:
  assumes "f = 0 \<or> f = FLAGS_LONG" "v = (if f = 0 then sint (ucast w :: u32) else sint w)"
    and "v \<noteq> (if f = 0 then - (2 ^ 31) else - (2 ^ 63))"
  shows "convert_text f 0 0 CHR ''d'' (VaWord w # args) = ret (int_string v, args)"
proof -
  have v: "signed_value f w = v" using assms(1,2) by (elim disjE) (simp_all add: signed_value_def)
  have "\<exists>m. magnitude f v = ret m \<and> unat m = nat \<bar>v\<bar>"
    using assms by (intro magnitude_nat) (auto simp: sint_u32_bounds [simplified]
        sint_u64_bounds [simplified])
  then obtain m where m: "magnitude f v = ret m" "unat m = nat \<bar>v\<bar>" by blast
  show ?thesis
    using assms(1) m v number_text_plain [of 10 f m "v < 0"]
    by (simp add: convert_text_def int_text_def int_flags_plain int_base_def int_string_def Let_def)
qed

lemma convert_unsigned_plain:
  assumes "f = 0 \<or> f = FLAGS_LONG" "n = (if f = 0 then unat (ucast w :: u32) else unat w)"
  shows "convert_text f 0 0 CHR ''u'' (VaWord w # args) = ret (num_string False 10 n, args)"
    and "convert_text f 0 0 CHR ''x'' (VaWord w # args) = ret (num_string False 16 n, args)"
proof -
  have n: "unat (unsigned_value f w) = n"
    using assms by (elim disjE) (simp_all add: unsigned_value_def unsigned_ucast_eq unsigned_take_bit_eq)
  show "convert_text f 0 0 CHR ''u'' (VaWord w # args) = ret (num_string False 10 n, args)"
    using assms(1) n number_text_plain [of 10 f "unsigned_value f w" False]
    by (simp add: convert_text_def int_text_def int_flags_plain int_base_def Let_def)
  show "convert_text f 0 0 CHR ''x'' (VaWord w # args) = ret (num_string False 16 n, args)"
    using assms(1) n number_text_plain [of 16 f "unsigned_value f w" False]
    by (simp add: convert_text_def int_text_def int_flags_plain int_base_def Let_def)
qed

lemma directive_char_str:
  "directive_text (CHR ''c'' # fmt) (VaWord w # args) = ret ([char_of (unat w)], fmt, args)"
  "CHR 0x00 \<notin> set p \<Longrightarrow> directive_text (CHR ''s'' # fmt) (VaStr p # args) = ret (p, fmt, args)"
  by (simp_all add: directive_plain conversion_letter_def convert_text_def pad_text_def str_text_plain)

lemma directive_int:
  "sint (ucast w :: u32) \<noteq> - (2 ^ 31) \<Longrightarrow>
    directive_text (CHR ''d'' # fmt) (VaWord w # args) = ret (int_string (sint (ucast w :: u32)), fmt, args)"
  "sint w \<noteq> - (2 ^ 63) \<Longrightarrow>
    directive_text (CHR ''l'' # CHR ''d'' # fmt) (VaWord w # args) = ret (int_string (sint w), fmt, args)"
  by (simp_all add: directive_plain directive_long conversion_letter_def
      convert_signed_plain [of 0, OF _ refl] convert_signed_plain [of FLAGS_LONG, OF _ refl])

lemma directive_unsigned:
  "directive_text (CHR ''u'' # fmt) (VaWord w # args) = ret (num_string False 10 (unat (ucast w :: u32)), fmt, args)"
  "directive_text (CHR ''x'' # fmt) (VaWord w # args) = ret (num_string False 16 (unat (ucast w :: u32)), fmt, args)"
  "directive_text (CHR ''l'' # CHR ''u'' # fmt) (VaWord w # args) = ret (num_string False 10 (unat w), fmt, args)"
  "directive_text (CHR ''l'' # CHR ''x'' # fmt) (VaWord w # args) = ret (num_string False 16 (unat w), fmt, args)"
  by (simp_all add: directive_plain directive_long conversion_letter_def
      convert_unsigned_plain [of 0, OF _ refl] convert_unsigned_plain [of FLAGS_LONG, OF _ refl])

lemmas directive_common = directive_char_str directive_int directive_unsigned

lemma format_text_renders:
  "renders fmt args cs \<Longrightarrow> common_format fmt \<Longrightarrow> format_text fmt args = ret cs"
proof (induction rule: renders.induct)
  case (Int v w fmt args t)
  then show ?case by (simp add: directive_common)
next
  case (Long_int v w fmt args t)
  then show ?case by (simp add: directive_common)
qed (simp_all add: directive_common split: if_splits list.splits)



section \<open>Formats that go wrong\<close>

lemma directive_lb:
  "directive_text (CHR ''l'' # CHR ''b'' # fmt) (VaWord w # args)
    = ret (number_text w False 2 0 0 FLAGS_LONG, fmt, args)"
proof -
  have "int_flags FLAGS_LONG CHR ''b'' = FLAGS_LONG" by (simp add: int_flags_def Let_def int_base_def)
  then show ?thesis
    by (simp add: directive_text_def parse_width_def parse_precision_def parse_length_def peek_def
        is_digit_def adv_def convert_text_def int_text_def int_base_def unsigned_value_def)
qed

text \<open>\<open>%lb\<close> prints at most the last 32 binary digits of a 64-bit value: the conversion buffer is full then,
  and the higher digits are dropped without notice.\<close>

theorem binary_truncated:
  "format_text ''%lb'' [VaWord w]
    = ret (let ds = num_string False 2 (unat w) in drop (length ds - 32) ds)"
proof -
  have "take 32 (rev ds) = rev (drop (length ds - 32) ds)" for ds :: string by (simp add: take_rev)
  then have "number_text w False 2 0 0 FLAGS_LONG = (let ds = num_string False 2 (unat w) in drop (length ds - 32) ds)"
    by (simp add: number_text_def digits_buf_def number_buf_def number_width_def out_rev_text_def zeros_to_def
        sign_text_def Let_def)
  then show ?thesis by (simp add: directive_lb)
qed

lemma vsnprintf_plain:
  assumes "\<forall>c \<in> set p. c \<noteq> CHR ''%'' \<and> c \<noteq> CHR 0x00"
  shows "format_text (p @ fmt) args = seq (format_text fmt args) (\<lambda>cs. ret (p @ cs))"
  using assms by (induction p) (auto simp: seq_assoc)

lemma vsnprintf_fails: "format_text fmt args = fail e \<Longrightarrow> vsnprintf m buf maxlen fmt args = fail e"
  by (simp add: vsnprintf_def vsnprintf_loop_emit)



lemma length_int_string: "- (2 ^ 31) \<le> v \<Longrightarrow> v < 2 ^ 31 \<Longrightarrow> length (int_string v) \<le> 21"
proof -
  assume "- (2 ^ 31) \<le> v" "v < 2 ^ 31"
  then have "length (num_string False 10 (nat \<bar>v\<bar>)) \<le> 20" by (intro num_string_31) auto
  then show ?thesis by (cases "v < 0") (simp_all add: int_string_def)
qed

text \<open>\<open>sprintf_\<close> does not look at its format: whatever it is, the buffer gets the text of \<open>TEST:%d\<close> and a
  newline for the first argument.\<close>

theorem sprintf_ignores_format:
  assumes "v = sint (ucast w :: u32)" "v \<noteq> - (2 ^ 31)" "buf \<noteq> 0"
  shows "libc_sprintf m buf fmt (VaWord w # args)
    = ret (of_nat (6 + length (int_string v)),
        store_bytes m buf (map of_char (''TEST:'' @ int_string v @ [CHR 0x0A]) @ [0]))"
proof -
  let ?cs = "''TEST:'' @ int_string v @ [CHR 0x0A]"
  have t: "format_text ''TEST:%d\<newline>'' (VaWord w # args) = ret ?cs"
    using assms by (simp add: directive_common)
  have "length (int_string v) \<le> 21"
    using assms(1) sint_ge [of "ucast w :: u32"] sint_lt [of "ucast w :: u32"] by (intro length_int_string) simp_all
  then show ?thesis
    using vsnprintf_stores [OF t, of m buf "- 1"] assms(3)
    by (simp add: libc_sprintf_def truncated_def unsigned_minus_1_eq_mask mask_eq_exp_minus_1)
qed

theorem sprintf_ignores_format_witness:
  "libc_sprintf (\<lambda>_. 0) 0x1000 ''%s'' [VaWord 7] = ret (7, store_bytes (\<lambda>_. 0) 0x1000 (map of_char ''TEST:7\<newline>'' @ [0]))"
  using sprintf_ignores_format [of 7 7 "0x1000" "\<lambda>_. 0" "''%s''" "[]"]
  by (simp add: int_string_def num_string.simps digit_char_def char_of_def bit_0)

end
