(* ===== verification/Io_Props.thy ===== *)
theory Io_Props
  imports Io Tui_Text Vsprintf_Props
begin

text \<open>
  The formatter, the string routines, the console and the serial port together: what \<open>printf\<close> and
  the coloured functions print.
\<close>

section \<open>Registers\<close>

lemma length_le_bytes [simp]: "length (le_bytes n v) = n"
  by (induction n arbitrary: v) simp_all

lemma le_nat_le_bytes: "v < 256 ^ n \<Longrightarrow> le_nat (le_bytes n v) = v"
proof (induction n arbitrary: v)
  case (Suc n)
  then have "v div 256 < 256 ^ n" by (simp add: less_mult_imp_div_less mult.commute)
  with Suc.IH have "le_nat (le_bytes n (v div 256)) = v div 256" by blast
  moreover have "unat (of_nat (v mod 256) :: u8) = v mod 256" by (simp add: unat_of_nat take_bit_eq_mod)
  ultimately show ?case by simp
qed simp

text \<open>A memory-mapped register reads back what was written to it, at each of the four widths, and the write
  changes no other byte.\<close>

theorem mmio_roundtrip:
  "io_read8 a (io_write8 a v8 s) = v8 \<and> io_read16 a (io_write16 a v16 s) = v16
    \<and> io_read32 a (io_write32 a v32 s) = v32 \<and> io_read64 a (io_write64 a v64 s) = v64
    \<and> (\<not> in_region a 8 x \<longrightarrow> ram (io_write64 a v64 s) x = ram s x)"
proof -
  have "unat v32 < 256 ^ 4" using unsigned_less [of v32, where 'a = nat] by simp
  then have "le_nat (bytes_at (store_bytes (ram s) a (le_bytes 4 (unat v32))) a 4) = unat v32"
    using bytes_at_store_bytes [of "le_bytes 4 (unat v32)" "ram s" a] by (simp add: le_nat_le_bytes)
  moreover have "unat v64 < 256 ^ 8" using unsigned_less [of v64, where 'a = nat] by simp
  then have "le_nat (bytes_at (store_bytes (ram s) a (le_bytes 8 (unat v64))) a 8) = unat v64"
    using bytes_at_store_bytes [of "le_bytes 8 (unat v64)" "ram s" a] by (simp add: le_nat_le_bytes)
  ultimately show ?thesis
    by (simp add: io_read8_def io_write8_def io_read16_def io_write16_def io_read32_def io_write32_def
        io_read64_def io_write64_def read32_def read64_def load16_store16 write8_apply store_bytes_outside)
qed

theorem mmio_roundtrip_witness:
  "ram (io_write64 0x1000 7 \<lparr>ram = \<lambda>_. 0, ports = [], device = \<lambda>_ _. 0\<rparr>) 0x1008 = 0"
  using mmio_roundtrip [of "0x1000" 0 "\<lparr>ram = \<lambda>_. 0, ports = [], device = \<lambda>_ _. 0\<rparr>" 0 0 7 "0x1008"]
  by (simp add: in_region_def)

section \<open>Printing\<close>

text \<open>What \<open>printf\<close> relies on: the array \<open>buf\<close> is an ordinary region of memory, apart from the screen.\<close>

definition buf_ok :: "addr \<Rightarrow> bool" where
  "buf_ok buf \<longleftrightarrow> buf \<noteq> 0 \<and> fits buf 512 \<and> disjoint_regions 0xB8000 4000 buf 512"

lemma cells_cong: "(\<And>a. in_region 0xB8000 4000 a \<Longrightarrow> m a = m' a) \<Longrightarrow> cells m 2000 = cells m' 2000"
proof (rule nth_equalityI)
  fix i assume same: "\<And>a. in_region 0xB8000 4000 a \<Longrightarrow> m a = m' a" and "i < length (cells m 2000)"
  then have i: "i < 2000" by simp
  have "fits 0xB8000 4000" by (simp add: fits_def)
  then have "in_region 0xB8000 4000 (cell_addr i)" "in_region 0xB8000 4000 (cell_addr i + 1)"
    using i by (simp_all add: in_region_fits cell_addr_unat cell_addr_unat_Suc)
  with same i show "cells m 2000 ! i = cells m' 2000 ! i" by (simp add: load16_def)
qed simp

lemma store_buf_cells:
  assumes "buf_ok buf" "length bs \<le> 512"
  shows "cells (store_bytes m buf bs) 2000 = cells m 2000"
proof (rule cells_cong)
  fix a assume "in_region 0xB8000 4000 a"
  then obtain j where j: "j < 4000" "a = 0xB8000 + of_nat j" by (rule in_regionE)
  have "disjoint_regions buf (length bs) 0xB8000 4000"
    using assms by (auto simp: buf_ok_def disjoint_regions_sym [of buf] dest: disjoint_regions_mono [OF _ le_refl assms(2)])
  from disjoint_regions_notin [OF this j(1)] assms(2)
  show "store_bytes m buf bs a = m a" by (simp add: j(2) store_bytes_outside)
qed

lemma tui_write_string_types:
  assumes "tui_ok s" "uart_drains (device s)" "buf_ok buf" "CHR 0x09 \<notin> set cs" "CHR 0x00 \<notin> set cs" "length cs < 512"
    and "bytes_at (ram s) buf (length cs + 1) = map of_char cs @ [0]"
  shows "\<exists>u. tui_write_string buf s = ret u \<and> tui_ok u \<and> tui_step 2000 s u (tui_serials cs)
    \<and> tui_abs u = tui_puts s cs (tui_abs s)"
proof -
  have bytes: "bytes_at (ram s) buf (length cs) = map of_char cs" "ram s (buf + of_nat (length cs)) = 0"
    using assms(7) by (simp_all add: bytes_at_Suc_end)
  have nz: "(of_char c :: u8) \<noteq> 0" if "c \<in> set cs" for c
  proof
    assume "(of_char c :: u8) = 0"
    then have "(of_char c :: nat) = 0" by (metis unat_of_char unsigned_0)
    moreover have "c = char_of (of_char c :: nat)" by simp
    moreover have "char_of (0 :: nat) = CHR 0x00" by (simp add: char_of_def)
    ultimately have "c = CHR 0x00" by metis
    with that assms(5) show False by simp
  qed
  then have "cstr (ram s) buf (map of_char cs)"
    using assms(6) bytes by (auto simp: cstr_def)
  then have len: "strlen (ram s) buf = Some (of_nat (length cs))" using strlen_cstr by fastforce
  have "unat (of_nat (length cs) :: u64) = length cs" using assms(6) by (intro unat_of_nat_64) simp
  moreover have "disjoint_regions 0xB8000 4000 buf (length cs)"
    using assms(3,6) by (auto simp: buf_ok_def intro: disjoint_regions_mono)
  ultimately show ?thesis
    using tui_write_loop_types [OF assms(1,2,4), of buf 0] bytes(1) assms(6)
    by (simp add: tui_write_string_def len tui_write_len_def)
qed

text \<open>\<open>printed buf s u cs\<close>: between \<open>s\<close> and \<open>u\<close> the text \<open>cs\<close> was typed and sent, the buffer was cleared,
  and nothing else in memory changed.\<close>

definition printed :: "addr \<Rightarrow> 'a tui_scheme \<Rightarrow> 'a tui_scheme \<Rightarrow> string \<Rightarrow> bool" where
  "printed buf s u cs \<longleftrightarrow> tui_ok u \<and> tui_abs u = tui_puts s cs (tui_abs s)
     \<and> written 0x3F8 (ports u) = written 0x3F8 (ports s) @ tui_serials cs \<and> console_ports (ports s) (ports u)
     \<and> device u = device s \<and> tui.more u = tui.more s
     \<and> bytes_at (ram u) buf 512 = replicate 512 0
     \<and> (\<forall>a. outside_screen a \<and> \<not> in_region buf 512 a \<longrightarrow> ram u a = ram s a)"

lemma print_buffer:
  fixes s :: "'a tui_scheme"
  assumes "format_text fmt args = ret cs" "length cs < 2 ^ 64" "CHR 0x09 \<notin> set cs" "CHR 0x00 \<notin> set cs"
    and "buf_ok buf" "tui_ok s" "uart_drains (device s)"
  shows "\<exists>u. seq (vsnprintf (ram s) buf BUF_SIZE fmt args) (\<lambda>(n, m).
      seq (io_write_string buf (s\<lparr>ram := m\<rparr>)) (\<lambda>(_, s). ret (n, s\<lparr>ram := bzero (ram s) buf BUF_SIZE\<rparr>)))
      = ret (of_nat (length cs), u)
    \<and> printed buf s u (take 511 cs) \<and> tui_color u = tui_color s"
proof -
  let ?cs = "take 511 cs" and ?bs = "map of_char (take 511 cs) @ [0]"
  let ?m = "store_bytes (ram s) buf ?bs"
  have fmt: "vsnprintf (ram s) buf BUF_SIZE fmt args = ret (of_nat (length cs), ?m)"
    using vsnprintf_stores [OF assms(1,2), of "ram s" buf BUF_SIZE] assms(5)
    by (simp add: buf_ok_def BUF_SIZE_def truncated_def)
  let ?s = "s\<lparr>ram := ?m\<rparr>"
  have len: "length ?bs \<le> 512" by simp
  have abs: "tui_abs ?s = tui_abs s" using store_buf_cells [OF assms(5) len] by (simp add: tui_abs_def)
  have puts: "tui_puts ?s ?cs = tui_puts s ?cs" by (simp add: tui_puts_def blank_cell_def entry_cell_def)
  have ok: "tui_ok ?s" "uart_drains (device ?s)" using assms(6,7) by (simp_all add: tui_ok_def)
  have nos: "CHR 0x09 \<notin> set ?cs" "CHR 0x00 \<notin> set ?cs" "length ?cs < 512"
    using assms(3,4) by (auto dest: in_set_takeD)
  have "bytes_at (ram ?s) buf (length ?cs + 1) = ?bs"
    using bytes_at_store_bytes [of ?bs "ram s" buf] by simp
  from tui_write_string_types [OF ok assms(5) nos this] obtain t where
    t: "tui_write_string buf ?s = ret t" "tui_ok t" "tui_step 2000 ?s t (tui_serials ?cs)"
      "tui_abs t = tui_puts ?s ?cs (tui_abs ?s)" by blast
  define u where "u = t\<lparr>ram := store_bytes (ram t) buf (replicate 512 0)\<rparr>"
  have zero: "bzero (ram t) buf BUF_SIZE = store_bytes (ram t) buf (replicate 512 0)"
    by (simp add: bzero_def memset_def memset_loop_store BUF_SIZE_def)
  have cells: "cells (ram u) 2000 = cells (ram t) 2000"
    unfolding u_def using store_buf_cells [OF assms(5), of "replicate 512 0"]
    by simp
  have "bytes_at (ram u) buf 512 = replicate 512 0"
    unfolding u_def using bytes_at_store_bytes [of "replicate 512 (0 :: u8)" "ram t" buf]
    by simp
  moreover have "ram u a = ram s a" if "outside_screen a" "\<not> in_region buf 512 a" for a
  proof -
    have "ram u a = ram t a" using that(2) by (simp add: u_def store_bytes_outside)
    also have "\<dots> = ?m a" using t(3) that(1) by (simp add: tui_step_def outside_screen_def)
    also have "\<dots> = ram s a"
      using that(2) len in_region_mono [of buf "length ?bs" a 512] by (intro store_bytes_outside) auto
    finally show ?thesis .
  qed
  moreover have "tui_ok u" "tui_abs u = tui_abs t" using t(2) cells by (simp_all add: tui_ok_def tui_abs_def u_def)
  moreover have "written 0x3F8 (ports u) = written 0x3F8 (ports s) @ tui_serials ?cs" "device u = device s"
    "console_ports (ports s) (ports u)"
    "tui.more u = tui.more s" "tui_color u = tui_color s"
    using t(3) by (simp_all add: u_def tui_step_def)
  ultimately have "printed buf s u ?cs" "tui_color u = tui_color s"
    using t(4) abs puts unfolding printed_def by auto
  then show ?thesis
    using t(1) by (intro exI [of _ u]) (simp add: fmt io_write_string_def zero u_def)
qed

lemma io_colored_buffer:
  "io_colored color buf fmt args s = (let s0 = io_set_color color s in
    seq (seq (vsnprintf (ram s0) buf BUF_SIZE fmt args) (\<lambda>(n, m).
      seq (io_write_string buf (s0\<lparr>ram := m\<rparr>)) (\<lambda>(_, s). ret (n, s\<lparr>ram := bzero (ram s) buf BUF_SIZE\<rparr>))))
    (\<lambda>(i, t). ret (i, io_set_color (io_get_color s) t)))"
  by (simp add: io_colored_def Let_def seq_assoc split_def)


lemma boot_tui_ready: "tui_ok boot_tui" "uart_drains (device boot_tui)"
  by (simp_all add: tui_ok_def boot_tui_def new_pos_def uart_drains_def uart_ready_def)

lemma buf_ok_high: "buf_ok 0x100000"
proof -
  have "fits 0x100000 512" "fits 0xB8000 4000" by (simp_all add: fits_def)
  then show ?thesis by (auto simp: buf_ok_def intro: disjoint_regionsI_below)
qed


lemma io_colored_prints:
  assumes "format_text fmt args = ret cs" "length cs < 2 ^ 64" "CHR 0x09 \<notin> set cs" "CHR 0x00 \<notin> set cs"
    and "buf_ok buf" "tui_ok s" "uart_drains (device s)"
  shows "\<exists>u. io_colored color buf fmt args s = ret (of_nat (length cs), u)
    \<and> printed buf (io_set_color color s) u (take 511 cs)
    \<and> tui_color u = new_col (tui_get_color s) BLACK
    \<and> (\<forall>fore. tui_color s = new_col fore BLACK \<longrightarrow> tui_color u = tui_color s)"
proof -
  let ?s = "io_set_color color s"
  have ok: "tui_ok ?s" "uart_drains (device ?s)"
    using assms(6,7) by (simp_all add: io_set_color_def tui_set_color_def tui_ok_def)
  obtain t where t: "seq (vsnprintf (ram ?s) buf BUF_SIZE fmt args) (\<lambda>(n, m).
      seq (io_write_string buf (?s\<lparr>ram := m\<rparr>)) (\<lambda>(_, s). ret (n, s\<lparr>ram := bzero (ram s) buf BUF_SIZE\<rparr>)))
      = ret (of_nat (length cs), t)" "printed buf ?s t (take 511 cs)"
    using print_buffer [OF assms(1-5) ok] by blast
  have "printed buf ?s (io_set_color c t) (take 511 cs)" for c
    using t(2) by (simp add: printed_def io_set_color_def tui_set_color_def tui_ok_def tui_abs_def)
  moreover have "tui_get_color s = fore" if "tui_color s = new_col fore BLACK" for fore
    using that by (simp add: tui_get_color_def new_col_def color_nibble)
  ultimately show ?thesis
    by (auto simp: io_colored_buffer t(1) Let_def io_get_color_def)
      (simp_all add: io_set_color_def tui_set_color_def)
qed

text \<open>\<open>info\<close>, \<open>warn\<close> and \<open>err\<close> print like \<open>printf\<close>, in cyan, yellow and light red on black. Afterwards the foreground
  is what \<open>get_color\<close> reported before, on black: the colours are restored if the background was black.\<close>

theorem info_warn_err_print:
  assumes "format_text fmt args = ret cs" "length cs < 2 ^ 64" "CHR 0x09 \<notin> set cs" "CHR 0x00 \<notin> set cs"
    and "buf_ok buf" "tui_ok s" "uart_drains (device s)"
    and "(p, color) \<in> {(io_info, CYAN), (io_warn, YELLOW), (io_err, LIGHT_RED)}"
  shows "\<exists>u. p buf fmt args s = ret (of_nat (length cs), u)
    \<and> printed buf (io_set_color color s) u (take 511 cs)
    \<and> tui_color u = new_col (tui_get_color s) BLACK
    \<and> (\<forall>fore. tui_color s = new_col fore BLACK \<longrightarrow> tui_color u = tui_color s)"
proof -
  have "p = io_colored color" using assms(8) by (auto simp: io_info_def io_warn_def io_err_def)
  with io_colored_prints [OF assms(1-7)] show ?thesis by blast
qed

theorem info_warn_err_print_witness:
  "\<exists>u. io_err 0x100000 ''no'' [] boot_tui = ret (2, u) \<and> tui_color u = tui_color boot_tui"
proof -
  have "format_text ''no'' [] = ret ''no''" by simp
  from info_warn_err_print [OF this _ _ _ buf_ok_high boot_tui_ready, of io_err LIGHT_RED]
  show ?thesis by (auto simp: boot_tui_def)
qed

section \<open>Streams\<close>

lemma char_of_promoted: "char_of (unat (ucast (scast (of_char c :: u8) :: u32) :: u64)) = c"
proof -
  let ?b = "of_char c :: u8"
  have "take_bit 8 (ucast (scast ?b :: u32) :: u64) = ucast ?b"
  proof (rule bit_word_eqI)
    fix n assume "n < LENGTH(64)"
    moreover have "n = 7" if "7 \<le> n" "bit ?b n" using that bit_imp_le_length [of ?b n] by simp
    moreover have "\<lbrakk>7 \<le> n; n < 8; bit ?b 7\<rbrakk> \<Longrightarrow> bit ?b n" by (cases "n = 7") simp_all
    ultimately show "bit (take_bit 8 (ucast (scast ?b :: u32) :: u64)) n = bit (ucast ?b :: u64) n"
      by (auto simp: bit_take_bit_iff bit_unsigned_iff bit_signed_iff min_def)
  qed
  then have "unat (take_bit 8 (ucast (scast ?b :: u32) :: u64)) = unat ?b" by simp
  then have "take_bit 8 (unat (ucast (scast ?b :: u32) :: u64)) = of_char c"
    by (simp only: unsigned_take_bit_eq) (simp add: unat_of_char)
  moreover have "char_of n = char_of (take_bit 8 n)" for n :: nat
    by (simp add: char_of_def bit_take_bit_iff)
  ultimately show ?thesis by (metis char_of_char)
qed

text \<open>The stream operators print a character, the decimal numeral of an \<open>int\<close>, a string, and \<open>endl\<close> a newline; the smallest
  \<open>int\<close> and texts with tabs and NULs aside.\<close>

theorem ostream_prints:
  assumes "buf_ok buf" "tui_ok s" "uart_drains (device s)"
    and "c \<notin> {CHR 0x09, CHR 0x00}" "n \<noteq> 0x80000000" "CHR 0x09 \<notin> set p" "CHR 0x00 \<notin> set p" "length p < 2 ^ 64"
  shows "(\<exists>u. ostream_char buf c s = ret u \<and> printed buf s u [c])
    \<and> (\<exists>u. ostream_int buf n s = ret u \<and> printed buf s u (int_string (sint n)))
    \<and> (\<exists>u. ostream_str buf p s = ret u \<and> printed buf s u (take 511 p))
    \<and> (\<exists>u. ostream_manip (endl buf) s = ret u \<and> printed buf s u [CHR 0x0A])"
proof -
  have out: "\<exists>u. seq (io_printf buf fmt args s) (\<lambda>(_, s). ret s) = ret u \<and> printed buf s u (take 511 cs)"
    if "format_text fmt args = ret cs" "length cs < 2 ^ 64" "CHR 0x09 \<notin> set cs" "CHR 0x00 \<notin> set cs"
    for fmt args cs
    using print_buffer [OF that assms(1-3), folded io_printf_def] by auto
  have ch: "format_text ''%c'' [VaWord (ucast (scast (of_char d :: u8) :: u32))] = ret [d]" for d
    by (simp add: directive_common char_of_promoted)
  have n: "sint n \<noteq> - (2 ^ 31)"
  proof
    assume "sint n = - (2 ^ 31)"
    moreover have "word_of_int (sint n) = n" by simp
    ultimately show False using assms(5) by simp
  qed
  have cast: "(ucast (ucast n :: u64) :: u32) = n" by (rule bit_word_eqI) (simp add: bit_unsigned_iff)
  have int: "format_text ''%d'' [VaWord (ucast n)] = ret (int_string (sint n))"
    using n by (simp add: directive_common cast)
  have len: "length (int_string (sint n)) \<le> 21"
    using sint_ge [of n] sint_lt [of n] by (intro length_int_string) simp_all
  have tab: "CHR 0x09 \<notin> set (int_string (sint n))"
    by (auto simp: int_string_def num_string_no_tab)
  from out [OF ch, of c] out [OF int] out [of "''%s''" "[VaStr p]" p] out [OF ch, of "CHR 0x0A"]
  show ?thesis
    using assms(4,6-8) len tab int_string_no_nul
    by (simp add: eq_commute [of _ c] ostream_char_def ostream_int_def ostream_str_def ostream_manip_def endl_def directive_common)
qed

theorem ostream_prints_witness:
  "\<exists>u. ostream_int 0x100000 0xFFFFFFD6 boot_tui = ret u \<and> printed 0x100000 boot_tui u ''-42''"
proof -
  have "int_string (- 42) = ''-42''"
    by (simp add: int_string_def num_string.simps digit_char_def char_of_def bit_0)
  with ostream_prints [OF buf_ok_high boot_tui_ready, of "CHR ''a''" "0xFFFFFFD6" "[]"] show ?thesis by auto
qed

end
