(* ===== verification/Pmm_Props.thy ===== *)
theory Pmm_Props
  imports Pmm Firstfit_Claims Multiboot_Props Io_Props
begin

text \<open>
  The physical memory manager: its invariant, the two spaces as two providers of the contract of an allocator, what clients
  of both spaces may do.
\<close>

section \<open>The invariant\<close>

text \<open>Both allocators exist, manage adjacent spaces that do not wrap, and satisfy their own invariants.\<close>

definition pmm_inv :: "'a pmm_scheme \<Rightarrow> bool" where
  "pmm_inv s \<longleftrightarrow> (\<exists>k a. kernel_space_allocator s = Some k \<and> pmm_allocator s = Some a \<and> ff_inv k \<and> ff_inv a
     \<and> allocator_start_addr k = kernel_space_start s \<and> ff_pages k = 2048 \<and> kernel_space_length s = 0x800000
     \<and> allocator_start_addr a = non_kernel_space_start s \<and> non_kernel_space_start s = kernel_space_start s + 0x800000
     \<and> ff_pages a = unat (non_kernel_space_length s) div 4096
     \<and> unat (kernel_space_start s) + 0x800000 + unat (non_kernel_space_length s) < 2 ^ 64)"

lemma pmm_invE:
  assumes "pmm_inv s"
  obtains k a where "kernel_space_allocator s = Some k" "pmm_allocator s = Some a" "ff_inv k" "ff_inv a"
    "allocator_start_addr k = kernel_space_start s" "ff_pages k = 2048" "kernel_space_length s = 0x800000"
    "allocator_start_addr a = non_kernel_space_start s" "non_kernel_space_start s = kernel_space_start s + 0x800000"
    "ff_pages a = unat (non_kernel_space_length s) div 4096"
    "unat (kernel_space_start s) + 0x800000 + unat (non_kernel_space_length s) < 2 ^ 64"
  using assms by (auto simp: pmm_inv_def)

lemma pmm_inv_kernel:
  assumes "pmm_inv s" "kernel_space_allocator s = Some k" "ff_inv t"
    "allocator_start_addr t = allocator_start_addr k" "ff_pages t = ff_pages k"
  shows "pmm_inv (s\<lparr>kernel_space_allocator := Some t\<rparr>)"
  using assms by (auto simp: pmm_inv_def)

lemma pmm_inv_user:
  assumes "pmm_inv s" "pmm_allocator s = Some a" "ff_inv t"
    "allocator_start_addr t = allocator_start_addr a" "ff_pages t = ff_pages a"
  shows "pmm_inv (s\<lparr>pmm_allocator := Some t\<rparr>)"
  using assms by (auto simp: pmm_inv_def)

text \<open>The dispatch by address finds the allocator a page comes from.\<close>

lemma non_kernel_start:
  assumes "pmm_inv s"
  shows "unat (non_kernel_space_start s) = unat (kernel_space_start s) + 0x800000"
proof -
  obtain k a where inv: "non_kernel_space_start s = kernel_space_start s + 0x800000"
    "unat (kernel_space_start s) + 0x800000 + unat (non_kernel_space_length s) < 2 ^ 64"
    using assms by (rule pmm_invE) blast
  then show ?thesis using unat_add_fits [of "kernel_space_start s" "0x800000"] by simp
qed

lemma space_bounds:
  assumes "pmm_inv s"
  shows "in_kernel_space x s \<longleftrightarrow> unat (kernel_space_start s) \<le> unat x \<and> unat x < unat (kernel_space_start s) + 0x800000"
    and "in_non_kernel_space x s \<longleftrightarrow> unat (kernel_space_start s) + 0x800000 \<le> unat x
      \<and> unat x < unat (kernel_space_start s) + 0x800000 + unat (non_kernel_space_length s)"
proof -
  obtain k a where inv: "kernel_space_length s = 0x800000" "non_kernel_space_start s = kernel_space_start s + 0x800000"
    "unat (kernel_space_start s) + 0x800000 + unat (non_kernel_space_length s) < 2 ^ 64"
    using assms by (rule pmm_invE) blast
  have "unat (kernel_space_start s + of_nat 0x800000) = unat (kernel_space_start s) + 0x800000"
    using inv(3) by (intro unat_add_fits) simp
  then have k: "unat (kernel_space_start s + 0x800000) = unat (kernel_space_start s) + 0x800000" by simp
  show "in_kernel_space x s \<longleftrightarrow> unat (kernel_space_start s) \<le> unat x \<and> unat x < unat (kernel_space_start s) + 0x800000"
    using k inv(1) by (simp add: in_kernel_space_def word_le_nat_alt word_less_nat_alt)
  have "unat (non_kernel_space_start s + of_nat (unat (non_kernel_space_length s)))
      = unat (non_kernel_space_start s) + unat (non_kernel_space_length s)"
    using inv(3) non_kernel_start [OF assms] by (intro unat_add_fits) simp
  then show "in_non_kernel_space x s \<longleftrightarrow> unat (kernel_space_start s) + 0x800000 \<le> unat x
      \<and> unat x < unat (kernel_space_start s) + 0x800000 + unat (non_kernel_space_length s)"
    using non_kernel_start [OF assms] by (simp add: in_non_kernel_space_def word_le_nat_alt word_less_nat_alt)
qed

lemma page_addr_unat:
  assumes "unat base + 4096 * i < 2 ^ 64"
  shows "unat (page_addr base i) = unat base + 4096 * i"
proof -
  have "page_addr base i = base + of_nat (4096 * i)" by (simp add: page_addr_def)
  then show ?thesis using unat_add_fits [OF assms] by simp
qed

lemma kernel_page:
  assumes "pmm_inv s" "i < 2048"
  shows "in_kernel_space (page_addr (kernel_space_start s) i) s"
proof -
  obtain k a where "unat (kernel_space_start s) + 0x800000 + unat (non_kernel_space_length s) < 2 ^ 64"
    using assms(1) by (rule pmm_invE) blast
  with assms(2) have "unat (page_addr (kernel_space_start s) i) = unat (kernel_space_start s) + 4096 * i"
    by (intro page_addr_unat) simp
  with assms(2) show ?thesis by (simp add: space_bounds [OF assms(1)])
qed

lemma user_page:
  assumes "pmm_inv s" "i < unat (non_kernel_space_length s) div 4096"
  shows "\<not> in_kernel_space (page_addr (non_kernel_space_start s) i) s"
    and "in_non_kernel_space (page_addr (non_kernel_space_start s) i) s"
proof -
  obtain k a where le: "unat (kernel_space_start s) + 0x800000 + unat (non_kernel_space_length s) < 2 ^ 64"
    using assms(1) by (rule pmm_invE) blast
  have i: "4096 * i < unat (non_kernel_space_length s)" using assms(2) by linarith
  then have "unat (page_addr (non_kernel_space_start s) i) = unat (non_kernel_space_start s) + 4096 * i"
    using le non_kernel_start [OF assms(1)] by (intro page_addr_unat) simp
  with i non_kernel_start [OF assms(1)]
  show "\<not> in_kernel_space (page_addr (non_kernel_space_start s) i) s"
    and "in_non_kernel_space (page_addr (non_kernel_space_start s) i) s"
    by (simp_all add: space_bounds [OF assms(1)])
qed

section \<open>Two providers of the contract\<close>

definition kernel_part :: "'a pmm_scheme \<Rightarrow> FIRSTFIT" where
  "kernel_part s = the (kernel_space_allocator s)"

definition user_part :: "'a pmm_scheme \<Rightarrow> FIRSTFIT" where
  "user_part s = the (pmm_allocator s)"

definition user_pages :: "'a pmm_scheme \<Rightarrow> nat" where
  "user_pages s = unat (non_kernel_space_length s) div 4096"

lemma parts:
  assumes "pmm_inv s"
  shows "kernel_space_allocator s = Some (kernel_part s)" "ff_inv (kernel_part s)"
    "allocator_start_addr (kernel_part s) = kernel_space_start s" "ff_pages (kernel_part s) = 2048"
    "pmm_allocator s = Some (user_part s)" "ff_inv (user_part s)"
    "allocator_start_addr (user_part s) = non_kernel_space_start s" "ff_pages (user_part s) = user_pages s"
  using assms by (auto simp: pmm_inv_def kernel_part_def user_part_def user_pages_def)

lemma put_parts:
  assumes "pmm_inv s"
  shows "s\<lparr>kernel_space_allocator := Some (kernel_part s)\<rparr> = s" "s\<lparr>pmm_allocator := Some (user_part s)\<rparr> = s"
proof -
  have "s\<lparr>kernel_space_allocator := kernel_space_allocator s\<rparr> = s" "s\<lparr>pmm_allocator := pmm_allocator s\<rparr> = s" by simp_all
  then show "s\<lparr>kernel_space_allocator := Some (kernel_part s)\<rparr> = s" "s\<lparr>pmm_allocator := Some (user_part s)\<rparr> = s"
    unfolding parts(1,5) [OF assms, symmetric] by simp_all
qed

lemma get_parts [simp]:
  "kernel_part (s\<lparr>kernel_space_allocator := Some ff\<rparr>) = ff" "user_part (s\<lparr>pmm_allocator := Some ff\<rparr>) = ff"
  "user_part (s\<lparr>kernel_space_allocator := p\<rparr>) = user_part s" "kernel_part (s\<lparr>pmm_allocator := p\<rparr>) = kernel_part s"
  by (simp_all add: kernel_part_def user_part_def)

interpretation kernel_space: allocator_part ff_inv pages allocator_start_addr ff_pages
  ff_alloc ff_alloc_at ff_free ff_get_used_count ff_get_free_count
  pmm_inv kernel_part "\<lambda>ff s. s\<lparr>kernel_space_allocator := Some ff\<rparr>"
  alloc_pages_kernel alloc_pages_kernel_at "free_pages im"
  for im :: "'b image_scheme"
proof unfold_locales
  fix t :: "'a pmm_scheme" and i n assume t: "pmm_inv t" and "i < ff_pages (kernel_part t)"
  then show "free_pages im t (page_addr (allocator_start_addr (kernel_part t)) i) n =
      seq (ff_free (kernel_part t) (page_addr (allocator_start_addr (kernel_part t)) i) n)
        (\<lambda>ff. ret (t\<lparr>kernel_space_allocator := Some ff\<rparr>))"
    using kernel_page [OF t, of i] parts [OF t] by (simp add: free_pages_def deref_def)
qed (auto simp: parts put_parts alloc_pages_kernel_def alloc_pages_kernel_at_def deref_def intro: pmm_inv_kernel parts)

interpretation user_space: allocator_part ff_inv pages allocator_start_addr ff_pages
  ff_alloc ff_alloc_at ff_free ff_get_used_count ff_get_free_count
  pmm_inv user_part "\<lambda>ff s. s\<lparr>pmm_allocator := Some ff\<rparr>"
  alloc_pages alloc_pages_at "free_pages im"
  for im :: "'b image_scheme"
proof unfold_locales
  fix t :: "'a pmm_scheme" and i n assume t: "pmm_inv t" and "i < ff_pages (user_part t)"
  then show "free_pages im t (page_addr (allocator_start_addr (user_part t)) i) n =
      seq (ff_free (user_part t) (page_addr (allocator_start_addr (user_part t)) i) n)
        (\<lambda>ff. ret (t\<lparr>pmm_allocator := Some ff\<rparr>))"
    using user_page [OF t, of i] parts [OF t] by (simp add: user_pages_def free_pages_def deref_def)
qed (auto simp: parts put_parts alloc_pages_def alloc_pages_at_def deref_def intro: pmm_inv_user parts)

section \<open>Clients of both spaces\<close>

text \<open>Clients ask for blocks of either space and give blocks they hold back, in any order; \<open>kbs\<close> and \<open>ubs\<close> are
  the blocks of the two spaces in their hands.\<close>

inductive pmm_client :: "'b image_scheme \<Rightarrow> 'a pmm_scheme \<Rightarrow> 'a pmm_scheme \<Rightarrow> (addr \<times> u64) list \<Rightarrow> (addr \<times> u64) list \<Rightarrow> bool"
  for im s0 where
  Start: "pmm_client im s0 s0 [] []"
| Kernel: "pmm_client im s0 s kbs ubs \<Longrightarrow> 0 < n \<Longrightarrow> alloc_pages_kernel s n = ret (a, t) \<Longrightarrow>
    pmm_client im s0 t (if a = 0 then kbs else (a, n) # kbs) ubs"
| User: "pmm_client im s0 s kbs ubs \<Longrightarrow> 0 < n \<Longrightarrow> alloc_pages s n = ret (a, t) \<Longrightarrow>
    pmm_client im s0 t kbs (if a = 0 then ubs else (a, n) # ubs)"
| Free_kernel: "pmm_client im s0 s (xs @ (a, n) # ys) ubs \<Longrightarrow> free_pages im s a n = ret t \<Longrightarrow>
    pmm_client im s0 t (xs @ ys) ubs"
| Free_user: "pmm_client im s0 s kbs (xs @ (a, n) # ys) \<Longrightarrow> free_pages im s a n = ret t \<Longrightarrow>
    pmm_client im s0 t kbs (xs @ ys)"

text \<open>What the clients see is a client's view of each of the two allocators.\<close>

definition pmm_view :: "'a pmm_scheme \<Rightarrow> 'a pmm_scheme \<Rightarrow> (addr \<times> u64) list \<Rightarrow> (addr \<times> u64) list \<Rightarrow> bool" where
  "pmm_view s0 s kbs ubs \<longleftrightarrow> pmm_inv s \<and> kernel_space_start s = kernel_space_start s0
     \<and> non_kernel_space_start s = non_kernel_space_start s0 \<and> user_pages s = user_pages s0
     \<and> client ff_alloc ff_free (kernel_part s0) (kernel_part s) kbs
     \<and> client ff_alloc ff_free (user_part s0) (user_part s) ubs"

lemma pmm_viewD:
  assumes "pmm_view s0 s kbs ubs"
  shows "pmm_inv s" "kernel_space_start s = kernel_space_start s0" "non_kernel_space_start s = non_kernel_space_start s0"
    "user_pages s = user_pages s0" "client ff_alloc ff_free (kernel_part s0) (kernel_part s) kbs"
    "client ff_alloc ff_free (user_part s0) (user_part s) ubs"
  using assms by (auto simp: pmm_view_def)

lemma pmm_view_kernel:
  assumes "pmm_view s0 s kbs ubs" "client ff_alloc ff_free (kernel_part s0) ff kbs'" "ff_inv ff"
    "allocator_start_addr ff = kernel_space_start s" "ff_pages ff = 2048"
  shows "pmm_view s0 (s\<lparr>kernel_space_allocator := Some ff\<rparr>) kbs' ubs"
proof -
  note s = pmm_viewD [OF assms(1)]
  have "pmm_inv (s\<lparr>kernel_space_allocator := Some ff\<rparr>)"
    using assms(4,5) parts [OF s(1)] by (intro pmm_inv_kernel [OF s(1) parts(1) [OF s(1)] assms(3)]) simp_all
  with s assms(2) show ?thesis by (simp add: pmm_view_def user_pages_def)
qed

lemma pmm_view_user:
  assumes "pmm_view s0 s kbs ubs" "client ff_alloc ff_free (user_part s0) ff ubs'" "ff_inv ff"
    "allocator_start_addr ff = non_kernel_space_start s" "ff_pages ff = user_pages s"
  shows "pmm_view s0 (s\<lparr>pmm_allocator := Some ff\<rparr>) kbs ubs'"
proof -
  note s = pmm_viewD [OF assms(1)]
  have "pmm_inv (s\<lparr>pmm_allocator := Some ff\<rparr>)"
    using assms(4,5) parts [OF s(1)] by (intro pmm_inv_user [OF s(1) parts(5) [OF s(1)] assms(3)]) simp_all
  with s assms(2) show ?thesis by (simp add: pmm_view_def user_pages_def)
qed

lemma client_alloc:
  assumes "client ff_alloc ff_free f0 f bs" "ff_inv f0" "0 < n" "ff_alloc f n = ret (a, g)"
  shows "client ff_alloc ff_free f0 g (if a = 0 then bs else (a, n) # bs) \<and> ff_inv g
    \<and> allocator_start_addr g = allocator_start_addr f \<and> ff_pages g = ff_pages f"
proof -
  have c: "client ff_alloc ff_free f0 g (if a = 0 then bs else (a, n) # bs)"
    using client.Grant [OF assms(1,3,4)] client.Refuse [OF assms(1,3)] assms(4) by auto
  show ?thesis using ff.client_blocks [OF c assms(2)] ff.client_blocks [OF assms(1,2)] c by auto
qed

lemma client_free:
  assumes "client ff_alloc ff_free f0 f (xs @ (a, n) # ys)" "ff_inv f0" "ff_free f a n = ret g"
  shows "client ff_alloc ff_free f0 g (xs @ ys) \<and> ff_inv g
    \<and> allocator_start_addr g = allocator_start_addr f \<and> ff_pages g = ff_pages f"
proof -
  have c: "client ff_alloc ff_free f0 g (xs @ ys)" using client.Release [OF assms(1,3)] .
  show ?thesis using ff.client_blocks [OF c assms(2)] ff.client_blocks [OF assms(1,2)] c by auto
qed

lemma pmm_client_view:
  assumes "pmm_client im s0 s kbs ubs" "pmm_inv s0"
  shows "pmm_view s0 s kbs ubs"
  using assms(1)
proof (induction rule: pmm_client.induct)
  case Start
  then show ?case using assms(2) by (auto simp: pmm_view_def intro: client.Start)
next
  case (Kernel s kbs ubs n a t)
  note s = parts [OF pmm_viewD(1) [OF Kernel.IH]] and s0 = parts [OF assms(2)]
  from Kernel.hyps(3) s(1) obtain g where g: "ff_alloc (kernel_part s) n = ret (a, g)" "t = s\<lparr>kernel_space_allocator := Some g\<rparr>"
    by (auto simp: alloc_pages_kernel_def deref_def seq_eq_ret)
  from client_alloc [OF pmm_viewD(5) [OF Kernel.IH] s0(2) Kernel.hyps(2) g(1)]
  show ?case unfolding g(2) using s by (intro pmm_view_kernel [OF Kernel.IH]) simp_all
next
  case (User s kbs ubs n a t)
  note s = parts [OF pmm_viewD(1) [OF User.IH]] and s0 = parts [OF assms(2)]
  from User.hyps(3) s(5) obtain g where g: "ff_alloc (user_part s) n = ret (a, g)" "t = s\<lparr>pmm_allocator := Some g\<rparr>"
    by (auto simp: alloc_pages_def deref_def seq_eq_ret)
  from client_alloc [OF pmm_viewD(6) [OF User.IH] s0(6) User.hyps(2) g(1)]
  show ?case unfolding g(2) using s by (intro pmm_view_user [OF User.IH]) simp_all
next
  case (Free_kernel s xs a n ys ubs t)
  note s = parts [OF pmm_viewD(1) [OF Free_kernel.IH]] and s0 = parts [OF assms(2)] and view = pmm_viewD [OF Free_kernel.IH]
  from ff.client_inside [OF view(5) s0(2), of a n] obtain i where
    i: "a = page_addr (kernel_space_start s0) i" "0 < unat n" "i + unat n \<le> 2048"
    using s0 by auto
  then have "free_pages im s a n = seq (ff_free (kernel_part s) a n) (\<lambda>k. ret (s\<lparr>kernel_space_allocator := Some k\<rparr>))"
    using kernel_space.part_free_eq [OF view(1), of i im n] view(2) s by simp
  with Free_kernel.hyps(2) obtain g where g: "ff_free (kernel_part s) a n = ret g" "t = s\<lparr>kernel_space_allocator := Some g\<rparr>"
    by (auto simp: seq_eq_ret)
  from client_free [OF view(5) s0(2) g(1)]
  show ?case unfolding g(2) using s by (intro pmm_view_kernel [OF Free_kernel.IH]) simp_all
next
  case (Free_user s kbs xs a n ys t)
  note s = parts [OF pmm_viewD(1) [OF Free_user.IH]] and s0 = parts [OF assms(2)] and view = pmm_viewD [OF Free_user.IH]
  from ff.client_inside [OF view(6) s0(6), of a n] obtain i where
    i: "a = page_addr (non_kernel_space_start s0) i" "0 < unat n" "i + unat n \<le> user_pages s0"
    using s0 by auto
  then have "free_pages im s a n = seq (ff_free (user_part s) a n) (\<lambda>k. ret (s\<lparr>pmm_allocator := Some k\<rparr>))"
    using user_space.part_free_eq [OF view(1), of i im n] view(3,4) s by simp
  with Free_user.hyps(2) obtain g where g: "ff_free (user_part s) a n = ret g" "t = s\<lparr>pmm_allocator := Some g\<rparr>"
    by (auto simp: seq_eq_ret)
  from client_free [OF view(6) s0(6) g(1)]
  show ?case unfolding g(2) using s by (intro pmm_view_user [OF Free_user.IH]) simp_all
qed

text \<open>Where the blocks in the clients' hands lie.\<close>

lemma kernel_block:
  assumes "pmm_view s0 s kbs ubs" "pmm_inv s0" "(a, n) \<in> set kbs"
  shows "unat (kernel_space_start s0) \<le> unat a" "unat a + 4096 * unat n \<le> unat (kernel_space_start s0) + 0x800000"
proof -
  note view = pmm_viewD [OF assms(1)] and s0 = parts [OF assms(2)]
  obtain i where i: "a = page_addr (kernel_space_start s0) i" "i + unat n \<le> 2048" "0 < unat n"
    using ff.client_inside [OF view(5) s0(2) assms(3)] s0 by auto
  obtain k u where le: "unat (kernel_space_start s0) + 0x800000 + unat (non_kernel_space_length s0) < 2 ^ 64"
    using assms(2) by (rule pmm_invE) blast
  have "unat a = unat (kernel_space_start s0) + 4096 * i"
    unfolding i(1) by (rule page_addr_unat) (use i(2) le in linarith)
  with i(2) show "unat (kernel_space_start s0) \<le> unat a" "unat a + 4096 * unat n \<le> unat (kernel_space_start s0) + 0x800000"
    by simp_all
qed

lemma user_block:
  assumes "pmm_view s0 s kbs ubs" "pmm_inv s0" "(b, m) \<in> set ubs"
  shows "unat (kernel_space_start s0) + 0x800000 \<le> unat b"
    "unat b + 4096 * unat m \<le> unat (kernel_space_start s0) + 0x800000 + unat (non_kernel_space_length s0)"
proof -
  note view = pmm_viewD [OF assms(1)] and s0 = parts [OF assms(2)]
  obtain j where j: "b = page_addr (non_kernel_space_start s0) j" "j + unat m \<le> user_pages s0" "0 < unat m"
    using ff.client_inside [OF view(6) s0(6) assms(3)] s0 by auto
  obtain k u where le: "unat (kernel_space_start s0) + 0x800000 + unat (non_kernel_space_length s0) < 2 ^ 64"
    using assms(2) by (rule pmm_invE) blast
  have len: "4096 * user_pages s0 \<le> unat (non_kernel_space_length s0)" by (simp add: user_pages_def)
  have "unat b = unat (kernel_space_start s0) + 0x800000 + 4096 * j"
    unfolding j(1) non_kernel_start [OF assms(2), symmetric]
    by (rule page_addr_unat) (use j(2) le len non_kernel_start [OF assms(2)] in linarith)
  with j(2) len show "unat (kernel_space_start s0) + 0x800000 \<le> unat b"
    "unat b + 4096 * unat m \<le> unat (kernel_space_start s0) + 0x800000 + unat (non_kernel_space_length s0)" by linarith+
qed

lemma kernel_user_disjoint:
  assumes "pmm_view s0 s kbs ubs" "pmm_inv s0" "(a, n) \<in> set kbs" "(b, m) \<in> set ubs"
  shows "disjoint_regions a (4096 * unat n) b (4096 * unat m)"
proof -
  obtain k u where le: "unat (kernel_space_start s0) + 0x800000 + unat (non_kernel_space_length s0) < 2 ^ 64"
    using assms(2) by (rule pmm_invE) blast
  show ?thesis
    using kernel_block [OF assms(1-3)] user_block [OF assms(1,2,4)] le by (intro disjoint_regionsI_below) (simp_all add: fits_def)
qed

text \<open>C4: However clients of the two spaces interleave their requests and releases, the invariant of the memory manager
  holds, every release reaches the allocator the block came from, no two blocks in the clients' hands share a byte, within a
  space or across, the number of used pages has grown by exactly their pages, and the next request of either kind
  neither faults nor hangs.\<close>

theorem pmm_clients_safe:
  assumes "pmm_inv s0" "pmm_client im s0 s kbs ubs"
  shows "pmm_inv s
    \<and> sorted_wrt (\<lambda>(a, n) (b, k). disjoint_regions a (4096 * unat n) b (4096 * unat k)) (kbs @ ubs)
    \<and> (\<exists>used0 used. get_used_pages_count s0 = ret used0 \<and> get_used_pages_count s = ret used
        \<and> unat used = unat used0 + sum_list (map (\<lambda>b. unat (snd b)) (kbs @ ubs)))
    \<and> (\<forall>n > 0. (\<exists>r. alloc_pages_kernel s n = ret r) \<and> (\<exists>r. alloc_pages s n = ret r))"
proof -
  have v: "pmm_view s0 s kbs ubs" using pmm_client_view [OF assms(2,1)] .
  note view = pmm_viewD [OF v] and s0 = parts [OF assms(1)] and s = parts [OF pmm_viewD(1) [OF v]]
  have disj: "sorted_wrt (\<lambda>(a, n) (b, k). disjoint_regions a (4096 * unat n) b (4096 * unat k)) (kbs @ ubs)"
    unfolding sorted_wrt_append
    using ff.client_disjoint [OF view(5) s0(2)] ff.client_disjoint [OF view(6) s0(6)]
      kernel_user_disjoint [OF v assms(1)] by auto
  note k = ff.client_counts [OF view(5) s0(2)] and u = ff.client_counts [OF view(6) s0(6)]
  have npages: "ff_pages (user_part p) \<le> 32768" if "pmm_inv p" for p :: "'a pmm_scheme"
    using parts(6) [OF that] by (simp add: ff_inv_def)
  have add: "unat (ff_get_used_count (kernel_part p) + ff_get_used_count (user_part p))
      = unat (ff_get_used_count (kernel_part p)) + unat (ff_get_used_count (user_part p))" if "pmm_inv p" for p :: "'a pmm_scheme"
    using ff.counts_add_up [OF parts(2) [OF that]] ff.counts_add_up [OF parts(6) [OF that]] parts(4) [OF that] npages [OF that]
    by (subst unat_add_lem [THEN iffD1]) simp_all
  have count: "get_used_pages_count p = ret (ff_get_used_count (kernel_part p) + ff_get_used_count (user_part p))"
    if "pmm_inv p" for p :: "'a pmm_scheme"
    using parts [OF that] by (simp add: get_used_pages_count_def deref_def)
  have used: "\<exists>used0 used. get_used_pages_count s0 = ret used0 \<and> get_used_pages_count s = ret used
        \<and> unat used = unat used0 + sum_list (map (\<lambda>b. unat (snd b)) (kbs @ ubs))"
    using k u by (simp add: count assms(1) view(1) add)
  have go: "(\<exists>r. alloc_pages_kernel s n = ret r) \<and> (\<exists>r. alloc_pages s n = ret r)" if "0 < n" for n
    using kernel_space.part.alloc_law [OF view(1) that] user_space.part.alloc_law [OF view(1) that] by blast
  show ?thesis using view(1) disj used go by blast
qed

end
