(* ===== verification/Pmm_Init.thy ===== *)
theory Pmm_Init
  imports Pmm_Props
begin

text \<open>
  The start of the memory manager: from the boot information to two allocators, with the kernel image and the moved boot
  information marked as used; and the calls that go wrong.
\<close>

section \<open>What the steps leave alone\<close>

lemma more_pmm:
  fixes s t :: "'a pmm_scheme"
  assumes "boot.more t = boot.more s"
  shows "pmm_start t = pmm_start s" "pmm_length t = pmm_length s" "total_pages t = total_pages s"
    "kernel_space_start t = kernel_space_start s" "kernel_space_length t = kernel_space_length s"
    "non_kernel_space_start t = non_kernel_space_start s" "non_kernel_space_length t = non_kernel_space_length s"
    "kernel_space_allocator t = kernel_space_allocator s" "pmm_allocator t = pmm_allocator s" "pmm.more t = pmm.more s"
  using assms by (cases s; cases t; simp)+

definition steady :: "'a pmm_scheme \<Rightarrow> 'a pmm_scheme \<Rightarrow> bool" where
  "steady s t \<longleftrightarrow> vga_ok t \<and> uart_drains (device t) \<and> boot_info_addr t = boot_info_addr s
     \<and> boot_info_size t = boot_info_size s \<and> pmm_length t = pmm_length s
     \<and> kernel_space_start t = kernel_space_start s \<and> kernel_space_length t = kernel_space_length s
     \<and> non_kernel_space_start t = non_kernel_space_start s \<and> non_kernel_space_length t = non_kernel_space_length s
     \<and> tui_pos t = tui_pos s \<and> tui_color t = tui_color s \<and> pmm.more t = pmm.more s
     \<and> (\<forall>a. outside_screen a \<longrightarrow> ram t a = ram s a)"

lemma steady_refl: "vga_ok s \<Longrightarrow> uart_drains (device s) \<Longrightarrow> steady s s"
  by (simp add: steady_def)

lemma steady_trans: "steady s t \<Longrightarrow> steady t u \<Longrightarrow> steady s u"
  unfolding steady_def by metis

lemma logs_steady:
  fixes s t :: "'a pmm_scheme"
  assumes "logs s t"
  shows "steady s t \<and> kernel_space_allocator t = kernel_space_allocator s \<and> pmm_allocator t = pmm_allocator s"
proof -
  have "vga_ok t" "uart_drains (device t)" "\<forall>a. outside_screen a \<longrightarrow> ram t a = ram s a" using assms by (auto simp: logs_def)
  then show ?thesis
    using logs_boot [OF assms] more_pmm [OF logs_boot(7) [OF assms]] by (simp add: steady_def)
qed

lemma steady_put:
  "steady s t \<Longrightarrow> steady s (t\<lparr>kernel_space_allocator := p\<rparr>)" "steady s t \<Longrightarrow> steady s (t\<lparr>pmm_allocator := p\<rparr>)"
  by (simp_all add: steady_def vga_ok_def)

section \<open>The two allocators\<close>

text \<open>A new allocator for a range that the bitmap covers.\<close>

definition new_allocator :: "FIRSTFIT \<Rightarrow> u64 \<Rightarrow> u64 \<Rightarrow> bool" where
  "new_allocator ff addr len \<longleftrightarrow> ff_inv ff \<and> pages ff = {} \<and> allocator_start_addr ff = addr \<and> ff_pages ff = unat len"

lemma ff_new_runs:
  assumes "vga_ok s" "uart_drains (device s)" "CHR 0x00 \<notin> set name"
    and "unat len \<le> 32768" "unat addr + 4096 * unat len < 2 ^ 64" "addr \<noteq> 0"
  shows "runs (ff_new s this name addr len) (\<lambda>(ff, t). new_allocator ff addr len \<and> logs s t)"
proof -
  define ff where "ff = (ALLOCATOR_init this name addr len)\<lparr>bitmap := replicate (unat BITS_ARR_SIZE) 0\<rparr>"
  have arr: "unat BITS_ARR_SIZE = 512" by (simp add: BITS_ARR_SIZE_def BITS_PER_WORD_def)
  then have pages: "pages ff = {}" by (intro pages_zero) (simp add: ff_def)
  then have new: "new_allocator ff addr len"
    using assms(4-6) arr by (simp add: new_allocator_def ff_inv_def ff_def ALLOCATOR_init_def ff_pages_def)
  have text_ok: "renderable ''%s: 0x%p(0x%X pages) init.\<newline>'' [VaStr (tag ff), VaWord (allocator_start_addr ff), VaWord (allocator_length ff)]"
    using assms(3) by (simp add: ff_def ALLOCATOR_init_def)
  show ?thesis
    unfolding ff_new_def ff_def [symmetric] Let_def
    by (rule runs_log [OF logs_refl [OF assms(1,2)] text_ok]) (simp add: new)
qed

lemma make_allocators_runs:
  fixes s :: "'a pmm_scheme"
  assumes "vga_ok s" "uart_drains (device s)" "kernel_space_allocator s = None" "pmm_allocator s = None"
    and "kernel_space_start s \<noteq> 0" "kernel_space_length s = 0x800000"
    and "non_kernel_space_start s = kernel_space_start s + 0x800000" "unat (non_kernel_space_length s) div 4096 \<le> 32768"
    and "unat (kernel_space_start s) + 0x800000 + unat (non_kernel_space_length s) < 2 ^ 64"
  shows "runs (make_allocators s) (\<lambda>t. steady s t \<and> pmm_inv t \<and> pages (kernel_part t) = {} \<and> pages (user_part t) = {})"
proof -
  let ?n = "non_kernel_space_length s div 4096"
  have n: "unat ?n = unat (non_kernel_space_length s) div 4096" by (simp add: unat_div_distrib)
  have user_start: "unat (kernel_space_start s + of_nat 0x800000) = unat (kernel_space_start s) + 0x800000"
    using assms(9) by (intro unat_add_fits) simp
  have user: "unat (non_kernel_space_start s) + 4096 * unat ?n < 2 ^ 64" "non_kernel_space_start s \<noteq> 0"
    using user_start assms(9) by (auto simp: n assms(7) word_unat_eq_iff)
  have kernel: "runs (construct_once (kernel_space_allocator s) ''First Fit Allocator(kernel space)'' (kernel_space_start s)
      (kernel_space_length s div PAGE_SIZE) s) (\<lambda>(ff, t). new_allocator ff (kernel_space_start s) 0x800 \<and> logs s t)"
    using assms(9) by (simp add: construct_once_def assms(3,6)) (rule ff_new_runs [OF assms(1,2) _ _ _ assms(5)], simp_all)
  show ?thesis
    unfolding make_allocators_def Let_def
  proof (rule runs_seq [OF kernel], clarify, rule runs_seq)
    fix k and t :: "'a pmm_scheme" assume k: "new_allocator k (kernel_space_start s) 0x800" and t: "logs s t"
    let ?t = "t\<lparr>kernel_space_allocator := Some k\<rparr>"
    have same: "steady s ?t" "pmm_allocator ?t = None"
      using logs_steady [OF t] assms(4) by (simp_all add: steady_put)
    then have eqs: "non_kernel_space_start ?t = non_kernel_space_start s" "non_kernel_space_length ?t = non_kernel_space_length s"
      "vga_ok ?t" "uart_drains (device ?t)" unfolding steady_def by blast+
    show "runs (construct_once (pmm_allocator ?t) ''First Fit Allocator'' (non_kernel_space_start ?t)
        (non_kernel_space_length ?t div PAGE_SIZE) ?t) (\<lambda>(ff, u). new_allocator ff (non_kernel_space_start s) ?n \<and> logs ?t u)"
      unfolding eqs same(2) using user assms(8)
      by (simp only: construct_once_def option.case PAGE_SIZE_val) (rule ff_new_runs [OF eqs(3,4)], simp_all add: n)
    fix r :: "FIRSTFIT \<times> 'a pmm_scheme"
    assume "(\<lambda>(ff, u). new_allocator ff (non_kernel_space_start s) ?n \<and> logs ?t u) r"
    then obtain a u where r: "r = (a, u)" and a: "new_allocator a (non_kernel_space_start s) ?n" and u: "logs ?t u" by blast
    have "steady s (u\<lparr>pmm_allocator := Some a\<rparr>)"
      using steady_trans [OF same(1)] logs_steady [OF u] by (simp add: steady_put)
    moreover have "kernel_space_allocator u = Some k" using logs_steady [OF u] by simp
    moreover have "pmm_inv (u\<lparr>pmm_allocator := Some a\<rparr>)"
      using calculation k a assms(6-9) by (simp add: pmm_inv_def steady_def new_allocator_def n)
    ultimately show "runs ((\<lambda>(ff, u). ret (u\<lparr>pmm_allocator := Some ff\<rparr>)) r)
        (\<lambda>t. steady s t \<and> pmm_inv t \<and> pages (kernel_part t) = {} \<and> pages (user_part t) = {})"
      using k a by (simp add: r new_allocator_def) (simp add: kernel_part_def)
  qed
qed

section \<open>The kernel image and the boot information\<close>

lemma reserve_kernel:
  assumes "pmm_inv s" "pages (kernel_part s) = {}" "unat n \<le> 2048"
  shows "\<exists>k. alloc_pages_kernel_at s (kernel_space_start s) n = ret (True, s\<lparr>kernel_space_allocator := Some k\<rparr>)
    \<and> pmm_inv (s\<lparr>kernel_space_allocator := Some k\<rparr>) \<and> pages k = page_run 0 (unat n)"
proof -
  note s = parts [OF assms(1)]
  have start: "page_addr (kernel_space_start s) 0 = kernel_space_start s" by (simp add: page_addr_def)
  have free: "free_run (pages (kernel_part s)) (ff_pages (kernel_part s)) 0 (unat n)"
    using assms(2,3) s(4) by (simp add: free_run_def)
  from ff.alloc_at_law [OF s(2), of 0 n] free s(3,4) assms(2,3) obtain k where
    k: "ff_alloc_at (kernel_part s) (kernel_space_start s) n = ret (True, k)" "ff_inv k"
      "allocator_start_addr k = kernel_space_start s" "ff_pages k = 2048" "pages k = page_run 0 (unat n)"
    by (auto simp: start)
  with pmm_inv_kernel [OF assms(1) s(1) k(2)] s show ?thesis
    by (intro exI [of _ k]) (simp add: alloc_pages_kernel_at_def deref_def)
qed

text \<open>The next block of the kernel space lies right behind the pages marked so far.\<close>

lemma alloc_behind:
  assumes "pmm_inv s" "pages (kernel_part s) = page_run 0 kp" "0 < n" "kp + unat n \<le> 2048"
  shows "\<exists>k. alloc_pages_kernel s n = ret (page_addr (kernel_space_start s) kp, s\<lparr>kernel_space_allocator := Some k\<rparr>)
    \<and> pmm_inv (s\<lparr>kernel_space_allocator := Some k\<rparr>) \<and> pages k = page_run 0 (kp + unat n)"
proof -
  note s = parts [OF assms(1)]
  have pos: "0 < unat n" using assms(3) by (simp add: unat_gt_0 word_greater_zero_iff)
  have free: "free_run (page_run 0 kp) 2048 i (unat n) \<longleftrightarrow> kp \<le> i \<and> i + unat n \<le> 2048" for i
    using pos by (auto simp: free_run_def page_run_def)
  from ff_alloc_step [OF s(2) assms(3)] assms(2,4) s(3,4) obtain i k where
    k: "ff_alloc (kernel_part s) n = ret (page_addr (kernel_space_start s) i, k)" "ff_inv k"
      "allocator_start_addr k = kernel_space_start s" "ff_pages k = 2048" "pages k = page_run 0 kp \<union> page_run i (unat n)"
    and i: "kp \<le> i" "\<forall>j < i. \<not> (kp \<le> j \<and> j + unat n \<le> 2048)"
    by (auto simp: free split: if_splits)
  have "i = kp" using i assms(4) by (metis le_neq_implies_less order_refl)
  moreover have "page_run 0 kp \<union> page_run kp (unat n) = page_run 0 (kp + unat n)" by (auto simp: page_run_def)
  ultimately show ?thesis
    using k pmm_inv_kernel [OF assms(1) s(1) k(2)] s
    by (intro exI [of _ k]) (simp add: alloc_pages_kernel_def deref_def)
qed

lemma read_size_bytes:
  assumes "bytes_at m a n = bytes_at m' a' n" "4 \<le> n"
  shows "read_size m a = read_size m' a'"
proof -
  have "m (a + of_nat i) = m' (a' + of_nat i)" if "i < 4" for i
    using arg_cong [OF assms(1), of "\<lambda>xs. xs ! i"] that assms(2) by simp
  from this [of 0] this [of 1] this [of 2] this [of 3] show ?thesis by (simp add: read_size_def upt_conv_Cons)
qed

lemma boot_init_runs:
  fixes s :: "'a pmm_scheme"
  assumes "vga_ok s" "uart_drains (device s)" "read_size (ram s) (boot_info_addr s) \<noteq> 0x80000000"
  shows "runs (BOOT_INFO_init s) (\<lambda>(ok, t). vga_ok t \<and> uart_drains (device t) \<and> boot_info_addr t = boot_info_addr s
    \<and> tui_pos t = tui_pos s \<and> tui_color t = tui_color s
    \<and> boot.more t = boot.more s \<and> (\<forall>a. outside_screen a \<longrightarrow> ram t a = ram s a))"
  unfolding BOOT_INFO_init_def
  by (rule runs_seq [OF init_runs [OF assms]]) (use assms(2) in \<open>auto simp: init_result_def boot_kept_def vga_ok_def\<close>)

text \<open>The bytes of the boot information that are moved.\<close>

definition moved :: "'a boot_scheme \<Rightarrow> nat" where
  "moved s = 4096 * unat (pages_of (boot_info_size s))"

lemma move_boot_info_runs:
  fixes s :: "'a pmm_scheme"
  assumes s: "pmm_inv s" "vga_ok s" "uart_drains (device s)" "pages (kernel_part s) = page_run 0 kp"
    and size: "0 < pages_of (boot_info_size s)" "kp + unat (pages_of (boot_info_size s)) \<le> 2048"
    and addr: "0x100000 \<le> kernel_space_start s" "unat (kernel_space_start s) + 4096 * kp \<le> unat (boot_info_addr s)"
      "unat (boot_info_addr s) + moved s \<le> 2 ^ 64"
    and good: "read_size (ram s) (boot_info_addr s) \<noteq> 0x80000000"
  shows "runs (move_boot_info s) (\<lambda>t. pmm_inv t \<and> vga_ok t \<and> uart_drains (device t)
    \<and> pages (kernel_part t) = page_run 0 (kp + unat (pages_of (boot_info_size s))) \<and> user_part t = user_part s
    \<and> tui_pos t = tui_pos s \<and> tui_color t = tui_color s \<and> pmm.more t = pmm.more s
    \<and> pmm_length t = pmm_length s \<and> boot_info_addr t = page_addr (kernel_space_start s) kp
    \<and> bytes_at (ram t) (boot_info_addr t) (moved s) = bytes_at (ram s) (boot_info_addr s) (moved s))"
    (is "runs _ ?Q")
proof -
  let ?n = "pages_of (boot_info_size s)" and ?new = "page_addr (kernel_space_start s) kp"
  obtain k where k: "alloc_pages_kernel s ?n = ret (?new, s\<lparr>kernel_space_allocator := Some k\<rparr>)"
    "pmm_inv (s\<lparr>kernel_space_allocator := Some k\<rparr>)" "pages k = page_run 0 (kp + unat ?n)"
    using alloc_behind [OF s(1,4) size] by blast
  have pos: "0 < unat ?n" using size(1) by (simp add: unat_gt_0 word_greater_zero_iff)
  have bytes: "unat (?n * PAGE_SIZE) = moved s"
    using size(2) by (simp add: moved_def unat_word_ariths)
  obtain k' u' where top: "unat (kernel_space_start s) + 0x800000 + unat (non_kernel_space_length s) < 2 ^ 64"
    using s(1) by (rule pmm_invE) blast
  have new: "unat ?new = unat (kernel_space_start s) + 4096 * kp"
    by (rule page_addr_unat) (use top size(2) in linarith)
  have fits: "fits ?new (moved s)" "fits (boot_info_addr s) (moved s)"
    using new top size(2) addr(3) by (simp_all add: fits_def moved_def)
  have off: "off_screen ?new (moved s)"
    using new addr(1) fits(1) by (intro off_screen_high) (simp_all add: word_le_nat_alt fits_def)
  define m where "m = store_bytes (ram s) ?new (bytes_at (ram s) (boot_info_addr s) (moved s))"
  have copy: "memcpy_loop (ram s) ?new (boot_info_addr s) (moved s) = m"
    unfolding m_def using new addr(2) by (intro memcpy_loop_store below_reads_ahead fits) (simp add: word_le_nat_alt)
  have len: "length (bytes_at (ram s) (boot_info_addr s) (moved s)) \<le> 2 ^ 64" using fits_length [OF fits(1)] by simp
  have same: "bytes_at m ?new (moved s) = bytes_at (ram s) (boot_info_addr s) (moved s)"
    using bytes_at_store_bytes [OF len, of "ram s" ?new] by (simp add: m_def)
  define u where "u = s\<lparr>kernel_space_allocator := Some k, ram := m, boot_info_addr := ?new\<rparr>"
  have u: "vga_ok u" "uart_drains (device u)" using s(2,3) by (simp_all add: u_def vga_ok_def)
  have "4 \<le> moved s" using pos by (simp add: moved_def)
  with good read_size_bytes [OF same] have "read_size (ram u) (boot_info_addr u) \<noteq> 0x80000000" by (simp add: u_def)
  note init = boot_init_runs [OF u this]
  have eq: "move_boot_info s = seq (BOOT_INFO_init u) (\<lambda>(_, s). ret s)"
    by (simp add: move_boot_info_def k(1) memcpy_def bytes copy u_def del: PAGE_SIZE_val)
  show ?thesis
    unfolding eq
  proof (rule runs_seq [OF init], clarify)
    fix ok and t :: "'a pmm_scheme"
    assume t: "vga_ok t" "uart_drains (device t)" "boot_info_addr t = boot_info_addr u" "boot.more t = boot.more u"
      "tui_pos t = tui_pos u" "tui_color t = tui_color u"
      and mem: "\<forall>a. outside_screen a \<longrightarrow> ram t a = ram u a"
    note more = more_pmm [OF t(4)]
    have inv: "pmm_inv t" using k(2) more by (simp add: pmm_inv_def u_def)
    have "bytes_at (ram t) (?new + of_nat 0) (moved s) = bytes_at (ram u) (?new + of_nat 0) (moved s)"
      using off mem by (rule off_screen_bytes) simp
    with same have "bytes_at (ram t) ?new (moved s) = bytes_at (ram s) (boot_info_addr s) (moved s)" by (simp add: u_def)
    with t(1-3,5,6) inv more k(3) show "runs (ret t) ?Q"
      by (simp add: u_def kernel_part_def user_part_def)
  qed
qed

section \<open>The start\<close>

lemma page_floor: "unat (x AND NOT (mask 12) :: u64) = unat x div 4096 * 4096"
proof -
  have "x AND NOT (mask 12) = push_bit 12 (drop_bit 12 x)"
    by (intro bit_word_eqI) (auto simp: bit_and_iff bit_not_iff bit_mask_iff bit_push_bit_iff bit_drop_bit_eq)
  also have "\<dots> = drop_bit 12 x * 4096" by (simp add: push_bit_eq_mult)
  finally have eq: "x AND NOT (mask 12) = drop_bit 12 x * 4096" .
  have "unat (drop_bit 12 x) = unat x div 4096" unfolding unat_drop_bit_eq by (simp add: drop_bit_eq_div)
  moreover have "unat x div 4096 * 4096 < 2 ^ 64" using unat_lt_64 [of x] div_times_less_eq_dividend [of "unat x" 4096] by linarith
  ultimately show ?thesis unfolding eq by (simp add: unat_word_ariths)
qed

lemma align_page: "unat x + 4095 < 2 ^ 64 \<Longrightarrow> unat (ALIGN x PAGE_SIZE) = (unat x + 4095) div 4096 * 4096"
proof -
  assume x: "unat x + 4095 < 2 ^ 64"
  then have "unat (x + of_nat 4095) = unat x + 4095" by (rule unat_add_fits)
  moreover have "x + 4096 - 1 = x + of_nat 4095" by simp
  ultimately have sum: "unat (x + 4096 - 1) = unat x + 4095" by metis
  have "ALIGN x PAGE_SIZE = (x + 4096 - 1) AND NOT (mask 12)" by (simp add: ALIGN_def mask_eq_exp_minus_1)
  then show "unat (ALIGN x PAGE_SIZE) = (unat x + 4095) div 4096 * 4096" by (simp only: page_floor sum)
qed

lemma kernel_pages_cover:
  assumes "unat (executable_start im) mod 4096 = 0" "unat (image_end im) + 4095 < 2 ^ 64"
    and "executable_start im \<le> image_end im"
  shows "unat (kernel_pages im) = (unat (image_end im) + 4095) div 4096 - unat (executable_start im) div 4096"
    and "unat (image_end im) \<le> unat (executable_start im) + 4096 * unat (kernel_pages im)"
proof -
  let ?a = "unat (executable_start im)" and ?b = "unat (image_end im)"
  have le: "?a \<le> ?b" using assms(3) by (simp add: word_le_nat_alt)
  obtain q where q: "?a = 4096 * q" using assms(1) by auto
  have A: "unat (ALIGN (executable_start im) PAGE_SIZE) = 4096 * q"
    using le assms(2) by (subst align_page) (simp_all add: q)
  note B = align_page [OF assms(2)]
  have q_le: "q \<le> (?b + 4095) div 4096" using le q by linarith
  have "ALIGN (executable_start im) PAGE_SIZE \<le> ALIGN (image_end im) PAGE_SIZE"
    using q_le by (simp add: word_le_nat_alt A B del: PAGE_SIZE_val)
  then have "unat (ALIGN (image_end im) PAGE_SIZE - ALIGN (executable_start im) PAGE_SIZE)
      = ((?b + 4095) div 4096 - q) * 4096"
    by (simp add: unat_sub A B diff_mult_distrib del: PAGE_SIZE_val)
  then have n: "unat (kernel_pages im) = (?b + 4095) div 4096 - q"
    by (simp add: kernel_pages_def unat_div_distrib)
  then show "unat (kernel_pages im) = (?b + 4095) div 4096 - ?a div 4096" by (simp add: q)
  show "?b \<le> ?a + 4096 * unat (kernel_pages im)" using n q_le q by linarith
qed

text \<open>
  A machine the memory manager can start on: a successful start of the boot information, which names a memory map of 8 MB to 136 MB
  (more would not fit the bitmap); a kernel image that starts on a page boundary, above the first megabyte, and
  leaves room in its 8 MB for the boot information; and boot information that the boot loader put behind the image.
\<close>

definition pmm_bootable :: "'b image_scheme \<Rightarrow> 'a pmm_scheme \<Rightarrow> addr \<Rightarrow> bool" where
  "pmm_bootable im s tg \<longleftrightarrow> boot_inited s
     \<and> first_mmap (ram s) (boot_info_addr s + 8) (Some tg) \<and> mmap_ok (ram s) tg
     \<and> 0x800000 \<le> unat (available (ram s) tg) \<and> unat (available (ram s) tg) \<le> 0x8800000
     \<and> unat (executable_start im) mod 4096 = 0 \<and> 0x100000 \<le> executable_start im
     \<and> executable_start im \<le> image_end im \<and> unat (executable_start im) + 0x8800000 < 2 ^ 64
     \<and> 0 < pages_of (boot_info_size s)
     \<and> unat (kernel_pages im) + unat (pages_of (boot_info_size s)) \<le> 2048
     \<and> unat (image_end im) + 4095 < 2 ^ 64
     \<and> unat (executable_start im) + 4096 * unat (kernel_pages im) \<le> unat (boot_info_addr s)
     \<and> unat (boot_info_addr s) + moved s \<le> 2 ^ 64
     \<and> read_size (ram s) (boot_info_addr s) \<noteq> 0x80000000"

lemma set_spaces_fields [simp]:
  "ram (set_spaces im r s) = ram s" "device (set_spaces im r s) = device s" "vga_ok (set_spaces im r s) = vga_ok s"
  "boot_info_addr (set_spaces im r s) = boot_info_addr s" "boot_info_size (set_spaces im r s) = boot_info_size s"
  "kernel_space_allocator (set_spaces im r s) = kernel_space_allocator s" "pmm_allocator (set_spaces im r s) = pmm_allocator s"
  "pmm_length (set_spaces im r s) = mem_len r" "kernel_space_start (set_spaces im r s) = executable_start im"
  "kernel_space_length (set_spaces im r s) = 0x800000"
  "non_kernel_space_start (set_spaces im r s) = executable_start im + 0x800000"
  "non_kernel_space_length (set_spaces im r s) = mem_len r - 0x800000"
  "tui_pos (set_spaces im r s) = tui_pos s" "tui_color (set_spaces im r s) = tui_color s" "pmm.more (set_spaces im r s) = pmm.more s"
  by (simp_all add: set_spaces_def vga_ok_def)

text \<open>What the start has achieved.\<close>

definition pmm_started :: "'b image_scheme \<Rightarrow> 'a pmm_scheme \<Rightarrow> addr \<Rightarrow> 'a pmm_scheme \<Rightarrow> bool" where
  "pmm_started im s tg t \<longleftrightarrow> pmm_inv t \<and> vga_ok t \<and> uart_drains (device t)
    \<and> tui_pos t = tui_pos s \<and> tui_color t = tui_color s \<and> pmm.more t = pmm.more s \<and> pmm_length t = available (ram s) tg
    \<and> pages (kernel_part t) = page_run 0 (unat (kernel_pages im) + unat (pages_of (boot_info_size s)))
    \<and> pages (user_part t) = {}
    \<and> boot_info_addr t = page_addr (executable_start im) (unat (kernel_pages im))
    \<and> bytes_at (ram t) (boot_info_addr t) (moved s) = bytes_at (ram s) (boot_info_addr s) (moved s)"

lemma started_logs:
  fixes t u :: "'a pmm_scheme"
  assumes "pmm_started im s tg t" "logs t u" "off_screen (boot_info_addr t) (moved s)"
  shows "pmm_started im s tg u"
proof -
  note same = logs_boot [OF assms(2)] more_pmm [OF logs_boot(7) [OF assms(2)]]
  have inv: "pmm_inv u" using assms(1) same by (simp add: pmm_started_def pmm_inv_def)
  have "\<forall>a. outside_screen a \<longrightarrow> ram u a = ram t a" using assms(2) by (simp add: logs_def)
  from off_screen_bytes [OF assms(3) this, of 0 "moved s"]
  have "bytes_at (ram u) (boot_info_addr t) (moved s) = bytes_at (ram t) (boot_info_addr t) (moved s)" by simp
  moreover have "vga_ok u" "uart_drains (device u)" using assms(2) by (auto simp: logs_def)
  ultimately show ?thesis using inv assms(1) same by (auto simp: pmm_started_def kernel_part_def user_part_def)
qed

text \<open>The second half of the start, once the allocators exist.\<close>

lemma reserve_and_move:
  fixes s v :: "'a pmm_scheme"
  assumes B: "pmm_bootable im s tg"
    and v: "pmm_inv v" "pages (kernel_part v) = {}" "pages (user_part v) = {}" "vga_ok v" "uart_drains (device v)"
      "kernel_space_start v = executable_start im" "boot_info_addr v = boot_info_addr s" "boot_info_size v = boot_info_size s"
      "pmm_length v = available (ram s) tg" "\<forall>a. outside_screen a \<longrightarrow> ram v a = ram s a"
      "tui_pos v = tui_pos s" "tui_color v = tui_color s" "pmm.more v = pmm.more s"
  shows "runs (seq (alloc_pages_kernel_at v (executable_start im) (kernel_pages im)) (\<lambda>(ok, s).
      if ok then seq (move_boot_info s) (\<lambda>s. seq (vga_printf s ''pmm init done.\<newline>'' []) (\<lambda>s. ret (True, s)))
      else seq (assert_failed im 86 ''0'' s) (\<lambda>s. ret (False, s)))) (\<lambda>(ok, t). ok \<and> pmm_started im s tg t)"
proof -
  let ?kp = "unat (kernel_pages im)" and ?n = "unat (pages_of (boot_info_size s))"
  note B = B [unfolded pmm_bootable_def]
  have src: "off_screen (boot_info_addr s) (moved s)"
    by (rule off_screen_high) (use B in \<open>auto simp: word_le_nat_alt\<close>)
  have n: "0 < ?n" using B by (simp add: unat_gt_0 word_greater_zero_iff)
  obtain k where k: "alloc_pages_kernel_at v (executable_start im) (kernel_pages im)
      = ret (True, v\<lparr>kernel_space_allocator := Some k\<rparr>)"
    "pmm_inv (v\<lparr>kernel_space_allocator := Some k\<rparr>)" "pages k = page_run 0 ?kp"
    using reserve_kernel [OF v(1,2), of "kernel_pages im"] B v(6) by auto
  let ?w = "v\<lparr>kernel_space_allocator := Some k\<rparr>"
  have bytes: "bytes_at (ram ?w) (boot_info_addr ?w) (moved s) = bytes_at (ram s) (boot_info_addr s) (moved s)"
    using off_screen_bytes [OF src v(10), of 0 "moved s"] v(7) by simp
  have good: "read_size (ram ?w) (boot_info_addr ?w) \<noteq> 0x80000000"
    using read_size_bytes [OF bytes] B n by (simp add: moved_def)
  have size: "moved ?w = moved s" by (simp add: moved_def v)
  have new: "unat (page_addr (executable_start im) ?kp) = unat (executable_start im) + 4096 * ?kp"
    by (rule page_addr_unat) (use B in linarith)
  have dst: "off_screen (page_addr (executable_start im) ?kp) (moved s)"
    by (rule off_screen_high) (use B new in \<open>auto simp: word_le_nat_alt moved_def\<close>)
  have move: "runs (move_boot_info ?w) (pmm_started im s tg)"
    by (rule runs_mono, rule move_boot_info_runs [OF k(2), of ?kp])
      (use k(3) v B good bytes size in \<open>auto simp: vga_ok_def pmm_started_def\<close>)
  show ?thesis
    unfolding k(1) seq_ret prod.case if_True
  proof (rule runs_seq [OF move])
    fix x :: "'a pmm_scheme" assume x: "pmm_started im s tg x"
    have ok: "vga_ok x" "uart_drains (device x)" using x by (simp_all add: pmm_started_def)
    have off: "off_screen (boot_info_addr x) (moved s)" using x dst by (simp add: pmm_started_def)
    show "runs (seq (vga_printf x ''pmm init done.\<newline>'' []) (\<lambda>s. ret (True, s))) (\<lambda>(ok, t). ok \<and> pmm_started im s tg t)"
      by (rule runs_log [OF logs_refl [OF ok]]) (use started_logs [OF x _ off] in simp_all)
  qed
qed

lemma PMM_init_runs:
  fixes s :: "'a pmm_scheme"
  assumes ready: "vga_ok s" "uart_drains (device s)" "kernel_space_allocator s = None" "pmm_allocator s = None"
    and B: "pmm_bootable im s tg"
  shows "runs (PMM_init im s) (\<lambda>(ok, t). ok \<and> pmm_started im s tg t)"
proof -
  let ?L = "available (ram s) tg"
  note bounds = B [unfolded pmm_bootable_def]
  have start: "first_mmap (ram s) (boot_info_addr s + 8) (Some tg)" "\<forall>tg'. Some tg = Some tg' \<longrightarrow> mmap_ok (ram s) tg'" "boot_inited s"
    using bounds by simp_all
  have len: "unat (?L - 0x800000) = unat ?L - 0x800000"
    using bounds by (subst unat_sub) (simp_all add: word_le_nat_alt)
  obtain r t where mem: "BOOT_INFO_get_memory s = ret (r, t)" and r: "mem_len r = ?L" and t: "logs s t"
    using get_memory_sums_aux [OF ready(1,2) start(3,1,2)] by (auto simp: runs_def)
  have some: "mem_len r \<noteq> 0" using r bounds by auto
  define u where "u = set_spaces im r t"
  have same: "boot_info_addr t = boot_info_addr s" "boot_info_size t = boot_info_size s"
    "kernel_space_allocator t = None" "pmm_allocator t = None" "vga_ok t" "uart_drains (device t)"
    "\<forall>a. outside_screen a \<longrightarrow> ram t a = ram s a"
    "tui_pos t = tui_pos s" "tui_color t = tui_color s" "pmm.more t = pmm.more s"
    using logs_steady [OF t] ready(3,4) by (auto simp: steady_def)
  have "runs (make_allocators u) (\<lambda>v. steady u v \<and> pmm_inv v \<and> pages (kernel_part v) = {} \<and> pages (user_part v) = {})"
    by (rule make_allocators_runs) (use same bounds len r in \<open>auto simp: u_def\<close>)
  then show ?thesis
    unfolding PMM_init_def mem seq_ret prod.case if_not_P [OF some] u_def [symmetric]
  proof (rule runs_seq)
    fix v :: "'a pmm_scheme"
    assume v: "steady u v \<and> pmm_inv v \<and> pages (kernel_part v) = {} \<and> pages (user_part v) = {}"
    then have "kernel_space_start v = executable_start im" "boot_info_addr v = boot_info_addr s"
      "boot_info_size v = boot_info_size s" "pmm_length v = ?L" "vga_ok v" "uart_drains (device v)"
      "\<forall>a. outside_screen a \<longrightarrow> ram v a = ram s a"
      "tui_pos v = tui_pos s" "tui_color v = tui_color s" "pmm.more v = pmm.more s"
      using same r by (auto simp: steady_def u_def)
    with v show "runs (seq (alloc_pages_kernel_at v (executable_start im) (kernel_pages im)) (\<lambda>(ok, s).
        if ok then seq (move_boot_info s) (\<lambda>s. seq (vga_printf s ''pmm init done.\<newline>'' []) (\<lambda>s. ret (True, s)))
        else seq (assert_failed im 86 ''0'' s) (\<lambda>s. ret (False, s)))) (\<lambda>(ok, t). ok \<and> pmm_started im s tg t)"
      by (intro reserve_and_move [OF B]) simp_all
  qed
qed


text \<open>A machine of 16 MB with a kernel of half a megabyte at 1 MB and the boot information just below 2 MB, which is what the boot code maps.\<close>

definition small_image :: image where
  "small_image = \<lparr>executable_start = 0x100000, image_end = 0x180000, image_buf = 0x170000, pmm_file = ''pmm.cpp''\<rparr>"

definition boot_memory :: mem where
  "boot_memory = (\<lambda>_. 0)(0x1F0000 := 0x30, 0x1F0008 := 6, 0x1F000C := 40, 0x1F0010 := 24, 0x1F0023 := 1, 0x1F0028 := 1)"

definition pmm_boot :: pmm where
  "pmm_boot = \<lparr>ram = boot_memory, ports = [], device = \<lambda>_ _. 0x20, cursor_x = 0, cursor_y = 0,
     current_color = VGA_WHITE, tui_pos = new_pos 0 0, tui_color = new_col WHITE BLACK,
     boot_info_addr = 0x1F0000, boot_info_size = 0x30, multiboot2_magic = 0x36d76289, boot_inited = True,
     pmm_start = 0, pmm_length = 0, total_pages = 0, kernel_space_start = 0, kernel_space_length = 0,
     non_kernel_space_start = 0, non_kernel_space_length = 0, kernel_space_allocator = None, pmm_allocator = None\<rparr>"


section \<open>Calls that go wrong\<close>

lemma first_page:
  assumes "bitmap ff = replicate 512 0" "0 < allocator_length ff"
  shows "\<exists>g. ff_alloc ff 1 = ret (allocator_start_addr ff, g)"
proof -
  have "ff_test ff 0 = ret False" by (simp add: ff_test_def assms(1) word_of_def SHIFT_def)
  then have "find_len ff 1 False = ret 0"
    using assms(2) by (simp add: find_len_def find_len_loop.simps [of ff 1 False 0])
  moreover have "set_pages ff 0 1 = ret (ff\<lparr>bitmap := (bitmap ff)[0 := bitmap ff ! 0 OR bit_of 0]\<rparr>)"
    by (simp add: set_pages.simps [of ff] set_pages.simps [of _ 1] ff_set_def assms(1) word_of_def SHIFT_def)
  ultimately show ?thesis by (simp add: ff_alloc_def count_pages_def)
qed

lemma ff_new_any:
  assumes "vga_ok s" "uart_drains (device s)" "CHR 0x00 \<notin> set name"
  shows "runs (ff_new s this name addr len) (\<lambda>(ff, t). bitmap ff = replicate 512 0 \<and> allocator_length ff = len
    \<and> allocator_start_addr ff = addr \<and> logs s t)"
proof -
  define ff where "ff = (ALLOCATOR_init this name addr len)\<lparr>bitmap := replicate (unat BITS_ARR_SIZE) 0\<rparr>"
  have text_ok: "renderable ''%s: 0x%p(0x%X pages) init.\<newline>'' [VaStr (tag ff), VaWord (allocator_start_addr ff), VaWord (allocator_length ff)]"
    using assms(3) by (simp add: ff_def ALLOCATOR_init_def)
  show ?thesis
    unfolding ff_new_def ff_def [symmetric] Let_def
    by (rule runs_log [OF logs_refl [OF assms(1,2)] text_ok])
      (simp add: ff_def ALLOCATOR_init_def BITS_ARR_SIZE_def BITS_PER_WORD_def)
qed

text \<open>On a machine with less than 8 MB the length of the space outside the kernel wraps below 0, nothing notices, and the first page
  it grants lies behind the end of the memory.\<close>

theorem small_memory_overcommits:
  fixes s :: "'a pmm_scheme"
  assumes "vga_ok s" "uart_drains (device s)" "kernel_space_allocator s = None" "pmm_allocator s = None"
    and "0 < unat (mem_len r)" "unat (mem_len r) < 0x800000"
  shows "runs (make_allocators (set_spaces im r s)) (\<lambda>t.
    unat (get_non_kernel_space_length t) = 2 ^ 64 - (0x800000 - unat (mem_len r))
    \<and> (\<exists>u. alloc_page t = ret (executable_start im + 0x800000, u)))"
    (is "runs _ ?Q")
proof -
  let ?s = "set_spaces im r s" and ?n = "mem_len r - 0x800000"
  have "mem_len r < 0x800000" using assms(6) by (simp add: word_less_nat_alt)
  then have n: "unat ?n = 2 ^ 64 - (0x800000 - unat (mem_len r))"
    using assms(5,6) by (simp add: unat_sub_if_size not_le word_le_nat_alt word_size)
  have pos: "0 < ?n div PAGE_SIZE" by (simp add: word_less_nat_alt unat_div_distrib n)
  have ok: "vga_ok ?s" "uart_drains (device ?s)" using assms(1,2) by simp_all
  have once: "construct_once None name a l t = ff_new t static_storage name a l" for name a l and t :: "'a pmm_scheme"
    by (simp add: construct_once_def)
  show ?thesis
    unfolding make_allocators_def Let_def set_spaces_fields assms(3) once
  proof (rule runs_seq [OF ff_new_any [OF ok]], simp, elim case_prodE conjE, simp only: prod.case, rule runs_seq)
    fix p k and t :: "'a pmm_scheme" assume t: "logs ?s t"
    let ?t = "t\<lparr>kernel_space_allocator := Some k\<rparr>"
    have "steady ?s ?t" "pmm_allocator ?t = None" using logs_steady [OF t] assms(4) by (simp_all add: steady_put)
    then have t': "vga_ok ?t" "uart_drains (device ?t)" "pmm_allocator ?t = None"
      "non_kernel_space_start ?t = executable_start im + 0x800000" "non_kernel_space_length ?t = ?n"
      by (simp_all add: steady_def)
    show "runs (construct_once (pmm_allocator ?t) ''First Fit Allocator'' (non_kernel_space_start ?t)
        (non_kernel_space_length ?t div PAGE_SIZE) ?t)
      (\<lambda>(ff, u). bitmap ff = replicate 512 0 \<and> allocator_length ff = ?n div PAGE_SIZE
        \<and> allocator_start_addr ff = executable_start im + 0x800000 \<and> logs ?t u)"
      unfolding t'(3-5) once by (rule ff_new_any [OF t'(1,2)]) simp
    fix q :: "FIRSTFIT \<times> 'a pmm_scheme"
    assume "case q of (ff, u) \<Rightarrow> bitmap ff = replicate 512 0 \<and> allocator_length ff = ?n div PAGE_SIZE
        \<and> allocator_start_addr ff = executable_start im + 0x800000 \<and> logs ?t u"
    then obtain ff u where q: "q = (ff, u)" "bitmap ff = replicate 512 0" "0 < allocator_length ff"
      "allocator_start_addr ff = executable_start im + 0x800000" "logs ?t u" using pos by (auto simp del: PAGE_SIZE_val)
    have "non_kernel_space_length u = ?n" using logs_steady [OF q(5)] t'(5) by (simp add: steady_def)
    moreover obtain g where "ff_alloc ff 1 = ret (executable_start im + 0x800000, g)"
      using first_page [OF q(2,3)] q(4) by auto
    ultimately show "runs (case q of (ff, s) \<Rightarrow> ret (s\<lparr>pmm_allocator := Some ff\<rparr>)) ?Q"
      using n by (simp add: q(1) get_non_kernel_space_length_def alloc_page_def deref_def)
  qed
qed

theorem small_memory_overcommits_witness:
  "runs (make_allocators (set_spaces small_image (new_resource\<lparr>mem_len := 0x400000\<rparr>) pmm_boot))
    (\<lambda>t. \<exists>u. alloc_page t = ret (0x900000, u))"
proof -
  have "vga_ok pmm_boot" "uart_drains (device pmm_boot)" "kernel_space_allocator pmm_boot = None" "pmm_allocator pmm_boot = None"
    by (simp_all add: pmm_boot_def vga_ok_def uart_drains_def uart_ready_def)
  from small_memory_overcommits [OF this, of "new_resource\<lparr>mem_len := 0x400000\<rparr>" small_image]
  show ?thesis by (auto simp: small_image_def elim!: runs_mono)
qed

text \<open>\<open>free_pages\<close> (and \<open>free_page\<close>) of an address outside both spaces reports a failed assertion on the console, in
  light red, and goes on: both allocators stay as they are and all of memory outside the screen and the print buffer too.\<close>

theorem free_unknown_reports:
  fixes s :: "'a pmm_scheme"
  assumes "\<not> in_kernel_space addr s" "\<not> in_non_kernel_space addr s" "p \<in> {(free_page im s addr, ''178''), (free_pages im s addr n, ''197'')}"
    and "buf_ok (image_buf im)" "tui_ok s" "uart_drains (device s)" "CHR 0x09 \<notin> set (pmm_file im)"
    and "CHR 0x00 \<notin> set (pmm_file im)" "length (pmm_file im) < 400"
  shows "\<exists>u. fst p = ret u
    \<and> printed (image_buf im) (io_set_color LIGHT_RED s) u (pmm_file im @ '':'' @ snd p @ '': failed assertion `0'' @ [CHR 39, CHR 0x0A])
    \<and> kernel_space_allocator u = kernel_space_allocator s \<and> pmm_allocator u = pmm_allocator s"
proof -
  have lines: "int_string 178 = ''178''" "int_string 197 = ''197''"
    by (simp_all add: int_string_def num_string.simps digit_char_def char_of_def bit_0)
  have "\<exists>u. assert_failed im l ''0'' s = ret u
    \<and> printed (image_buf im) (io_set_color LIGHT_RED s) u (pmm_file im @ '':'' @ ds @ '': failed assertion `0'' @ [CHR 39, CHR 0x0A])
    \<and> kernel_space_allocator u = kernel_space_allocator s \<and> pmm_allocator u = pmm_allocator s"
    if l: "(l, ds) \<in> {(178, ''178''), (197, ''197'')}" for l ds
  proof -
    let ?cs = "pmm_file im @ '':'' @ ds @ '': failed assertion `0'' @ [CHR 39, CHR 0x0A]"
    have "format_text ''%s:%d: failed assertion `%s'\<newline>'' [VaStr (pmm_file im), VaWord l, VaStr ''0''] = ret ?cs"
      using l assms(8) by (auto simp: directive_common lines)
    moreover have "length ?cs < 2 ^ 64" "CHR 0x09 \<notin> set ?cs" "CHR 0x00 \<notin> set ?cs" "take 511 ?cs = ?cs"
      using l assms(7-9) by auto
    ultimately obtain u where u: "io_colored LIGHT_RED (image_buf im) ''%s:%d: failed assertion `%s'\<newline>''
        [VaStr (pmm_file im), VaWord l, VaStr ''0''] s = ret (of_nat (length ?cs), u)"
      "printed (image_buf im) (io_set_color LIGHT_RED s) u ?cs"
      using io_colored_prints [of _ _ ?cs _ s LIGHT_RED] assms(4-6) by metis
    have "tui.more u = tui.more (io_set_color LIGHT_RED s)" using u(2) by (simp add: printed_def)
    then have "kernel_space_allocator u = kernel_space_allocator s \<and> pmm_allocator u = pmm_allocator s"
      by (cases s; cases u) (simp add: io_set_color_def tui_set_color_def)
    with u show ?thesis by (auto simp: assert_failed_def io_err_def)
  qed
  from this [of 178 "''178''"] this [of 197 "''197''"] show ?thesis
    using assms(1-3) by (elim insertE emptyE) (simp_all add: free_page_def free_pages_def)
qed

definition two_spaces :: pmm where
  "two_spaces = pmm_boot\<lparr>kernel_space_start := 0x100000, kernel_space_length := 0x800000,
     non_kernel_space_start := 0x900000, non_kernel_space_length := 0x10000,
     kernel_space_allocator := Some (fresh 0x800), pmm_allocator := Some ((fresh 16)\<lparr>allocator_start_addr := 0x900000\<rparr>)\<rparr>"

lemma two_spaces_inv: "pmm_inv two_spaces"
proof -
  have "ff_inv (fresh 0x800)" "ff_inv (fresh 16)" by (simp_all add: fresh_inv)
  then show ?thesis by (simp add: two_spaces_def pmm_inv_def ff_inv_def ff_pages_def pages_def used_def)
qed

theorem free_unknown_reports_witness:
  "\<exists>u. free_page small_image two_spaces 0x2000000 = ret u \<and> pmm_allocator u = pmm_allocator two_spaces"
proof -
  have img: "CHR 0x09 \<notin> set (pmm_file small_image)" "CHR 0x00 \<notin> set (pmm_file small_image)" "length (pmm_file small_image) < 400"
    by (simp_all add: small_image_def)
  have buf: "buf_ok (image_buf small_image)"
  proof -
    have "fits 0x170000 512" "fits 0xB8000 4000" by (simp_all add: fits_def)
    then show ?thesis by (auto simp: buf_ok_def small_image_def intro: disjoint_regionsI_below)
  qed
  have s: "tui_ok two_spaces" "uart_drains (device two_spaces)"
    by (simp_all add: two_spaces_def pmm_boot_def tui_ok_def new_pos_def uart_drains_def uart_ready_def)
  have out: "\<not> in_kernel_space 0x2000000 two_spaces" "\<not> in_non_kernel_space 0x2000000 two_spaces"
    by (simp_all add: in_kernel_space_def in_non_kernel_space_def two_spaces_def)
  from free_unknown_reports [OF out _ buf s img, of "(free_page small_image two_spaces 0x2000000, ''178'')"]
  show ?thesis by auto
qed

theorem pmm_clients_safe_witness:
  "\<exists>s. pmm_client small_image two_spaces s [(0x100000, 4)] [] \<and> pmm_inv s"
proof -
  have part: "pages (kernel_part two_spaces) = page_run 0 0"
    by (simp add: kernel_part_def two_spaces_def)
  obtain t where t: "alloc_pages_kernel two_spaces 4 = ret (page_addr (kernel_space_start two_spaces) 0, t)"
    using alloc_behind [OF two_spaces_inv part, of 4] by auto
  have "page_addr (kernel_space_start two_spaces) 0 = 0x100000" by (simp add: two_spaces_def page_addr_def)
  with pmm_client.Kernel [OF pmm_client.Start _ t] have c: "pmm_client small_image two_spaces t [(0x100000, 4)] []" by simp
  with pmm_clients_safe [OF two_spaces_inv c] show ?thesis by blast
qed

end
