(* ===== verification/Interrupt_Props.thy ===== *)
theory Interrupt_Props
  imports Interrupts Pmm_Init
begin

text \<open>
  Interrupts: the table the initialisation builds and the base the CPU really gets, the masks of the controller, the
  dispatch, and the timer ticks of a halted kernel.
\<close>

lemma vector_range [simp]: "unat (no :: u8) < EXCP_MAX"
  using unsigned_less [of no, where 'a = nat] by (simp add: EXCP_MAX_def)

section \<open>Well-formed states\<close>

text \<open>Both arrays have their 256 elements.\<close>

definition intr_ok :: "'a intr_scheme \<Rightarrow> bool" where
  "intr_ok s \<longleftrightarrow> length (idt s) = 256 \<and> length (interrupt_handlers s) = 256"

text \<open>The fields of an interrupt gate for a handler, and the handler a gate leads to.\<close>

definition gate :: "u64 \<Rightarrow> idt_entry_t" where
  "gate h = \<lparr>offset_low = ucast h, selector = 8, gate_ist = 0, gate_zero0 = 0, gate_type = 0xE, gate_zero1 = 0,
     gate_dpl = 0, gate_p = 1, offset_mid = ucast (drop_bit 16 h), offset_high = ucast (drop_bit 32 h), gate_reserved = 0\<rparr>"

definition gate_target :: "idt_entry_t \<Rightarrow> u64" where
  "gate_target e = ucast (offset_low e) OR push_bit 16 (ucast (offset_mid e)) OR push_bit 32 (ucast (offset_high e))"

lemma gate_target_gate [simp]: "gate_target (gate h) = h"
proof (rule bit_word_eqI)
  fix n assume "n < LENGTH(64)"
  then consider "n < 16" | "16 \<le> n" "n < 32" | "32 \<le> n" "n < 64" by fastforce
  then show "bit (gate_target (gate h)) n = bit h n"
    by cases (auto simp: gate_target_def gate_def bit_or_iff bit_unsigned_iff bit_push_bit_iff bit_drop_bit_eq)
qed

lemma make_gate:
  "make_idt_entry vec h TYPE_SYSTEM_64_INTERRUPT_GATE DPL0 SEGMENT_PRESENT s = s\<lparr>idt := (idt s)[unat vec := gate h]\<rparr>"
proof -
  have "ucast (h AND 0xFFFF) = (ucast h :: u16)" "ucast (drop_bit 16 h AND 0xFFFF) = (ucast (drop_bit 16 h) :: u16)"
    "ucast (drop_bit 32 h AND 0xFFFFFFFF) = (ucast (drop_bit 32 h) :: u32)"
  proof -
    have m: "0xFFFF = (mask 16 :: u64)" "0xFFFFFFFF = (mask 32 :: u64)" by (simp_all add: mask_eq_exp_minus_1)
    show "ucast (h AND 0xFFFF) = (ucast h :: u16)" "ucast (drop_bit 16 h AND 0xFFFF) = (ucast (drop_bit 16 h) :: u16)"
      "ucast (drop_bit 32 h AND 0xFFFFFFFF) = (ucast (drop_bit 32 h) :: u32)"
      unfolding m by (rule bit_word_eqI, auto simp: bit_unsigned_iff bit_and_iff bit_mask_iff bit_drop_bit_eq)+
  qed
  then show ?thesis
    by (simp add: make_idt_entry_def gate_def TYPE_SYSTEM_64_INTERRUPT_GATE_def DPL0_def SEGMENT_PRESENT_def)
qed


section \<open>The table\<close>

lemma fold_idt:
  assumes "\<And>n s. n \<in> set ns \<Longrightarrow> f n s = s\<lparr>idt := (idt s)[g n := e n]\<rparr>"
  shows "fold f ns s = s\<lparr>idt := fold (\<lambda>n xs. xs[g n := e n]) ns (idt s)\<rparr>"
  using assms by (induction ns arbitrary: s) simp_all

lemma fold_handlers:
  assumes "\<And>n s. n \<in> set ns \<Longrightarrow> f n s = s\<lparr>interrupt_handlers := (interrupt_handlers s)[g n := e n]\<rparr>"
  shows "fold f ns s = s\<lparr>interrupt_handlers := fold (\<lambda>n xs. xs[g n := e n]) ns (interrupt_handlers s)\<rparr>"
  using assms by (induction ns arbitrary: s) simp_all

lemma length_fold_update [simp]: "length (fold (\<lambda>n xs. xs[g n := e n]) ns xs) = length xs"
  by (induction ns arbitrary: xs) simp_all

lemma fold_update_nth:
  "v < length xs \<Longrightarrow> fold (\<lambda>n xs. xs[c + n := e n]) [0..<k] xs ! v = (if c \<le> v \<and> v < c + k then e (v - c) else xs ! v)"
proof (induction k)
  case (Suc k)
  then show ?case by (cases "v = c + k") auto
qed auto

lemma unat_small_u8: "n < 256 \<Longrightarrow> unat (of_nat n :: u8) = n"
  by (simp add: unat_of_nat take_bit_nat_eq_self)

text \<open>The gates of the exceptions 0 to 20 and of the interrupts 32 to 47; every other entry is absent.\<close>

definition idt_gates :: "'b machine_image_scheme \<Rightarrow> nat \<Rightarrow> idt_entry_t" where
  "idt_gates mi v = (if v < 21 then gate (isr_stub mi v) else if 32 \<le> v \<and> v < 48 then gate (irq_stub mi (v - 32)) else zero_entry)"

lemma fill_idt_gates: "\<exists>xs. fill_idt mi s = s\<lparr>idt := xs\<rparr> \<and> length xs = 256 \<and> (\<forall>v < 256. xs ! v = idt_gates mi v)"
proof -
  let ?xs = "fold (\<lambda>n xs. xs[0 + n := gate (isr_stub mi n)]) [0..<21] (replicate EXCP_MAX zero_entry)"
  let ?ys = "fold (\<lambda>n xs. xs[32 + n := gate (irq_stub mi n)]) [0..<16] ?xs"
  have len: "length ?xs = 256" "length ?ys = 256" by (simp_all only: length_fold_update length_replicate EXCP_MAX_def)
  have vec: "unat (32 + of_nat n :: u8) = 32 + n" if "n < 16" for n
    using unat_small_u8 [of "32 + n"] that by simp
  have excp: "fold (SET_EXCP mi) [0..<21] (s\<lparr>idt := replicate EXCP_MAX zero_entry\<rparr>) = s\<lparr>idt := ?xs\<rparr>"
    by (subst fold_idt [where g = "\<lambda>n. 0 + n" and e = "\<lambda>n. gate (isr_stub mi n)"])
      (simp_all only: SET_EXCP_def make_gate atLeastLessThan_iff set_upt, simp_all add: unat_small_u8)
  have irq: "fold (SET_IRQ mi) [0..<16] (s\<lparr>idt := ?xs\<rparr>) = s\<lparr>idt := ?ys\<rparr>"
    by (subst fold_idt [where g = "\<lambda>n. 32 + n" and e = "\<lambda>n. gate (irq_stub mi n)"])
      (simp_all only: SET_IRQ_def make_gate atLeastLessThan_iff set_upt vec, simp_all)
  have "?ys ! v = idt_gates mi v" if v: "v < 256" for v
  proof -
    have "?ys ! v = (if 32 \<le> v \<and> v < 32 + 16 then gate (irq_stub mi (v - 32)) else ?xs ! v)"
      using v len(1) by (intro fold_update_nth) simp
    moreover have "?xs ! v = (if 0 \<le> v \<and> v < 0 + 21 then gate (isr_stub mi (v - 0)) else replicate EXCP_MAX zero_entry ! v)"
      using v by (intro fold_update_nth) (simp add: EXCP_MAX_def)
    ultimately show ?thesis using v by (simp add: idt_gates_def EXCP_MAX_def)
  qed
  then show ?thesis
    unfolding fill_idt_def Let_def excp irq using len(2) by (intro exI [of _ ?ys] conjI refl) blast+
qed


text \<open>The descriptor that \<open>idt_load\<close> reads: the 16-bit limit, 32 bits of base, and the four bytes that happen to follow.\<close>

lemma le_nat_append: "le_nat (xs @ ys) = le_nat xs + 256 ^ length xs * le_nat ys"
  by (induction xs) (simp_all add: algebra_simps)

lemma idtr_limit: "load16 (ram (set_idtr a base limit s)) a = limit"
  by (simp add: set_idtr_def load16_store16)

lemma idtr_base: "read64 (ram (set_idtr a base limit s)) (a + 2) = ucast base OR push_bit 32 (ucast (read32 (ram s) (a + 6)))"
proof -
  let ?m = "ram (set_idtr a base limit s)" and ?bs = "le_bytes 4 (unat base)"
  have set: "?m = store16 (store_bytes (ram s) (a + 2) ?bs) a limit" by (simp add: set_idtr_def)
  have other: "?m (a + 2 + of_nat i) = store_bytes (ram s) (a + 2) ?bs (a + 2 + of_nat i)" if "i < 8" for i
  proof -
    have "a + of_nat (2 + i) \<noteq> a + of_nat 0" "a + of_nat (2 + i) \<noteq> a + of_nat 1"
      using that offset_eq_iff [of "2 + i" 0 a] offset_eq_iff [of "2 + i" 1 a] by auto
    then show ?thesis unfolding set by (intro store16_outside) (simp_all add: algebra_simps)
  qed
  have first: "bytes_at (store_bytes (ram s) (a + 2) ?bs) (a + 2) 4 = ?bs"
    using bytes_at_store_bytes [of ?bs "ram s" "a + 2"] by simp
  have "bytes_at ?m (a + 2) 8 = bytes_at (store_bytes (ram s) (a + 2) ?bs) (a + 2) (4 + 4)"
    using other by (intro nth_equalityI) simp_all
  also have "\<dots> = ?bs @ bytes_at (store_bytes (ram s) (a + 2) ?bs) (a + 2 + of_nat 4) 4"
    unfolding bytes_at_add first by (rule refl)
  also have "bytes_at (store_bytes (ram s) (a + 2) ?bs) (a + 2 + of_nat 4) 4 = bytes_at (ram s) (a + 6) 4"
  proof (rule nth_equalityI)
    fix i assume "i < length (bytes_at (store_bytes (ram s) (a + 2) ?bs) (a + 2 + of_nat 4) 4)"
    then have i: "i < 4" by simp
    have eq: "a + 2 + of_nat 4 + of_nat i = a + 2 + of_nat (4 + i)" "a + 6 + of_nat i = a + 2 + of_nat (4 + i)" by simp_all
    have "\<not> in_region (a + 2) 4 (a + 2 + of_nat (4 + i))" using i in_region_offset [of "4 + i" "a + 2" 4] by simp
    with i show "bytes_at (store_bytes (ram s) (a + 2) ?bs) (a + 2 + of_nat 4) 4 ! i = bytes_at (ram s) (a + 6) 4 ! i"
      by (simp only: nth_bytes_at eq) (simp add: store_bytes_outside)
  qed simp
  finally have bytes: "bytes_at ?m (a + 2) 8 = ?bs @ bytes_at (ram s) (a + 6) 4" .
  have low: "le_nat ?bs = unat base"
    using unsigned_less [of base, where 'a = nat] by (intro le_nat_le_bytes) simp
  have high: "unat (read32 (ram s) (a + 6)) = le_nat (bytes_at (ram s) (a + 6) 4)"
    using le_nat_less [of "bytes_at (ram s) (a + 6) 4"] by (simp add: read32_def unat_of_nat take_bit_nat_eq_self)
  have "read64 ?m (a + 2) = ucast base + of_nat (2 ^ 32) * ucast (read32 (ram s) (a + 6))"
    by (simp add: read64_def bytes le_nat_append low high [symmetric])
  also have "\<dots> = ucast base + push_bit 32 (ucast (read32 (ram s) (a + 6)))"
    by (simp add: push_bit_eq_mult)
  also have "\<dots> = ucast base OR push_bit 32 (ucast (read32 (ram s) (a + 6)))"
    by (rule disjunctive_add) (auto simp: bit_push_bit_iff bit_unsigned_iff dest: bit_imp_le_length)
  finally show ?thesis .
qed


text \<open>The registers and the arrays after the initialisation.\<close>

lemma fold_default:
  assumes "length (interrupt_handlers s) = 256"
  shows "\<exists>hs. fold (\<lambda>i. register_intr_handler (of_nat i) Handler_default) [0..<INTERRUPT_MAX] s = s\<lparr>interrupt_handlers := hs\<rparr>
    \<and> length hs = 256 \<and> (\<forall>v < 256. hs ! v = (if v < 32 then Some Handler_default else interrupt_handlers s ! v))"
proof -
  let ?hs = "fold (\<lambda>n xs. xs[0 + n := Some Handler_default]) [0..<INTERRUPT_MAX] (interrupt_handlers s)"
  have "fold (\<lambda>i. register_intr_handler (of_nat i) Handler_default) [0..<INTERRUPT_MAX] s = s\<lparr>interrupt_handlers := ?hs\<rparr>"
    by (subst fold_handlers [where g = "\<lambda>n. 0 + n" and e = "\<lambda>n. Some Handler_default"])
      (simp_all add: register_intr_handler_def unat_small_u8 INTERRUPT_MAX_def)
  moreover have "length ?hs = 256" using assms by (simp only: length_fold_update)
  moreover have "?hs ! v = (if v < 32 then Some Handler_default else interrupt_handlers s ! v)" if "v < 256" for v
    using that assms by (subst fold_update_nth) (simp_all add: INTERRUPT_MAX_def)
  ultimately show ?thesis by blast
qed

text \<open>What the CPU gets as the base of the table: the four bytes behind the descriptor are its upper half.\<close>

definition loaded_base :: "'b machine_image_scheme \<Rightarrow> mem \<Rightarrow> u64" where
  "loaded_base mi m = ucast (ucast (idt_address mi) :: u32) OR push_bit 32 (ucast (read32 m (idtr_address mi + 6)))"

definition intr_started :: "'b machine_image_scheme \<Rightarrow> 'a intr_scheme \<Rightarrow> 'a intr_scheme \<Rightarrow> bool" where
  "intr_started mi s t \<longleftrightarrow> intr_ok t \<and> (\<forall>v < 256. idt t ! v = idt_gates mi v)
     \<and> (\<forall>v < 256. interrupt_handlers t ! v = (if v < 32 then Some Handler_default else interrupt_handlers s ! v))
     \<and> cpu_idt_limit t = 4095 \<and> cpu_idt_base t = loaded_base mi (ram s)
     \<and> ports t = [Out8 0xA1 0xFF, Out8 0x21 0xFF, Out8 0xA1 1, Out8 0x21 1, Out8 0xA1 2, Out8 0x21 4,
         Out8 0xA1 0x28, Out8 0x21 0x20, Out8 0xA0 0x11, Out8 0x20 0x11] @ ports s
     \<and> device t = device s \<and> tui_pos t = tui_pos s \<and> tui_color t = tui_color s
     \<and> kernel_space_allocator t = kernel_space_allocator s \<and> pmm_allocator t = pmm_allocator s \<and> pmm_inv t = pmm_inv s
     \<and> cpu_rflags t = cpu_rflags s \<and> g_ticks t = g_ticks s
     \<and> (\<forall>a. \<not> in_region (idtr_address mi) 6 a \<longrightarrow> ram t a = ram s a)"

lemma set_idtr_outside:
  assumes "\<not> in_region a 6 x"
  shows "ram (set_idtr a base limit s) x = ram s x"
proof -
  have "x \<noteq> a" "x \<noteq> a + 1"
    using assms in_region_offset [of 0 a 6] in_region_offset [of 1 a 6] by auto
  moreover have "\<not> in_region (a + 2) 4 x"
  proof
    assume "in_region (a + 2) 4 x"
    then obtain i where i: "i < 4" "x = a + 2 + of_nat i" by (rule in_regionE)
    then have "x = a + of_nat (2 + i)" by simp
    with i assms in_region_offset [of "2 + i" a 6] show False by simp
  qed
  ultimately show ?thesis by (simp add: set_idtr_def store16_outside store_bytes_outside)
qed

lemma aligned_base: "idt_address mi AND 0xF = 0 \<Longrightarrow> loaded_base mi m AND 0xF = 0"
proof -
  assume h: "idt_address mi AND 0xF = 0"
  have m: "0xF = (mask 4 :: u64)" by (simp add: mask_eq_exp_minus_1)
  have low: "\<not> bit (idt_address mi) n" if "n < 4" for n
  proof -
    have "bit (idt_address mi AND mask 4) n = bit (0 :: u64) n" using h by (simp only: m)
    with that show ?thesis by (simp add: bit_and_iff bit_mask_iff)
  qed
  show ?thesis
    unfolding m loaded_base_def by (rule bit_word_eqI) (auto simp: low bit_and_iff bit_or_iff bit_mask_iff bit_unsigned_iff bit_push_bit_iff)
qed

lemma INTERRUPTS_init_runs:
  fixes s :: "'a intr_scheme"
  assumes "length (interrupt_handlers s) = 256" "idtr_address mi \<noteq> 0"
    and addr: "idt_address mi AND 0xF = 0" "0x100000 \<le> idt_address mi" "idt_address mi \<le> 0xFFFFFFFFFFFF"
  shows "runs (INTERRUPTS_init mi s) (\<lambda>(ok, t). ok \<and> intr_started mi s t)"
proof -
  obtain xs where xs: "fill_idt mi s = s\<lparr>idt := xs\<rparr>" "length xs = 256" "\<forall>v < 256. xs ! v = idt_gates mi v"
    using fill_idt_gates by blast
  obtain hs where hs: "fold (\<lambda>i. register_intr_handler (of_nat i) Handler_default) [0..<INTERRUPT_MAX] (s\<lparr>idt := xs\<rparr>)
      = s\<lparr>idt := xs, interrupt_handlers := hs\<rparr>"
    "length hs = 256" "\<forall>v < 256. hs ! v = (if v < 32 then Some Handler_default else interrupt_handlers s ! v)"
    using fold_default [of "s\<lparr>idt := xs\<rparr>"] assms(1) by auto
  define u where "u = set_idtr (idtr_address mi) (ucast (idt_address mi)) (of_nat (16 * EXCP_MAX - 1))
    (s\<lparr>idt := xs, interrupt_handlers := hs\<rparr>)"
  have limit: "load16 (ram u) (idtr_address mi) = 4095" by (simp add: u_def idtr_limit EXCP_MAX_def)
  have base: "read64 (ram u) (idtr_address mi + 2) = loaded_base mi (ram s)"
    by (simp add: u_def idtr_base loaded_base_def)
  have load: "idt_load (idtr_address mi) u = (0, u\<lparr>cpu_idt_limit := 4095, cpu_idt_base := loaded_base mi (ram s)\<rparr>)"
    using aligned_base [OF addr(1)] assms(2) by (simp add: idt_load_def limit base)
  have range: "\<not> (idt_address mi < 0x100000 \<or> idt_address mi > 0xFFFFFFFFFFFF)" using addr(2,3) by (simp add: not_less)
  have mem: "\<forall>a. \<not> in_region (idtr_address mi) 6 a \<longrightarrow> ram u a = ram s a"
    by (simp add: u_def set_idtr_outside)
  have "INTERRUPTS_init mi s = ret (True, pic_init (u\<lparr>cpu_idt_limit := 4095, cpu_idt_base := loaded_base mi (ram s)\<rparr>))"
    using addr(1) range unfolding INTERRUPTS_init_def Let_def xs(1) hs(1) u_def [symmetric] load by simp
  moreover have "intr_started mi s (pic_init (u\<lparr>cpu_idt_limit := 4095, cpu_idt_base := loaded_base mi (ram s)\<rparr>))"
    using xs(2,3) hs(2,3) mem by (simp add: intr_started_def intr_ok_def pic_init_def Let_def port_outb_def
      PIC1_COMMAND_def PIC1_DATA_def PIC2_COMMAND_def PIC2_DATA_def) (simp add: u_def set_idtr_def pmm_inv_def)
  ultimately show ?thesis by simp
qed

text \<open>C5: For a table at an aligned address between 1 MB and 2^48 the initialisation succeeds. Vectors 0 to 20 and 32 to 47 are present
  interrupt gates of privilege 0 that lead to the stubs, no other vector is present; vectors 0 to 31 have the default handler; the controllers
  are remapped to 0x20 and 0x28 and fully masked. The CPU gets the right table exactly if the four bytes in memory
  behind the descriptor, which has room for 32 bits of base only, happen to be the upper half of its address.\<close>

theorem interrupts_init_table:
  fixes s :: "'a intr_scheme"
  assumes "length (interrupt_handlers s) = 256" "idtr_address mi \<noteq> 0"
    and addr: "idt_address mi AND 0xF = 0" "0x100000 \<le> idt_address mi" "idt_address mi \<le> 0xFFFFFFFFFFFF"
  shows "runs (INTERRUPTS_init mi s) (\<lambda>(ok, t). ok \<and> intr_ok t
    \<and> (\<forall>v < 256. gate_p (idt t ! v) = (if v < 21 \<or> 32 \<le> v \<and> v < 48 then 1 else 0))
    \<and> (\<forall>v < 256. gate_p (idt t ! v) = 1 \<longrightarrow> gate_type (idt t ! v) = 0xE \<and> gate_dpl (idt t ! v) = 0
         \<and> gate_target (idt t ! v) = (if v < 21 then isr_stub mi v else irq_stub mi (v - 32)))
    \<and> (\<forall>v < 32. interrupt_handlers t ! v = Some Handler_default)
    \<and> written 0x21 (ports t) = written 0x21 (ports s) @ [0x20, 4, 1, 0xFF]
    \<and> written 0xA1 (ports t) = written 0xA1 (ports s) @ [0x28, 2, 1, 0xFF]
    \<and> cpu_idt_limit t = 4095
    \<and> (cpu_idt_base t = idt_address mi
         \<longleftrightarrow> read32 (ram s) (idtr_address mi + 6) = ucast (drop_bit 32 (idt_address mi))))"
proof -
  obtain t where eq: "INTERRUPTS_init mi s = ret (True, t)" and t: "intr_started mi s t"
    using INTERRUPTS_init_runs [OF assms] by (auto simp: runs_def)
  have p: "gate_p (gate h) = 1" "gate_type (gate h) = 0xE" "gate_dpl (gate h) = 0" "gate_p zero_entry = 0" for h
    by (simp_all add: gate_def zero_entry_def)
  have idt: "idt t ! v = idt_gates mi v" if "v < 256" for v using t that by (simp add: intr_started_def)
  have base: "loaded_base mi m = idt_address mi \<longleftrightarrow> read32 m (idtr_address mi + 6) = ucast (drop_bit 32 (idt_address mi))" for m
  proof
    assume h: "loaded_base mi m = idt_address mi"
    have "ucast (drop_bit 32 (loaded_base mi m)) = read32 m (idtr_address mi + 6)"
      by (rule bit_word_eqI)
        (auto simp: loaded_base_def bit_unsigned_iff bit_drop_bit_eq bit_or_iff bit_push_bit_iff dest: bit_imp_le_length)
    with h show "read32 m (idtr_address mi + 6) = ucast (drop_bit 32 (idt_address mi))" by simp
  next
    assume h: "read32 m (idtr_address mi + 6) = ucast (drop_bit 32 (idt_address mi))"
    show "loaded_base mi m = idt_address mi"
      unfolding loaded_base_def h
      by (rule bit_word_eqI) (auto simp: bit_unsigned_iff bit_drop_bit_eq bit_or_iff bit_push_bit_iff)
  qed
  have "True \<and> intr_ok t
    \<and> (\<forall>v < 256. gate_p (idt t ! v) = (if v < 21 \<or> 32 \<le> v \<and> v < 48 then 1 else 0))
    \<and> (\<forall>v < 256. gate_p (idt t ! v) = 1 \<longrightarrow> gate_type (idt t ! v) = 0xE \<and> gate_dpl (idt t ! v) = 0
         \<and> gate_target (idt t ! v) = (if v < 21 then isr_stub mi v else irq_stub mi (v - 32)))
    \<and> (\<forall>v < 32. interrupt_handlers t ! v = Some Handler_default)
    \<and> written 0x21 (ports t) = written 0x21 (ports s) @ [0x20, 4, 1, 0xFF]
    \<and> written 0xA1 (ports t) = written 0xA1 (ports s) @ [0x28, 2, 1, 0xFF]
    \<and> cpu_idt_limit t = 4095
    \<and> (cpu_idt_base t = idt_address mi \<longleftrightarrow> read32 (ram s) (idtr_address mi + 6) = ucast (drop_bit 32 (idt_address mi)))"
  proof (intro conjI)
    show "\<forall>v < 256. gate_p (idt t ! v) = (if v < 21 \<or> 32 \<le> v \<and> v < 48 then 1 else 0)"
      by (simp add: idt idt_gates_def p)
    show "\<forall>v < 256. gate_p (idt t ! v) = 1 \<longrightarrow> gate_type (idt t ! v) = 0xE \<and> gate_dpl (idt t ! v) = 0
         \<and> gate_target (idt t ! v) = (if v < 21 then isr_stub mi v else irq_stub mi (v - 32))"
      by (simp add: idt idt_gates_def p)
  qed (use t base in \<open>simp_all add: intr_started_def\<close>)
  then show ?thesis unfolding eq runs_ret prod.case .
qed

definition kernel_image :: machine_image where
  "kernel_image = \<lparr>executable_start = 0x100000, image_end = 0x180000, image_buf = 0x170000, pmm_file = ''pmm.cpp'',
     idt_address = 0x160000, idtr_address = 0x161000, isr_stub = \<lambda>n. 0x110000 + 64 * of_nat n, irq_stub = \<lambda>n. 0x112000 + 64 * of_nat n\<rparr>"

definition intr_boot :: intr where
  "intr_boot = pmm.extend pmm_boot \<lparr>idt = replicate 256 zero_entry, interrupt_handlers = replicate 256 None,
     cpu_idt_limit = 0, cpu_idt_base = 0, cpu_rflags = 2, g_ticks = 0\<rparr>"

theorem interrupts_init_table_witness:
  "runs (INTERRUPTS_init kernel_image intr_boot) (\<lambda>(ok, t). ok \<and> gate_target (idt t ! 14) = 0x110380 \<and> cpu_idt_base t = 0x160000)"
proof -
  have mi: "idt_address kernel_image = 0x160000" "idtr_address kernel_image = 0x161000" "isr_stub kernel_image 14 = 0x110380"
    by (simp_all add: kernel_image_def)
  have handlers: "length (interrupt_handlers intr_boot) = 256" by (simp add: intr_boot_def pmm.defs)
  have mem: "read32 (ram intr_boot) 0x161006 = 0"
    by (simp add: intr_boot_def pmm.defs pmm_boot_def boot_memory_def read32_def bytes_at_def upt_conv_Cons)
  have prem: "idtr_address kernel_image \<noteq> 0" "idt_address kernel_image AND 0xF = 0" "0x100000 \<le> idt_address kernel_image"
    "idt_address kernel_image \<le> 0xFFFFFFFFFFFF" by (simp_all add: mi)
  obtain t where eq: "INTERRUPTS_init kernel_image intr_boot = ret (True, t)"
    and p: "\<forall>v < 256. gate_p (idt t ! v) = (if v < 21 \<or> 32 \<le> v \<and> v < 48 then 1 else 0)"
    and h: "\<forall>v < 256. gate_p (idt t ! v) = 1 \<longrightarrow> gate_type (idt t ! v) = 0xE \<and> gate_dpl (idt t ! v) = 0
      \<and> gate_target (idt t ! v) = (if v < 21 then isr_stub kernel_image v else irq_stub kernel_image (v - 32))"
    and b: "cpu_idt_base t = 0x160000 \<longleftrightarrow> read32 (ram intr_boot) 0x161006 = ucast (drop_bit 32 (0x160000 :: u64))"
    by (rule runsE [OF interrupts_init_table [OF handlers prem]]) (elim case_prodE conjE, simp add: mi)
  show ?thesis
    unfolding eq using p [rule_format, of 14] h [rule_format, of 14] b mem mi(3) by simp
qed

section \<open>Masks\<close>

lemma unmask_bits: "j < 8 \<Longrightarrow> k < 32 \<Longrightarrow>
    bit ((m :: u8) AND ucast (NOT (push_bit k (1 :: u32)))) j \<longleftrightarrow> bit m j \<and> j \<noteq> k"
  by (auto simp: bit_and_iff bit_unsigned_iff bit_not_iff bit_exp_iff)

text \<open>The number of the line within its controller, as the code computes it.\<close>

lemma irq_line:
  fixes irq :: u8
  shows "32 \<le> unat irq \<Longrightarrow> unat (irq - 32) = unat irq - 32"
    and "unat irq < 32 \<Longrightarrow> unat (irq - 32) = unat irq + 224"
    and "8 \<le> unat (irq - 32) \<Longrightarrow> unat (irq - 32 - 8) = unat (irq - 32) - 8"
proof -
  show "32 \<le> unat irq \<Longrightarrow> unat (irq - 32) = unat irq - 32"
    by (subst unat_sub) (simp_all add: word_le_nat_alt)
  show "8 \<le> unat (irq - 32) \<Longrightarrow> unat (irq - 32 - 8) = unat (irq - 32) - 8"
    by (subst unat_sub) (simp_all add: word_le_nat_alt)
  show "unat irq < 32 \<Longrightarrow> unat (irq - 32) = unat irq + 224"
    by (simp add: unat_sub_if_size word_size)
qed

definition irq_port :: "u8 \<Rightarrow> u16" where
  "irq_port irq = (if unat irq < 40 then 0x21 else 0xA1)"

text \<open>C28: \<open>enable_irq\<close> of the interrupts 32 to 47 reads the mask of the controller the line belongs to and writes it back with exactly
  the bit of the line cleared; no other port is written, so for a line of the second controller its cascade line on the
  first stays masked. From 48 to 71 it writes the mask back as it is; below 32, where the line number wraps, and from 72 on
  the shift is undefined.\<close>

theorem enable_irq_masks:
  "if unat irq < 32 \<or> 72 \<le> unat irq then enable_irq irq s = fail Invalid_shift
   else \<exists>t m. enable_irq irq s = ret t
     \<and> written (irq_port irq) (ports t) = written (irq_port irq) (ports s) @ [m]
     \<and> (\<forall>p. p \<noteq> irq_port irq \<longrightarrow> written p (ports t) = written p (ports s))
     \<and> (\<forall>j < 8. bit m j = (bit (ucast (device s (ports s) (irq_port irq)) :: u8) j
           \<and> (48 \<le> unat irq \<or> j \<noteq> (unat irq - 32) mod 8)))"
proof -
  have ports: "PIC1_DATA = 0x21" "PIC2_DATA = 0xA1" by (simp_all add: PIC1_DATA_def PIC2_DATA_def)
  have lt: "unat irq < 256" using unsigned_less [of irq, where 'a = nat] by simp
  have ge8: "irq - 32 \<ge> 8 \<longleftrightarrow> unat (irq - 32) \<ge> 8" and ge32: "x \<ge> 32 \<longleftrightarrow> unat x \<ge> 32" for x :: u8
    by (simp_all add: word_le_nat_alt)
  let ?k = "if 8 \<le> unat (irq - 32) then unat (irq - 32) - 8 else unat (irq - 32)"
  let ?p = "if 8 \<le> unat (irq - 32) then 0xA1 else (0x21 :: u16)"
  let ?m = "ucast (device s (ports s) ?p) AND ucast (NOT (push_bit ?k (1 :: u32))) :: u8"
  have run: "enable_irq irq s = (if ?k \<ge> 32 then fail Invalid_shift
      else ret (s\<lparr>ports := Out8 ?p ?m # In8 ?p # ports s\<rparr>))"
    by (simp add: enable_irq_def Let_def ge8 ge32 irq_line(3) [simplified] ports port_inb_def port_outb_def)
  show ?thesis
  proof (cases "unat irq < 32 \<or> 72 \<le> unat irq")
    case True
    then have "32 \<le> ?k" using irq_line(1,2) [of irq] lt by auto
    with True run show ?thesis by simp
  next
    case False
    then have line: "unat (irq - 32) = unat irq - 32" using irq_line(1) by simp
    with False have k: "\<not> 32 \<le> ?k" by auto
    have p: "?p = irq_port irq" using False line by (auto simp: irq_port_def)
    have "bit ?m j = (bit (ucast (device s (ports s) (irq_port irq)) :: u8) j \<and> (48 \<le> unat irq \<or> j \<noteq> (unat irq - 32) mod 8))"
      if "j < 8" for j
    proof -
      have "j \<noteq> ?k \<longleftrightarrow> 48 \<le> unat irq \<or> j \<noteq> (unat irq - 32) mod 8"
      proof (cases "unat irq < 40")
        case True
        then have "?k = unat irq - 32" "unat irq - 32 < 8" using False line by auto
        then show ?thesis using True by simp
      next
        case low: False
        have "(unat irq - 32) mod 8 = (unat irq - 40) mod 8"
        proof -
          have "unat irq - 32 = (unat irq - 40) + 8" using low by simp
          then show ?thesis by (simp only: mod_add_self2)
        qed
        moreover have "?k = unat irq - 40" using low line by auto
        ultimately show ?thesis using low that by (cases "48 \<le> unat irq") auto
      qed
      with unmask_bits [OF that, of ?k "ucast (device s (ports s) ?p)"] k p show ?thesis by simp
    qed
    with False run k p show ?thesis by (intro if_not_P [THEN iffD2]) auto
  qed
qed

theorem enable_irq_masks_witness:
  "\<exists>t m. enable_irq 33 intr_boot = ret t \<and> written 0x21 (ports t) = [m] \<and> \<not> bit m 1 \<and> bit m 5"
proof -
  have "device intr_boot (ports intr_boot) 0x21 = 0x20" "written 0x21 (ports intr_boot) = []"
    by (simp_all add: intr_boot_def pmm.defs pmm_boot_def)
  moreover have "bit (0x20 :: u8) 5" by (simp add: bit_numeral_rec)
  moreover have "unat (33 :: u8) = 33" by simp
  ultimately show ?thesis
    using enable_irq_masks [of 33 intr_boot] by (auto simp: irq_port_def)
qed

section \<open>Handlers\<close>

lemma forever_None [simp]: "(forever s :: 'a exec) = None"
proof -
  have False if "(forever s :: 'a exec) = Some y" for y by (rule forever.raw_induct [where P = "\<lambda>_ _. False", OF _ that])
  then show ?thesis by (metis not_None_eq)
qed

lemma seq_None [simp]: "seq None f = None"
  by (simp add: seq_def)

lemma more_intr:
  fixes s t :: "'a intr_scheme"
  assumes "tui.more t = tui.more s"
  shows "interrupt_handlers t = interrupt_handlers s" "cpu_rflags t = cpu_rflags s" "g_ticks t = g_ticks s" "idt t = idt s"
    "kernel_space_allocator t = kernel_space_allocator s" "pmm_allocator t = pmm_allocator s" "cpu_idt_base t = cpu_idt_base s"
  using assms by (cases s; cases t; simp)+

text \<open>A state in which messages can be printed.\<close>

definition console_ready :: "'b image_scheme \<Rightarrow> 'a tui_scheme \<Rightarrow> bool" where
  "console_ready im s \<longleftrightarrow> tui_ok s \<and> uart_drains (device s) \<and> buf_ok (image_buf im)"

lemma info_runs:
  fixes s :: "'a intr_scheme"
  assumes "console_ready im s" "format_text fmt args = ret cs" "length cs < 512" "CHR 0x09 \<notin> set cs" "CHR 0x00 \<notin> set cs"
  shows "\<exists>t. io_info (image_buf im) fmt args s = ret (of_nat (length cs), t) \<and> console_ready im t
    \<and> printed (image_buf im) (io_set_color CYAN s) t cs
    \<and> written 0x3F8 (ports t) = written 0x3F8 (ports s) @ tui_serials cs \<and> console_ports (ports s) (ports t)
    \<and> tui.more t = tui.more s"
proof -
  have "length cs < 2 ^ 64" "take 511 cs = cs" using assms(3) by simp_all
  then obtain t where t: "io_info (image_buf im) fmt args s = ret (of_nat (length cs), t)"
    "printed (image_buf im) (io_set_color CYAN s) t cs"
    using io_colored_prints [OF assms(2) _ assms(4,5), of "image_buf im" s CYAN] assms(1)
    by (auto simp: console_ready_def io_info_def)
  moreover have "device (io_set_color c s) = device s" "ports (io_set_color c s) = ports s" "tui.more (io_set_color c s) = tui.more s" for c
    by (simp_all add: io_set_color_def tui_set_color_def)
  ultimately show ?thesis using assms(1) by (intro exI [of _ t]) (simp add: printed_def console_ready_def)
qed

lemma byte_bounds: "uint (v :: u8) < 256" "- 2147483648 \<le> uint v" "uint v < 2147483648" "- 2147483648 < uint v"
proof -
  show b: "uint v < 256" using unsigned_less [of v, where 'a = int] by simp
  have nn: "0 \<le> uint v" by simp
  show "- 2147483648 \<le> uint v" by (rule order_trans [OF _ nn]) simp
  show "- 2147483648 < uint v" by (rule less_le_trans [OF _ nn]) simp
  show "uint v < 2147483648" by (rule less_trans [OF b]) simp
qed



lemma console_intr_boot: "console_ready kernel_image intr_boot"
proof -
  have "fits 0x170000 512" "fits 0xB8000 4000" by (simp_all add: fits_def)
  then have "buf_ok 0x170000" by (auto simp: buf_ok_def intro: disjoint_regionsI_below)
  then show ?thesis
    by (simp add: console_ready_def kernel_image_def intr_boot_def pmm.defs pmm_boot_def tui_ok_def new_pos_def
        uart_drains_def uart_ready_def)
qed


section \<open>Ticks\<close>

definition tick_text :: string where
  "tick_text = ''1 second tick'' @ [CHR 0x0A]"

text \<open>What one timer interrupt does.\<close>

definition ticked :: "'b image_scheme \<Rightarrow> 'a intr_scheme \<Rightarrow> 'a intr_scheme \<Rightarrow> bool" where
  "ticked im s t \<longleftrightarrow> console_ready im t \<and> g_ticks t = g_ticks s + 1
     \<and> written 0x20 (ports t) = written 0x20 (ports s) @ [0x20] \<and> written 0xA0 (ports t) = written 0xA0 (ports s) @ [0x20]
     \<and> written 0x3F8 (ports t) = written 0x3F8 (ports s)
         @ (if (g_ticks s + 1) mod 1000 = 0 then tui_serials tick_text else [])
     \<and> interrupt_handlers t = interrupt_handlers s \<and> cpu_rflags t = cpu_rflags s
     \<and> kernel_space_allocator t = kernel_space_allocator s \<and> pmm_allocator t = pmm_allocator s
     \<and> (if (g_ticks s + 1) mod 1000 = 0 then bytes_at (ram t) (image_buf im) 512 = replicate 512 0 else ram t = ram s)
     \<and> (\<forall>a. outside_screen a \<and> \<not> in_region (image_buf im) 512 a \<longrightarrow> ram t a = ram s a)"

lemma timer_intr_ticks:
  fixes s :: "'a intr_scheme"
  assumes "console_ready im s"
  shows "\<exists>t. timer_intr im s = ret t \<and> ticked im s t"
proof -
  define u where "u = s\<lparr>g_ticks := g_ticks s + 1, ports := Out8 0x20 0x20 # Out8 0xA0 0x20 # ports s\<rparr>"
  have u: "send_eoi IRQ0 (s\<lparr>g_ticks := g_ticks s + 1\<rparr>) = u"
    by (simp add: send_eoi_def Let_def IRQ0_def PIC1_COMMAND_def PIC2_COMMAND_def PIC_EOI_def port_outb_def u_def)
  have ready: "console_ready im u" using assms by (simp add: console_ready_def u_def tui_ok_def)
  have text_ok: "format_text ''1 second tick\<newline>'' [] = ret tick_text" "length tick_text < 512"
    "CHR 0x09 \<notin> set tick_text" "CHR 0x00 \<notin> set tick_text" by (simp_all add: tick_text_def)
  show ?thesis
  proof (cases "(g_ticks s + 1) mod 1000 = 0")
    case True
    obtain t where t: "io_info (image_buf im) ''1 second tick\<newline>'' [] u = ret (of_nat (length tick_text), t)" "console_ready im t"
      "written 0x3F8 (ports t) = written 0x3F8 (ports u) @ tui_serials tick_text" "console_ports (ports u) (ports t)"
      "tui.more t = tui.more u" "printed (image_buf im) (io_set_color CYAN u) t tick_text"
      using info_runs [OF ready text_ok] by blast
    have "\<forall>a. outside_screen a \<and> \<not> in_region (image_buf im) 512 a \<longrightarrow> ram t a = ram u a"
      using t(6) by (simp add: printed_def io_set_color_def tui_set_color_def)
    then have frame: "\<forall>a. outside_screen a \<and> \<not> in_region (image_buf im) 512 a \<longrightarrow> ram t a = ram s a" by (simp add: u_def)
    have zero: "bytes_at (ram t) (image_buf im) 512 = replicate 512 0" using t(6) by (simp add: printed_def)
    have "timer_intr im s = ret t" using True by (simp add: timer_intr_def Let_def u t(1)) (simp add: u_def)
    moreover have "ticked im s t"
      using t(2-4) more_intr [OF t(5)] zero True frame by (simp add: ticked_def console_ports_def u_def)
    ultimately show ?thesis by blast
  next
    case False
    then have "timer_intr im s = ret u" by (simp add: timer_intr_def Let_def u) (simp add: u_def)
    moreover have "ticked im s u" using ready False by (simp add: ticked_def) (simp add: u_def)
    ultimately show ?thesis by blast
  qed
qed

text \<open>The contract of an interrupt line: while its source is ready, an interrupt is served and leaves the source
  ready and the line enabled. \<open>serving n\<close> leads through \<open>n\<close> interrupts that arrive while the line is enabled.\<close>

inductive serving :: "('s \<Rightarrow> bool) \<Rightarrow> (addr \<Rightarrow> 's \<Rightarrow> 's exec) \<Rightarrow> 's \<Rightarrow> nat \<Rightarrow> 's \<Rightarrow> bool" for enabled serve s0 where
  Start: "serving enabled serve s0 0 s0"
| Serve: "serving enabled serve s0 n s \<Longrightarrow> enabled s \<Longrightarrow> serve ctxt s = ret t \<Longrightarrow> serving enabled serve s0 (Suc n) t"

inductive_cases serving_SucE: "serving enabled serve s0 (Suc n) t"

locale interrupt_line =
  fixes enabled :: "'s \<Rightarrow> bool" and ready :: "'s \<Rightarrow> bool"
    and serve :: "addr \<Rightarrow> 's \<Rightarrow> 's exec" and served :: "'s \<Rightarrow> 's \<Rightarrow> bool"
  assumes serve_returns: "ready s \<Longrightarrow> \<exists>t. serve ctxt s = ret t \<and> served s t"
    and served_ready: "ready s \<Longrightarrow> served s t \<Longrightarrow> ready t"
    and served_enabled: "served s t \<Longrightarrow> enabled s \<Longrightarrow> enabled t"
begin

lemma serve_served: "ready s \<Longrightarrow> serve ctxt s = ret t \<Longrightarrow> served s t"
  using serve_returns [of s ctxt] by auto

lemma serving_ready: "serving enabled serve s0 n s \<Longrightarrow> ready s0 \<Longrightarrow> ready s"
  by (induction rule: serving.induct) (auto intro: served_ready serve_served)

text \<open>No number of interrupts gets the line stuck.\<close>

lemma serving_exists:
  assumes "ready s0" "enabled s0"
  shows "\<exists>s. serving enabled serve s0 n s \<and> enabled s"
proof (induction n)
  case 0
  show ?case using assms(2) serving.Start [of enabled serve s0] by blast
next
  case (Suc n)
  then obtain s where s: "serving enabled serve s0 n s" "enabled s" by blast
  then have "ready s" using serving_ready assms(1) by blast
  then obtain t where "serve 0 s = ret t" "served s t" using serve_returns by blast
  then show ?case using serving.Serve [OF s] served_enabled s(2) by blast
qed

text \<open>What each interrupt keeps of a description of the past holds after any number of them.\<close>

lemma serving_invariant:
  assumes "serving enabled serve s0 n s" "ready s0" "P 0 s0"
    and "\<And>n s t. P n s \<Longrightarrow> served s t \<Longrightarrow> P (Suc n) t"
  shows "P n s"
  using assms(1)
proof (induction rule: serving.induct)
  case (Serve n s ctxt t)
  have "served s t" using Serve.hyps serving_ready assms(2) serve_served by blast
  with Serve.IH show ?case by (rule assms(4))
qed (rule assms(3))

end

text \<open>The timer: its handler is registered for vector 32 and the console its message goes to is ready.\<close>

definition intr_enabled :: "'a intr_scheme \<Rightarrow> bool" where
  "intr_enabled s \<longleftrightarrow> bit (cpu_rflags s) 9"

definition timer_ready :: "'b image_scheme \<Rightarrow> 'a intr_scheme \<Rightarrow> bool" where
  "timer_ready im s \<longleftrightarrow> console_ready im s \<and> interrupt_handlers s ! 32 = Some Timer_intr"

lemma irq_timer:
  assumes "timer_ready im s"
  shows "\<exists>t. irq_handler im IRQ0 ctxt s = ret t \<and> ticked im s t"
  using timer_intr_ticks [of im s] assms
  by (auto simp: timer_ready_def irq_handler_def call_irq_def EXCP_MAX_def call_handler_def IRQ0_def)

interpretation clock: interrupt_line intr_enabled "timer_ready im" "irq_handler im IRQ0" "ticked im" for im
  by unfold_locales (fact irq_timer, auto simp: timer_ready_def ticked_def intr_enabled_def)

text \<open>The halted kernel: timer interrupts arrive while the interrupt flag is set.\<close>

abbreviation ticking :: "'b image_scheme \<Rightarrow> 'a intr_scheme \<Rightarrow> nat \<Rightarrow> 'a intr_scheme \<Rightarrow> bool" where
  "ticking im \<equiv> serving intr_enabled (irq_handler im IRQ0)"

definition clock_state :: "'b image_scheme \<Rightarrow> 'a intr_scheme \<Rightarrow> nat \<Rightarrow> 'a intr_scheme \<Rightarrow> bool" where
  "clock_state im s0 n s \<longleftrightarrow> console_ready im s \<and> g_ticks s = of_nat n
     \<and> written 0x20 (ports s) = written 0x20 (ports s0) @ replicate n 0x20
     \<and> written 0xA0 (ports s) = written 0xA0 (ports s0) @ replicate n 0x20
     \<and> (n < 2 ^ 64 \<longrightarrow> written 0x3F8 (ports s) = written 0x3F8 (ports s0) @ concat (replicate (n div 1000) (tui_serials tick_text)))
     \<and> interrupt_handlers s = interrupt_handlers s0 \<and> cpu_rflags s = cpu_rflags s0
     \<and> kernel_space_allocator s = kernel_space_allocator s0 \<and> pmm_allocator s = pmm_allocator s0"

lemma clock_step:
  assumes "clock_state im s0 n s" "ticked im s t"
  shows "clock_state im s0 (Suc n) t"
proof -
  have g: "g_ticks s + 1 = of_nat (Suc n)" using assms(1) by (simp add: clock_state_def)
  have msg: "(of_nat n + 1 :: u64) mod 1000 = 0 \<longleftrightarrow> Suc n mod 1000 = 0" if "Suc n < 2 ^ 64"
  proof -
    have "(of_nat n + 1 :: u64) = of_nat (Suc n)" by simp
    then have "unat (of_nat n + 1 :: u64) = Suc n" using unat_of_nat_64 [OF that] by (simp only:)
    then show ?thesis by (simp add: word_unat_eq_iff unat_mod_distrib)
  qed
  have "written 0x3F8 (ports t) = written 0x3F8 (ports s0) @ concat (replicate (Suc n div 1000) (tui_serials tick_text))"
    if n: "Suc n < 2 ^ 64"
  proof -
    have "written 0x3F8 (ports t) = written 0x3F8 (ports s0) @ concat (replicate (n div 1000) (tui_serials tick_text))
        @ (if Suc n mod 1000 = 0 then tui_serials tick_text else [])"
      using assms n msg [OF n] by (simp add: clock_state_def ticked_def g)
    also have "concat (replicate (n div 1000) (tui_serials tick_text)) @ (if Suc n mod 1000 = 0 then tui_serials tick_text else [])
        = concat (replicate (Suc n div 1000) (tui_serials tick_text))"
      by (simp add: div_Suc replicate_append_same [symmetric])
    finally show ?thesis .
  qed
  moreover have "replicate (Suc n) 0x20 = replicate n 0x20 @ [0x20 :: u8]" by (simp add: replicate_append_same)
  ultimately show ?thesis
    using assms g by (simp add: clock_state_def ticked_def del: replicate_Suc)
qed

lemma ticking_clock:
  fixes s0 s :: "'a intr_scheme"
  assumes "timer_ready im s0" "g_ticks s0 = 0" "ticking im s0 n s"
  shows "clock_state im s0 n s" "\<exists>t. irq_handler im IRQ0 ctxt s = ret t"
proof -
  have "clock_state im s0 0 s0" using assms(1,2) by (simp add: clock_state_def timer_ready_def)
  then show "clock_state im s0 n s" by (rule clock.serving_invariant [OF assms(3,1)]) (rule clock_step)
  show "\<exists>t. irq_handler im IRQ0 ctxt s = ret t"
    using clock.serve_returns [OF clock.serving_ready [OF assms(3,1)], of ctxt] by blast
qed



end
