(* ===== verification/Kernel_Props.thy ===== *)
theory Kernel_Props
  imports Kernel Interrupt_Props
begin

text \<open>
  The start of the whole kernel: each subsystem started on what the ones before it left, from the state the boot
  code hands over to a halted kernel that serves its timer.
\<close>

section \<open>What a state of the kernel keeps\<close>

lemma more_boot_intr:
  fixes s t :: "'a intr_scheme"
  assumes "boot.more t = boot.more s"
  shows "kernel_space_allocator t = kernel_space_allocator s" "pmm_allocator t = pmm_allocator s"
    "interrupt_handlers t = interrupt_handlers s" "g_ticks t = g_ticks s" "idt t = idt s" "cpu_rflags t = cpu_rflags s"
  using assms by (cases s; cases t; simp)+

lemma more_pmm_intr:
  fixes s t :: "'a intr_scheme"
  assumes "pmm.more t = pmm.more s"
  shows "interrupt_handlers t = interrupt_handlers s" "g_ticks t = g_ticks s" "idt t = idt s" "cpu_rflags t = cpu_rflags s"
  using assms by (cases s; cases t; simp)+

lemma more_tui_pmm_inv:
  fixes s t :: "'a intr_scheme"
  assumes "tui.more t = tui.more s"
  shows "pmm_inv t = pmm_inv s"
  using assms by (cases s; cases t) (simp add: pmm_inv_def)

lemma more_vga_intr:
  fixes s t :: "'a intr_scheme"
  assumes "vga.more t = vga.more s"
  shows "tui_pos t = tui_pos s" "tui.more t = tui.more s"
  using assms by (cases s; cases t; simp)+

lemma halt_None: "(halt s :: 'a exec) = None"
proof -
  have False if "(halt s :: 'a exec) = Some y" for y by (rule halt.raw_induct [where P = "\<lambda>_ _. False", OF _ that])
  then show ?thesis by (metis not_None_eq)
qed

section \<open>The debug console and the boot information\<close>

text \<open>Messages of the debug console, and the screen and the colour, are all that two states differ in.\<close>

definition same_boot :: "'a boot_scheme \<Rightarrow> 'a boot_scheme \<Rightarrow> bool" where
  "same_boot s t \<longleftrightarrow> vga_ok t \<and> uart_drains (device t) \<and> tui_pos t = tui_pos s \<and> tui_color t = tui_color s
     \<and> boot_info_addr t = boot_info_addr s \<and> multiboot2_magic t = multiboot2_magic s \<and> boot.more t = boot.more s
     \<and> (\<forall>a. outside_screen a \<longrightarrow> ram t a = ram s a)"

lemma test_vga_runs:
  fixes s :: "'a boot_scheme"
  assumes "uart_drains (device s)"
  shows "runs (test_vga s) (same_boot s)"
proof -
  let ?s = "vga_setcolor (vga_init s) VGA_WHITE"
  have init: "vga_ok (vga_init s)" "only_screen s (vga_init s)" using vga_init_blank by blast+
  have ok: "vga_ok ?s" "uart_drains (device ?s)"
    using init assms by (simp_all add: vga_setcolor_def vga_ok_def only_screen_def)
  have "same_boot s t" if "logs ?s t" for t
  proof -
    have "vga.more t = vga.more s" using that init(2) by (simp add: logs_def vga_setcolor_def only_screen_def)
    from more_boot [OF this] show ?thesis
      using that init(2) assms by (simp add: logs_def vga_setcolor_def only_screen_def same_boot_def)
  qed
  moreover have "runs (test_vga s) (logs ?s)"
    unfolding test_vga_def Let_def by (rule vga_printf_logs [OF _ ok]) simp
  ultimately show ?thesis by (rule runs_mono [rotated])
qed

lemma boot_valid_screen:
  fixes s t :: "'a boot_scheme"
  assumes "boot_valid s" "same_boot s t"
  shows "boot_valid t" "read_size (ram t) (boot_info_addr t) = read_size (ram s) (boot_info_addr s)"
proof -
  have addr: "0x100000 \<le> boot_info_addr s" "boot_info_addr s \<le> 0x1000000" using assms(1) by (simp_all add: boot_valid_def)
  have "off_screen (boot_info_addr s) 4" using addr by (intro off_screen_high) (simp_all add: word_le_nat_alt)
  then show same: "read_size (ram t) (boot_info_addr t) = read_size (ram s) (boot_info_addr s)"
    using read_size_same [of "boot_info_addr s" "ram t" "ram s"] assms(2) by (simp add: same_boot_def)
  show "boot_valid t" using assms same by (simp add: boot_valid_def same_boot_def)
qed

lemma start_boot_info_runs:
  fixes s t :: "'a boot_scheme"
  assumes "boot_valid s" "same_boot s t"
  shows "runs (start_boot_info t) (\<lambda>u. same_boot s u \<and> boot_inited u
    \<and> boot_info_size u = ucast (read_size (ram s) (boot_info_addr s)))"
proof -
  note valid = boot_valid_screen [OF assms]
  have t: "vga_ok t" "uart_drains (device t)" using assms(2) by (simp_all add: same_boot_def)
  have good: "read_size (ram t) (boot_info_addr t) \<noteq> 0x80000000"
    using assms(1) unfolding valid(2) by (auto simp: boot_valid_def)
  show ?thesis
    unfolding start_boot_info_def BOOT_INFO_init_def seq_assoc
  proof (rule runs_seq [OF init_runs [OF t good]], clarify)
    fix ok and u :: "'a boot_scheme" assume "init_result t (ok, u)"
    then have u: "ok" "boot_kept t u" "boot_info_size u = ucast (read_size (ram t) (boot_info_addr t))"
      using valid(1) by (simp_all add: init_result_def)
    let ?v = "if boot_inited u = False then u\<lparr>boot_inited := True\<rparr> else u"
    have "same_boot s ?v \<and> boot_inited ?v \<and> boot_info_size ?v = ucast (read_size (ram s) (boot_info_addr s))"
      using u assms(2) valid(2) by (simp add: same_boot_def boot_kept_def vga_ok_def)
    with u(1) show "runs (seq (ret (ok, ?v)) (\<lambda>(ok, s). if \<not> ok
        then seq (vga_printf s ''main:Failed to initialize boot info!\<newline>'' []) halt else ret s))
      (\<lambda>u. same_boot s u \<and> boot_inited u \<and> boot_info_size u = ucast (read_size (ram s) (boot_info_addr s)))"
      by (simp only: seq_ret prod.case not_True_eq_False if_False runs_ret)
  qed
qed


section \<open>The page allocators\<close>

text \<open>
  A machine the kernel can start on: the boot information is accepted, and with it the memory manager can start, whatever the
  screen shows (the boot information does not lie in the screen memory); no allocator exists yet and no tick is counted; the console
  can print; and the linker has aligned the interrupt table and put it above 1 MB. All memory is taken to be reachable here; which addresses
  the tables of the boot code map is shown in \<open>Boot_Props\<close>.
\<close>

definition kernel_bootable :: "'b machine_image_scheme \<Rightarrow> 'a intr_scheme \<Rightarrow> addr \<Rightarrow> bool" where
  "kernel_bootable mi s tg \<longleftrightarrow> boot_valid s
     \<and> (\<forall>m. (\<forall>a. outside_screen a \<longrightarrow> m a = ram s a) \<longrightarrow> pmm_bootable mi
         (s\<lparr>ram := m, boot_inited := True, boot_info_size := ucast (read_size (ram s) (boot_info_addr s))\<rparr>) tg)
     \<and> kernel_space_allocator s = None \<and> pmm_allocator s = None
     \<and> g_ticks s = 0 \<and> console_ready mi s \<and> length (interrupt_handlers s) = 256 \<and> idtr_address mi \<noteq> 0
     \<and> idt_address mi AND 0xF = 0 \<and> 0x100000 \<le> idt_address mi \<and> idt_address mi \<le> 0xFFFFFFFFFFFF"

lemma pmm_bootable_cong:
  "boot_inited t = boot_inited s \<Longrightarrow> ram t = ram s \<Longrightarrow> boot_info_addr t = boot_info_addr s \<Longrightarrow>
    boot_info_size t = boot_info_size s \<Longrightarrow> pmm_bootable im t tg = pmm_bootable im s tg"
  by (simp add: pmm_bootable_def moved_def)

text \<open>The state between the memory manager and the interrupts.\<close>

definition pmm_ready :: "'a intr_scheme \<Rightarrow> 'a intr_scheme \<Rightarrow> bool" where
  "pmm_ready s t \<longleftrightarrow> pmm_inv t \<and> uart_drains (device t) \<and> tui_ok t \<and> length (interrupt_handlers t) = 256
     \<and> g_ticks t = g_ticks s"

lemma start_pmm_runs:
  fixes s t :: "'a intr_scheme"
  assumes B: "kernel_bootable mi s tg"
    and t: "same_boot s t" "boot_inited t" "boot_info_size t = ucast (read_size (ram s) (boot_info_addr s))"
  shows "runs (start_pmm mi t) (pmm_ready s)"
proof -
  note t' = t(1) [unfolded same_boot_def]
  let ?s = "s\<lparr>ram := ram t, boot_inited := True, boot_info_size := ucast (read_size (ram s) (boot_info_addr s))\<rparr>"
  have "pmm_bootable mi ?s tg" using B t' unfolding kernel_bootable_def by blast
  moreover have "pmm_bootable mi t tg = pmm_bootable mi ?s tg"
    using t t' by (intro pmm_bootable_cong) simp_all
  ultimately have boot: "pmm_bootable mi t tg" by simp
  have more: "boot.more t = boot.more s" using t' by simp
  have none: "kernel_space_allocator t = None" "pmm_allocator t = None"
    using more_boot_intr [OF more] B by (simp_all add: kernel_bootable_def)
  have ok: "vga_ok t" "uart_drains (device t)" using t' by simp_all
  show ?thesis
    unfolding start_pmm_def
  proof (rule runs_seq [OF PMM_init_runs [OF ok none boot]], elim case_prodE conjE, simp only: prod.case not_True_eq_False if_False runs_ret)
    fix p q u assume u: "pmm_started mi t tg u"
    have "interrupt_handlers u = interrupt_handlers s" "g_ticks u = g_ticks s" "tui_pos u = tui_pos s"
      using u t' more_boot_intr [OF more] more_pmm_intr [of u t] by (simp_all add: pmm_started_def)
    with u B show "pmm_ready s u"
      by (simp add: pmm_ready_def pmm_started_def kernel_bootable_def console_ready_def tui_ok_def)
  qed
qed

section \<open>Interrupts and timer\<close>

text \<open>A message keeps everything the subsystems have set up.\<close>

lemma info_keeps:
  fixes s :: "'a intr_scheme"
  assumes "console_ready im s" "format_text fmt args = ret cs" "length cs < 512" "CHR 0x09 \<notin> set cs" "CHR 0x00 \<notin> set cs"
  shows "runs (io_info (image_buf im) fmt args s) (\<lambda>(_, t). console_ready im t \<and> tui.more t = tui.more s)"
  using info_runs [OF assms] by (auto simp: runs_def)

definition intr_up :: "'b machine_image_scheme \<Rightarrow> 'a intr_scheme \<Rightarrow> 'a intr_scheme \<Rightarrow> bool" where
  "intr_up mi s t \<longleftrightarrow> console_ready mi t \<and> pmm_inv t \<and> intr_ok t \<and> (\<forall>v < 256. idt t ! v = idt_gates mi v)
     \<and> (\<forall>v < 32. interrupt_handlers t ! v = Some Handler_default) \<and> g_ticks t = g_ticks s"

lemma intr_up_more:
  fixes s t u :: "'a intr_scheme"
  assumes "intr_up mi s t" "console_ready mi u" "tui.more u = tui.more t"
  shows "intr_up mi s u"
  using assms more_intr [OF assms(3)] more_tui_pmm_inv [OF assms(3)] by (simp add: intr_up_def intr_ok_def)

lemma start_interrupts_runs:
  fixes s t :: "'a intr_scheme"
  assumes B: "kernel_bootable mi s tg" and t: "pmm_ready s t" "console_ready mi t"
  shows "runs (start_interrupts mi t) (intr_up mi s)"
proof -
  have len: "length (interrupt_handlers t) = 256" using t(1) by (simp add: pmm_ready_def)
  note addr = B [unfolded kernel_bootable_def]
  have msg: "format_text ''Initialized successfully:interrupts\<newline>'' [] = ret ''Initialized successfully:interrupts\<newline>''" by simp
  show ?thesis
    unfolding start_interrupts_def
  proof (rule runs_seq [OF INTERRUPTS_init_runs [OF len, of mi]], use addr in simp_all, elim case_prodE conjE, simp)
    fix u assume u: "intr_started mi t u"
    have up: "intr_up mi s u"
      using u t by (simp add: intr_up_def intr_started_def pmm_ready_def console_ready_def tui_ok_def)
    then have "console_ready mi u" by (simp add: intr_up_def)
    then have "runs (io_info (image_buf mi) ''Initialized successfully:interrupts\<newline>'' [] u) (\<lambda>(_, t). console_ready mi t \<and> tui.more t = tui.more u)"
      by (rule info_keeps [OF _ msg]) simp_all
    then show "runs (seq (io_info (image_buf mi) ''Initialized successfully:interrupts\<newline>'' [] u) (\<lambda>(_, s). ret s)) (intr_up mi s)"
      by (rule runs_seq) (auto intro: intr_up_more [OF up])
  qed
qed

text \<open>The kernel is up: the timer is registered and unmasked, and interrupts are on.\<close>

definition kernel_up :: "'b machine_image_scheme \<Rightarrow> 'a intr_scheme \<Rightarrow> 'a intr_scheme \<Rightarrow> bool" where
  "kernel_up mi s t \<longleftrightarrow> intr_up mi s t \<and> interrupt_handlers t ! 32 = Some Timer_intr \<and> bit (cpu_rflags t) 9"

lemma kernel_up_more:
  fixes s t u :: "'a intr_scheme"
  assumes "kernel_up mi s t" "console_ready mi u" "tui.more u = tui.more t"
  shows "kernel_up mi s u"
  using assms intr_up_more [of mi s t u] more_intr [OF assms(3)] by (simp add: kernel_up_def)

lemma flags_text:
  assumes "bit rflags 9"
  shows "\<exists>cs. format_text ''EFLAGS: 0x%lx, IF=%d\<newline>'' [VaWord rflags, VaWord (if rflags AND 0x200 \<noteq> 0 then 1 else 0)] = ret cs
    \<and> length cs < 512 \<and> CHR 0x09 \<notin> set cs \<and> CHR 0x00 \<notin> set cs"
proof -
  have "bit (rflags AND 0x200) 9" using assms by (simp add: bit_and_iff bit_numeral_rec)
  then have "rflags AND 0x200 \<noteq> 0" by auto
  moreover have "length (num_string False 16 (unat rflags)) \<le> 20" using unat_lt_64 [of rflags] by (intro num_string_31) simp_all
  moreover have one: "int_string 1 = ''1''"
    by (simp add: int_string_def num_string.simps digit_char_def char_of_def bit_0)
  ultimately show ?thesis
    using num_string_no_nul num_string_no_tab
    by (intro exI [of _ "''EFLAGS: 0x'' @ num_string False 16 (unat rflags) @ '', IF='' @ int_string 1 @ [CHR 0x0A]"])
      (auto simp: directive_common one)
qed

lemma start_timer_runs:
  fixes s t :: "'a intr_scheme"
  assumes "intr_up mi s t"
  shows "runs (start_timer mi t) (kernel_up mi s)"
proof -
  define p where "p = t\<lparr>ports := Out8 0x40 4 # Out8 0x40 0xA9 # Out8 0x43 0x36 # ports t,
    interrupt_handlers := (interrupt_handlers t)[32 := Some Timer_intr]\<rparr>"
  have pit: "init_pit 1000 t = ret (t\<lparr>ports := Out8 0x40 4 # Out8 0x40 0xA9 # Out8 0x43 0x36 # ports t\<rparr>)"
    by (simp add: init_pit_def Let_def port_outb_def)
  have reg: "register_intr_handler IRQ0 Timer_intr (t\<lparr>ports := Out8 0x40 4 # Out8 0x40 0xA9 # Out8 0x43 0x36 # ports t\<rparr>) = p"
    by (simp add: register_intr_handler_def IRQ0_def p_def)
  define u where "u = p\<lparr>ports := Out8 0x21 (ucast (device p (ports p) 0x21) AND ucast (NOT (1 :: u32))) # In8 0x21 # ports p,
    cpu_rflags := cpu_rflags p OR 0x200\<rparr>"
  have irq: "\<exists>v. enable_irq IRQ0 p = ret v \<and> intr_enable v = u"
    by (simp add: enable_irq_def IRQ0_def PIC1_DATA_def port_inb_def port_outb_def intr_enable_def u_def)
  have up: "kernel_up mi s u"
    using assms by (auto simp: kernel_up_def intr_up_def u_def p_def console_ready_def tui_ok_def pmm_inv_def intr_ok_def
        bit_or_iff bit_numeral_rec)
  then have ready: "console_ready mi u" "bit (cpu_rflags u) 9" by (simp_all add: kernel_up_def intr_up_def)
  obtain cs where cs: "format_text ''EFLAGS: 0x%lx, IF=%d\<newline>'' [VaWord (cpu_rflags u), VaWord (if cpu_rflags u AND 0x200 \<noteq> 0 then 1 else 0)] = ret cs"
    "length cs < 512" "CHR 0x09 \<notin> set cs" "CHR 0x00 \<notin> set cs"
    using flags_text [OF ready(2)] by blast
  have msg: "format_text ''Initialized successfully:timer\<newline>'' [] = ret ''Initialized successfully:timer\<newline>''" by simp
  note info = info_keeps [OF ready(1) cs]
  have timer: "runs (TIMER_init mi t) (\<lambda>(ok, u). ok \<and> kernel_up mi s u)"
  proof -
    obtain v where v: "enable_irq IRQ0 p = ret v" "intr_enable v = u" using irq by blast
    show ?thesis
      unfolding TIMER_init_def pit seq_ret Let_def reg v by (rule runs_seq [OF info]) (auto intro: kernel_up_more [OF up])
  qed
  show ?thesis
    unfolding start_timer_def
  proof (rule runs_seq [OF timer], elim case_prodE conjE, simp)
    fix v assume v: "kernel_up mi s v"
    then have "console_ready mi v" by (simp add: kernel_up_def intr_up_def)
    then have "runs (io_info (image_buf mi) ''Initialized successfully:timer\<newline>'' [] v) (\<lambda>(_, t). console_ready mi t \<and> tui.more t = tui.more v)"
      by (rule info_keeps [OF _ msg]) simp_all
    then show "runs (seq (io_info (image_buf mi) ''Initialized successfully:timer\<newline>'' [] v) (\<lambda>(_, s). ret s)) (kernel_up mi s)"
      by (rule runs_seq) (auto intro: kernel_up_more [OF v])
  qed
qed

section \<open>The kernel\<close>

lemma clear_ready:
  fixes s t :: "'a intr_scheme"
  assumes "pmm_ready s t" "buf_ok (image_buf mi)"
  shows "pmm_ready s (vga_init t)" "console_ready mi (vga_init t)"
proof -
  have "only_screen t (vga_init t)" using vga_init_blank by blast
  then have "device (vga_init t) = device t" "vga.more (vga_init t) = vga.more t" by (simp_all add: only_screen_def)
  note same = this(1) more_vga_intr [OF this(2)]
  show "pmm_ready s (vga_init t)" "console_ready mi (vga_init t)"
    using same assms more_intr [OF same(3)] more_tui_pmm_inv [OF same(3)]
    by (simp_all add: pmm_ready_def console_ready_def tui_ok_def)
qed

lemma test_runs:
  fixes s t :: "'a intr_scheme"
  assumes B: "kernel_bootable mi s tg" and t: "same_boot s t"
  shows "runs (test mi t) (kernel_up mi s)"
proof -
  have valid: "boot_valid s" and buf: "buf_ok (image_buf mi)"
    using B by (simp_all add: kernel_bootable_def console_ready_def)
  have msg: "format_text ''Initialized successfully:pmm\<newline>'' [] = ret ''Initialized successfully:pmm\<newline>''" by simp
  show ?thesis
    unfolding test_def Let_def
  proof (rule runs_seq [OF start_boot_info_runs [OF valid t]], elim conjE, rule runs_seq [OF start_pmm_runs [OF B]], assumption+)
    fix u :: "'a intr_scheme" assume "pmm_ready s u"
    note ready = clear_ready [OF this buf]
    show "runs (seq (io_info (image_buf mi) ''Initialized successfully:pmm\<newline>'' [] (vga_init u))
        (\<lambda>(_, s). seq (start_interrupts mi s) (start_timer mi))) (kernel_up mi s)"
    proof (rule runs_seq [OF info_keeps [OF ready(2) msg]], simp_all, elim case_prodE conjE, simp)
      fix v :: "'a intr_scheme" assume v: "console_ready mi v" "tui.more v = tui.more (vga_init u)"
      have "pmm_ready s v"
        using ready(1) v more_intr [OF v(2)] more_tui_pmm_inv [OF v(2)]
        by (simp add: pmm_ready_def console_ready_def)
      from start_interrupts_runs [OF B this v(1)] show "runs (seq (start_interrupts mi v) (start_timer mi)) (kernel_up mi s)"
        by (rule runs_seq) (rule start_timer_runs)
    qed
  qed
qed

lemma test_vga_test_runs:
  fixes s :: "'a intr_scheme"
  assumes B: "kernel_bootable mi s tg"
  shows "runs (seq (test_vga s) (test mi)) (kernel_up mi s)"
proof -
  have "uart_drains (device s)" using B by (simp add: kernel_bootable_def console_ready_def)
  from test_vga_runs [OF this] show ?thesis by (rule runs_seq) (rule test_runs [OF B])
qed


text \<open>The machine of 16 MB as the boot code leaves it, with the kernel image below the boot information.\<close>

definition cold_boot :: intr where
  "cold_boot = intr_boot\<lparr>boot_inited := False, boot_info_size := 0\<rparr>"

lemma cold_boot_pmm:
  assumes "\<forall>a. outside_screen a \<longrightarrow> m a = boot_memory a"
  shows "pmm_bootable kernel_image (intr_boot\<lparr>ram := m, boot_inited := True, boot_info_size := 0x30\<rparr>) 0x1F0008"
    (is "pmm_bootable _ ?s ?tg")
proof -
  have m: "m a = boot_memory a" if "0x100000 \<le> a" for a
    using assms that by (auto simp: outside_screen_def in_region_def word_le_nat_alt unat_sub_if_size)
  have bytes: "tag_type m ?tg = 6" "tag_size m ?tg = 40" "mmap_entry_size m ?tg = 24"
    "entry m ?tg 0 = 0x1F0018" "entry_type m 0x1F0018 = 1" "entry_len m 0x1F0018 = 0x1000000"
    by (simp_all add: tag_type_def tag_size_def mmap_entry_size_def entry_def entry_type_def entry_len_def
      m boot_memory_def read32_def read64_def bytes_at_def upt_conv_Cons)
  have available: "available m ?tg = 0x1000000" by (simp add: available_def bytes upt_conv_Cons)
  have kernel: "unat (kernel_pages kernel_image) = 128" "unat (executable_start kernel_image) mod 4096 = 0"
    by (simp_all add: kernel_pages_def kernel_image_def ALIGN_def)
  have one: "pages_of 0x30 = 1" by (simp add: pages_of_def)
  have "first_mmap (ram ?s) (boot_info_addr ?s + 8) (Some ?tg)"
    using first_mmap.Here [OF bytes(1)] by (simp add: intr_boot_def pmm.defs pmm_boot_def)
  moreover have "mmap_ok (ram ?s) ?tg" by (simp add: mmap_ok_def bytes(2,3)) (rule off_screen_high, simp_all)
  moreover have "read_size (ram ?s) (boot_info_addr ?s) = 0x30"
    by (simp add: read_size_def intr_boot_def pmm.defs pmm_boot_def m boot_memory_def upt_conv_Cons)
  ultimately show ?thesis
    using kernel by (simp add: pmm_bootable_def available)
      (simp add: intr_boot_def pmm.defs pmm_boot_def kernel_image_def one moved_def)
qed

lemma cold_boot_bootable: "kernel_bootable kernel_image cold_boot 0x1F0008"
proof -
  have mem: "ram cold_boot = boot_memory" "boot_info_addr cold_boot = 0x1F0000" "multiboot2_magic cold_boot = 0x36d76289"
    by (simp_all add: cold_boot_def intr_boot_def pmm.defs pmm_boot_def)
  have rd: "read_size boot_memory 0x1F0000 = 0x30"
    by (simp add: read_size_def boot_memory_def upt_conv_Cons)
  have "boot_valid cold_boot" by (simp add: boot_valid_def mem rd)
  moreover have "cold_boot\<lparr>ram := m, boot_inited := True, boot_info_size := 0x30\<rparr>
      = intr_boot\<lparr>ram := m, boot_inited := True, boot_info_size := 0x30\<rparr>" for m
    by (simp add: cold_boot_def intr_boot_def pmm.defs)
  moreover have "console_ready kernel_image cold_boot"
    using console_intr_boot by (simp add: cold_boot_def console_ready_def tui_ok_def)
  moreover have "g_ticks cold_boot = 0" "kernel_space_allocator cold_boot = None" "pmm_allocator cold_boot = None"
    "length (interrupt_handlers cold_boot) = 256"
    by (simp_all add: cold_boot_def intr_boot_def pmm.defs pmm_boot_def)
  ultimately show ?thesis
    using cold_boot_pmm by (simp add: kernel_bootable_def mem rd) (simp add: kernel_image_def)
qed


end
