(* ===== verification/Boot_Props.thy ===== *)
theory Boot_Props
  imports Boot Kernel_Props
begin

text \<open>
  What the boot code hands over: the identity mapping of the first two megabytes and of nothing else, the mode of the
  processor, the segments, the stack and the arguments of the boot loader; and what follows for the pages
  the kernel gives out.
\<close>

section \<open>The header\<close>

text \<open>The boot loader looks for four words that add up to 0, at most 32768 bytes into the file, and a terminating tag of 8 bytes.\<close>

lemma multiboot_header_sums:
  "length multiboot_header = unat HEADER_LENGTH"
  "MULTIBOOT2_HEADER_MAGIC + MULTIBOOT_ARCHITECTURE_I386 + HEADER_LENGTH + CHECKSUM = 0"
  "drop 16 multiboot_header = [0, 0, 0, 0, 8, 0, 0, 0]"
proof -
  have "le_bytes (Suc (Suc (Suc (Suc 0)))) 8 = [8, 0, 0, 0]" "le_bytes (Suc (Suc 0)) 0 = [0, 0]" by simp_all
  moreover have "Suc (Suc (Suc (Suc 0))) = 4" "Suc (Suc 0) = 2" by simp_all
  ultimately have "le_bytes 4 8 = [8, 0, 0, 0]" "le_bytes 2 0 = [0, 0]" by (simp_all only:)
  then show "drop 16 multiboot_header = [0, 0, 0, 0, 8, 0, 0, 0]" by (simp add: multiboot_header_def)
qed (simp_all add: multiboot_header_def HEADER_LENGTH_def CHECKSUM_def)

section \<open>Entries of the page tables\<close>

definition table_slot :: "mem \<Rightarrow> u64 \<Rightarrow> nat \<Rightarrow> u64" where
  "table_slot m t k = read64 m (t + 8 * of_nat k)"

lemma unat_read64: "unat (read64 m a) = le_nat (bytes_at m a 8)"
  using le_nat_less [of "bytes_at m a 8"] by (simp add: read64_def unat_of_nat_64)

lemma unat_lt_32: "unat (v :: u32) < 2 ^ 32"
  using unsigned_less [of v] by simp

text \<open>A store of 32 bits writes the whole entry, because its upper half is zero.\<close>

lemma store32_same:
  assumes "unat (read64 m (ucast a)) < 2 ^ 32"
  shows "read64 (store32 m a v) (ucast a) = ucast v"
proof -
  let ?a = "ucast a :: u64"
  have "bytes_at m ?a 8 = bytes_at m ?a 4 @ bytes_at m (?a + 4) 4" using bytes_at_add [of m ?a 4 4] by simp
  then have upper: "le_nat (bytes_at m (?a + 4) 4) = 0"
    using assms by (simp add: unat_read64 le_nat_append)
  have "bytes_at (store32 m a v) ?a 4 = le_bytes 4 (unat v)"
    using bytes_at_store_bytes [of "le_bytes 4 (unat v)" m ?a] by (simp add: store32_def)
  moreover have "bytes_at (store32 m a v) (?a + 4) 4 = bytes_at m (?a + 4) 4"
  proof (rule bytes_at_cong)
    fix x assume "in_region (?a + 4) 4 x"
    then obtain i where i: "i < 4" "x = ?a + 4 + of_nat i" by (rule in_regionE)
    then have "x = ?a + of_nat (4 + i)" by simp
    then have "\<not> in_region ?a 4 x" using i(1) in_region_offset [of "4 + i" ?a 4] by simp
    then show "store32 m a v x = m x" by (simp add: store32_def store_bytes_outside)
  qed simp
  ultimately have "bytes_at (store32 m a v) ?a 8 = le_bytes 4 (unat v) @ bytes_at m (?a + 4) 4"
    using bytes_at_add [of "store32 m a v" ?a 4 4] by simp
  then have "unat (read64 (store32 m a v) ?a) = unat v"
    using upper unat_lt_32 [of v] by (simp add: unat_read64 le_nat_append le_nat_le_bytes)
  then show ?thesis by (simp add: word_unat_eq_iff)
qed

text \<open>The four tables lie one after the other, 512 entries each.\<close>

definition tables_placed :: "boot_image \<Rightarrow> bool" where
  "tables_placed bi \<longleftrightarrow> pml4 bi AND 0xFFF = 0 \<and> unat (pml4 bi) + 0x4000 \<le> 2 ^ 32"

lemma slot_address:
  assumes "tables_placed bi" "k < 2048"
  shows "(ucast (pml4 bi + 8 * of_nat k) :: u64) = ucast (pml4 bi) + 8 * of_nat k"
proof -
  have "unat (8 * of_nat k :: u32) = 8 * k" using assms(2) by (simp add: unat_word_ariths unat_of_nat)
  moreover have "unat (8 * of_nat k :: u64) = 8 * k" using assms(2) by (simp add: unat_word_ariths unat_of_nat)
  ultimately show ?thesis
    using assms unfolding tables_placed_def
    by (simp add: word_unat_eq_iff unat_word_ariths)
qed

lemma store_slot:
  assumes "tables_placed bi" "k < 2048" "j < 2048" "unat (table_slot m (ucast (pml4 bi)) k) < 2 ^ 32"
  shows "table_slot (store32 m (pml4 bi + 8 * of_nat k) v) (ucast (pml4 bi)) j =
    (if j = k then ucast v else table_slot m (ucast (pml4 bi)) j)"
proof (cases "j = k")
  case True
  then show ?thesis
    using store32_same [of m "pml4 bi + 8 * of_nat k" v] assms(4) by (simp add: table_slot_def slot_address [OF assms(1,2)])
next
  case False
  let ?t = "ucast (pml4 bi) :: u64"
  have "bytes_at (store32 m (pml4 bi + 8 * of_nat k) v) (?t + 8 * of_nat j) 8 = bytes_at m (?t + 8 * of_nat j) 8"
  proof (rule bytes_at_cong)
    fix x assume "in_region (?t + 8 * of_nat j) 8 x"
    then obtain i where i: "i < 8" "x = ?t + 8 * of_nat j + of_nat i" by (rule in_regionE)
    have u: "unat (8 * of_nat j + of_nat i :: u64) = 8 * j + i" "unat (8 * of_nat k :: u64) = 8 * k"
      using i(1) assms(2,3) by (simp_all add: unat_word_ariths unat_of_nat)
    have "x - (?t + 8 * of_nat k) = (8 * of_nat j + of_nat i) - 8 * of_nat k" using i(2) by simp
    then have "unat (x - (?t + 8 * of_nat k)) = unat (8 * of_nat j + of_nat i - 8 * of_nat k :: u64)" by (simp only:)
    also have "\<dots> = (if 8 * k \<le> 8 * j + i then 8 * j + i - 8 * k else 8 * j + i + 2 ^ 64 - 8 * k)"
      unfolding unat_sub_if_size u by (simp add: word_size)
    finally have "\<not> in_region (?t + 8 * of_nat k) 4 x"
      using False i(1) assms(2) by (auto simp: in_region_def)
    then show "store32 m (pml4 bi + 8 * of_nat k) v x = m x"
      by (simp add: store32_def slot_address [OF assms(1,2)] store_bytes_outside)
  qed simp
  then show ?thesis using False by (simp add: table_slot_def read64_def)
qed

lemma fill_slots:
  assumes "tables_placed bi" "\<forall>j < 2048. unat (table_slot m (ucast (pml4 bi)) j) < 2 ^ 32" "k + n \<le> 2048" "j < 2048"
  shows "table_slot (fill_pt n v (pml4 bi + 8 * of_nat k) m) (ucast (pml4 bi)) j =
    (if k \<le> j \<and> j < k + n then ucast (v + 0x1000 * of_nat (j - k)) else table_slot m (ucast (pml4 bi)) j)"
  using assms(2,3)
proof (induction n arbitrary: k v m)
  case (Suc n)
  let ?m = "store32 m (pml4 bi + 8 * of_nat k) v"
  have k: "k < 2048" using Suc.prems(2) by simp
  have one: "table_slot ?m (ucast (pml4 bi)) i = (if i = k then ucast v else table_slot m (ucast (pml4 bi)) i)" if "i < 2048" for i
    using store_slot [OF assms(1) k that] Suc.prems(1) k by blast
  have "\<forall>j < 2048. unat (table_slot ?m (ucast (pml4 bi)) j) < 2 ^ 32"
    using one Suc.prems(1) unat_lt_32 [of v] by simp
  from Suc.IH [OF this, of "Suc k" "v + 0x1000"] have rest:
    "table_slot (fill_pt n (v + 0x1000) (pml4 bi + 8 * of_nat (Suc k)) ?m) (ucast (pml4 bi)) j =
      (if Suc k \<le> j \<and> j < Suc k + n then ucast (v + 0x1000 + 0x1000 * of_nat (j - Suc k)) else table_slot ?m (ucast (pml4 bi)) j)"
    using Suc.prems(2) by simp
  have forward: "pml4 bi + 8 * of_nat k + 8 = pml4 bi + 8 * of_nat (Suc k)" by (simp add: algebra_simps)
  have shift: "v + 0x1000 + 0x1000 * of_nat (j - Suc k) = v + 0x1000 * of_nat (j - k)" if "Suc k \<le> j"
  proof -
    have "j - k = Suc (j - Suc k)" using that by simp
    then show ?thesis by (simp add: algebra_simps)
  qed
  show ?case
    unfolding fill_pt.simps forward rest using one [OF assms(4)] shift by auto
qed auto

section \<open>The tables of the boot code\<close>

text \<open>The tables are zero in the image.\<close>

definition tables_empty :: "boot_image \<Rightarrow> mem \<Rightarrow> bool" where
  "tables_empty bi m \<longleftrightarrow> (\<forall>j < 2048. table_slot m (ucast (pml4 bi)) j = 0)"

definition boot_slot :: "boot_image \<Rightarrow> nat \<Rightarrow> u64" where
  "boot_slot bi j = (if j = 0 then ucast (pdpt bi OR 3) else if j = 512 then ucast (pd bi OR 3)
     else if j = 1024 then ucast (pt bi OR 3) else if 1536 \<le> j then ucast (3 + 0x1000 * of_nat (j - 1536) :: u32) else 0)"

lemma page_tables_slots:
  assumes "tables_placed bi" "tables_empty bi m" "j < 2048"
  shows "table_slot (page_tables bi m) (ucast (pml4 bi)) j = boot_slot bi j"
proof -
  let ?t = "ucast (pml4 bi) :: u64"
  let ?m1 = "store32 m (pml4 bi) (pdpt bi OR 3)"
  let ?m2 = "store32 ?m1 (pdpt bi) (pd bi OR 3)"
  let ?m3 = "store32 ?m2 (pd bi) (pt bi OR 3)"
  have e: "table_slot m ?t i = 0" if "i < 2048" for i using assms(2) that by (simp add: tables_empty_def)
  have s1: "table_slot ?m1 ?t i = (if i = 0 then ucast (pdpt bi OR 3) else 0)" if "i < 2048" for i
    using store_slot [OF assms(1) _ that, of 0 m] e that by simp
  have s2: "table_slot ?m2 ?t i = (if i = 512 then ucast (pd bi OR 3) else table_slot ?m1 ?t i)" if "i < 2048" for i
    using store_slot [OF assms(1) _ that, of 512 ?m1] s1 [of 512] by (simp add: pdpt_def)
  have s3: "table_slot ?m3 ?t i = (if i = 1024 then ucast (pt bi OR 3) else table_slot ?m2 ?t i)" if "i < 2048" for i
    using store_slot [OF assms(1) _ that, of 1024 ?m2] s1 [of 1024] s2 [of 1024] by (simp add: pd_def)
  have "\<forall>i < 2048. unat (table_slot ?m3 ?t i) < 2 ^ 32"
    using s1 s2 s3 unat_lt_32 by simp
  from fill_slots [OF assms(1) this, of 1536 512 j 3]
  have "table_slot (fill_pt 512 3 (pml4 bi + 8 * of_nat 1536) ?m3) ?t j =
      (if 1536 \<le> j then ucast (3 + 0x1000 * of_nat (j - 1536) :: u32) else table_slot ?m3 ?t j)"
    using assms(3) by simp
  moreover have "pt bi = pml4 bi + 8 * of_nat 1536" by (simp add: pt_def)
  then have "page_tables bi m = fill_pt 512 3 (pml4 bi + 8 * of_nat 1536) ?m3" by (simp only: page_tables_def Let_def)
  ultimately show ?thesis
    unfolding s3 [OF assms(3)] s2 [OF assms(3)] s1 [OF assms(3)] boot_slot_def by (simp del: of_nat_numeral)
qed

text \<open>The address in an entry.\<close>

lemma bit_three: "bit (3 :: u64) n \<longleftrightarrow> n < 2"
proof -
  have "(3 :: u64) = mask 2" by (simp add: mask_eq_exp_minus_1)
  then show ?thesis by (simp only: bit_mask_iff) auto
qed

lemma frame_of_entry:
  assumes "p < 2 ^ 40"
  shows "frame_of (push_bit 12 p OR 3) = push_bit 12 p" "bit (push_bit 12 p OR 3) 0" "\<not> bit (push_bit 12 p OR 3) 7"
proof -
  have high: "\<not> bit p n" if "40 \<le> n" for n
  proof -
    have "unat p < 2 ^ 40" using assms by (simp add: word_less_nat_alt)
    also have "(2 :: nat) ^ 40 \<le> 2 ^ n" using that by (intro power_increasing) simp_all
    finally have "\<not> bit (unat p) n" by (simp add: bit_iff_odd)
    then show ?thesis by (simp add: bit_unsigned_iff)
  qed
  have m: "(0xFFFFFFFFFF000 :: u64) = mask 52 AND NOT (mask 12)" by (simp add: mask_eq_exp_minus_1)
  show "frame_of (push_bit 12 p OR 3) = push_bit 12 p"
    unfolding frame_of_def m
  proof (rule bit_word_eqI)
    fix n
    show "bit ((push_bit 12 p OR 3) AND (mask 52 AND NOT (mask 12))) n = bit (push_bit 12 p) n" if "n < LENGTH(64)"
    proof (cases "12 \<le> n \<and> n < 52")
      case True
      then show ?thesis using that by (simp only: bit_and_iff bit_or_iff bit_not_iff bit_mask_iff bit_push_bit_iff bit_three) auto
    next
      case False
      then have "n < 12 \<or> \<not> bit p (n - 12)" using high [of "n - 12"] by (cases "n < 12") simp_all
      then show ?thesis
        using False that by (auto simp: bit_and_iff bit_or_iff bit_not_iff bit_mask_iff bit_push_bit_iff bit_three)
    qed
  qed
  show "bit (push_bit 12 p OR 3) 0" "\<not> bit (push_bit 12 p OR 3) 7"
    by (simp_all only: bit_or_iff bit_push_bit_iff bit_three) auto
qed

definition table_page :: "boot_image \<Rightarrow> u64" where
  "table_page bi = drop_bit 12 (ucast (pml4 bi))"

lemma table_page:
  assumes "tables_placed bi"
  shows "push_bit 12 (table_page bi) = ucast (pml4 bi)" "unat (table_page bi) < 2 ^ 20"
proof -
  have aligned: "pml4 bi AND mask 12 = 0" using assms by (simp add: tables_placed_def mask_eq_exp_minus_1)
  then have low: "\<not> bit (pml4 bi) n" if "n < 12" for n
    using that bit_and_iff [of "pml4 bi" "mask 12" n] by (simp add: bit_mask_iff)
  have "12 \<le> n" if "bit (pml4 bi) n" for n using low [of n] that by (cases "n < 12") simp_all
  then show "push_bit 12 (table_page bi) = ucast (pml4 bi)"
    unfolding table_page_def by (intro bit_word_eqI) (auto simp: bit_push_bit_iff bit_drop_bit_eq bit_ucast_iff)
  have "unat (table_page bi) = unat (pml4 bi) div 2 ^ 12"
    unfolding table_page_def unat_drop_bit_eq unat_u32_u64 by (simp add: drop_bit_eq_div)
  then show "unat (table_page bi) < 2 ^ 20" using unat_lt_32 [of "pml4 bi"] by simp
qed

text \<open>Every entry the boot code writes is the address of a frame, present and writable.\<close>

lemma or_three: "push_bit 12 p OR 3 = 4096 * p + (3 :: u64)"
proof -
  have "push_bit 12 p AND 3 = 0"
    by (intro bit_word_eqI) (simp only: bit_and_iff bit_push_bit_iff bit_three, auto)
  then show ?thesis by (simp add: disjunctive_add_eq_or [symmetric] push_bit_eq_mult)
qed

lemma next_table:
  assumes "tables_placed bi" "i \<le> 3"
  shows "(ucast ((pml4 bi + 0x1000 * of_nat i) OR 3) :: u64) = push_bit 12 (table_page bi + of_nat i) OR 3"
proof -
  have "(ucast (pml4 bi + 0x1000 * of_nat i) :: u64) = ucast (pml4 bi) + 0x1000 * of_nat i"
    using slot_address [OF assms(1), of "512 * i"] assms(2) by simp
  also have "\<dots> = push_bit 12 (table_page bi + of_nat i)"
    unfolding table_page(1) [OF assms(1), symmetric] by (simp add: push_bit_eq_mult algebra_simps)
  moreover have "(ucast (x OR 3) :: u64) = ucast x OR 3" for x :: u32 by (simp add: unsigned_or_eq)
  ultimately show ?thesis by simp
qed

lemma page_entry:
  assumes "i < 512"
  shows "(ucast (3 + 0x1000 * of_nat i :: u32) :: u64) = push_bit 12 (of_nat i) OR 3"
proof -
  have "unat (3 + 0x1000 * of_nat i :: u32) = 3 + 4096 * i" using assms by (simp add: unat_word_ariths unat_of_nat)
  moreover have "unat (4096 * of_nat i + 3 :: u64) = 3 + 4096 * i" using assms by (simp add: unat_word_ariths unat_of_nat)
  ultimately show ?thesis by (simp add: word_unat_eq_iff or_three)
qed

text \<open>The root of the tables has no flags; the entries have, and the processor masks them.\<close>

lemma frame_of_table:
  assumes "tables_placed bi" "i \<le> 3"
  shows "frame_of (push_bit 12 (table_page bi + of_nat i)) = ucast (pml4 bi) + 4096 * of_nat i"
    "frame_of (push_bit 12 (table_page bi + of_nat i) OR 3) = ucast (pml4 bi) + 4096 * of_nat i"
proof -
  let ?p = "table_page bi + of_nat i"
  have "unat ?p < 2 ^ 40" using table_page(2) [OF assms(1)] assms(2) by (simp add: unat_word_ariths unat_of_nat)
  then have "?p < 2 ^ 40" by (simp add: word_less_nat_alt)
  note f = frame_of_entry(1) [OF this]
  moreover have "frame_of (x OR 3) = frame_of x" for x
    unfolding frame_of_def by (simp add: bit.conj_disj_distrib2)
  moreover have "push_bit 12 ?p = ucast (pml4 bi) + 4096 * of_nat i"
    unfolding table_page(1) [OF assms(1), symmetric] by (simp add: push_bit_eq_mult algebra_simps)
  ultimately show "frame_of (push_bit 12 ?p) = ucast (pml4 bi) + 4096 * of_nat i"
    "frame_of (push_bit 12 ?p OR 3) = ucast (pml4 bi) + 4096 * of_nat i" by simp_all
qed

text \<open>A memory with the tables of the boot code.\<close>

definition boot_tables :: "boot_image \<Rightarrow> mem \<Rightarrow> bool" where
  "boot_tables bi m \<longleftrightarrow> (\<forall>j < 2048. table_slot m (ucast (pml4 bi)) j = boot_slot bi j)"

lemma walk_entry:
  assumes "tables_placed bi" "boot_tables bi m" "i \<le> 3" "frame_of e = ucast (pml4 bi) + 4096 * of_nat i"
  shows "read64 m (frame_of e + 8 * of_nat (table_index level a)) = boot_slot bi (512 * i + table_index level a)"
proof -
  have "table_index level a < 512" by (simp add: table_index_def)
  then have "boot_slot bi (512 * i + table_index level a) = table_slot m (ucast (pml4 bi)) (512 * i + table_index level a)"
    using assms(2,3) by (simp add: boot_tables_def)
  then show ?thesis by (simp add: table_slot_def assms(4) algebra_simps)
qed

lemma walk_table:
  assumes "tables_placed bi" "boot_tables bi m" "i < 3" "frame_of e = ucast (pml4 bi) + 4096 * of_nat i"
  shows "walk m (Suc (3 - i)) e a = (if table_index (3 - i) a = 0 then walk m (3 - i) (push_bit 12 (table_page bi + of_nat (Suc i)) OR 3) a else None)"
proof -
  let ?j = "table_index (3 - i) a"
  have j: "?j < 512" by (simp add: table_index_def)
  have le: "i \<le> 3" using assms(3) by simp
  note entry = walk_entry [OF assms(1,2) le assms(4), of "3 - i" a]
  show ?thesis
  proof (cases "?j = 0")
    case True
    have "boot_slot bi (512 * i) = ucast ((pml4 bi + 0x1000 * of_nat (Suc i)) OR 3)"
    proof -
      have "i = 0 \<or> i = 1 \<or> i = 2" using assms(3) by linarith
      then show ?thesis by (elim disjE) (simp_all add: boot_slot_def pdpt_def pd_def pt_def)
    qed
    also have "\<dots> = push_bit 12 (table_page bi + of_nat (Suc i)) OR 3"
      using next_table [OF assms(1), of "Suc i"] assms(3) by simp
    finally have slot: "boot_slot bi (512 * i + ?j) = push_bit 12 (table_page bi + of_nat (Suc i)) OR 3" using True by simp
    have "unat (table_page bi + of_nat (Suc i)) < 2 ^ 40"
      using table_page(2) [OF assms(1)] assms(3) by (simp add: unat_word_ariths unat_of_nat)
    then have "table_page bi + of_nat (Suc i) < 2 ^ 40" by (simp add: word_less_nat_alt)
    then show ?thesis
      using True frame_of_entry(2,3) [of "table_page bi + of_nat (Suc i)"] unfolding walk.simps entry slot Let_def by simp
  next
    case False
    have "512 * i + ?j \<noteq> 512 * k" for k
    proof
      assume "512 * i + ?j = 512 * k"
      then have "(512 * i + ?j) mod 512 = 0" by simp
      then show False using j False by simp
    qed
    from this [of 0] this [of 1] this [of 2] have "boot_slot bi (512 * i + ?j) = 0"
      using j assms(3) False by (simp add: boot_slot_def)
    then show ?thesis using False unfolding walk.simps entry Let_def by simp
  qed
qed

lemma walk_page:
  assumes "tables_placed bi" "boot_tables bi m" "frame_of e = ucast (pml4 bi) + 4096 * of_nat 3"
  shows "walk m (Suc 0) e a = Some (push_bit 12 (of_nat (table_index 0 a)) OR (a AND 0xFFF))"
proof -
  have j: "table_index 0 a < 512" by (simp add: table_index_def)
  have slot: "boot_slot bi (512 * 3 + table_index 0 a) = push_bit 12 (of_nat (table_index 0 a)) OR 3"
    using page_entry [OF j] by (simp add: boot_slot_def)
  have "unat (of_nat (table_index 0 a) :: u64) = table_index 0 a" using j by (simp add: unat_of_nat)
  then have "(of_nat (table_index 0 a) :: u64) < 2 ^ 40" using j by (simp add: word_less_nat_alt)
  note e = frame_of_entry [OF this]
  show ?thesis
    unfolding walk.simps walk_entry [OF assms(1,2) order_refl assms(3)] slot Let_def using e by simp
qed

lemma low_indices:
  assumes "canonical a"
  shows "a < 0x200000 \<longleftrightarrow> table_index 3 a = 0 \<and> table_index 2 a = 0 \<and> table_index 1 a = 0"
proof -
  have div_small: "x div k mod 512 = 0 \<longleftrightarrow> x < k" if "x < k * 512" "0 < k" for x k :: nat
    using that by (simp add: div_eq_0_iff less_mult_imp_div_less mult.commute)
  have indices: "table_index 3 a = unat a div 0x8000000000 mod 512" "table_index 2 a = unat a div 0x40000000 mod 512"
    "table_index 1 a = unat a div 0x200000 mod 512" by (simp_all add: table_index_def)
  show ?thesis
  proof (cases "a < 0x800000000000")
    case True
    then have "unat a < 0x800000000000" by (simp add: word_less_nat_alt)
    then have i3: "table_index 3 a = 0 \<longleftrightarrow> unat a < 0x8000000000"
      using div_small [of "unat a" "0x8000000000"] unfolding indices by simp
    have i2: "table_index 2 a = 0 \<longleftrightarrow> unat a < 0x40000000" if "unat a < 0x8000000000"
      using div_small [of "unat a" "0x40000000"] that unfolding indices by simp
    have i1: "table_index 1 a = 0 \<longleftrightarrow> unat a < 0x200000" if "unat a < 0x40000000"
      using div_small [of "unat a" "0x200000"] that unfolding indices by simp
    have low: "a < 0x200000 \<longleftrightarrow> unat a < 0x200000" by (simp only: word_less_nat_alt) simp
    consider "\<not> unat a < 0x8000000000" | "unat a < 0x8000000000" "\<not> unat a < 0x40000000" | "unat a < 0x40000000" by blast
    then show ?thesis
    proof cases
      case 1
      then have "\<not> unat a < 0x200000" by linarith
      then show ?thesis using i3 1 low by (simp only: simp_thms)
    next
      case 2
      then have "\<not> unat a < 0x200000" by linarith
      then show ?thesis using i2 [OF 2(1)] 2 low by (simp only: simp_thms)
    next
      case 3
      then have less: "unat a < 0x8000000000" by linarith
      then have "table_index 3 a = 0" "table_index 2 a = 0" using i2 [OF less] i3 3 by blast+
      then show ?thesis using i1 [OF 3] low by simp
    qed
  next
    case False
    then have "a \<ge> 0xFFFF800000000000" using assms by (simp add: canonical_def)
    then have "0xFFFF800000000000 \<le> unat a" by (simp add: word_le_nat_alt)
    moreover have "unat a < 2 ^ 64" by (rule unat_lt_64)
    ultimately have "0x1FFFF00 \<le> unat a div 0x8000000000" "unat a div 0x8000000000 < 0x2000000" by auto
    moreover have "q \<noteq> 512 * d" if "0x1FFFF00 \<le> q" "q < 0x2000000" for q d :: nat using that by (cases "d \<le> 65535") linarith+
    ultimately have "unat a div 0x8000000000 \<noteq> 512 * d" for d by blast
    then have "unat a div 0x8000000000 mod 512 \<noteq> 0" by (metis dvd_def mod_0_imp_dvd)
    moreover have "\<not> a < 0x200000" using False by (simp add: word_less_nat_alt)
    ultimately show ?thesis unfolding indices by blast
  qed
qed

lemma page_and_offset:
  assumes "a < 0x200000"
  shows "push_bit 12 (of_nat (table_index 0 a)) OR (a AND 0xFFF) = a"
proof -
  have "table_index 0 a = unat (drop_bit 12 a)"
    using assms unfolding unat_drop_bit_eq by (simp add: table_index_def drop_bit_eq_div word_less_nat_alt)
  then have "push_bit 12 (of_nat (table_index 0 a)) = push_bit 12 (drop_bit 12 a)" by simp
  moreover have "(0xFFF :: u64) = mask 12" by (simp add: mask_eq_exp_minus_1)
  then have "a AND 0xFFF = take_bit 12 a" by (simp only: take_bit_eq_mask)
  moreover have "push_bit 12 (drop_bit 12 a) OR take_bit 12 a = a"
    by (intro bit_word_eqI) (auto simp: bit_or_iff bit_push_bit_iff bit_take_bit_iff bit_drop_bit_eq)
  ultimately show ?thesis by simp
qed

lemma translate_boot:
  assumes "tables_placed bi" "boot_tables bi m"
  shows "translate m (ucast (pml4 bi)) a = (if a < 0x200000 then Some a else None)"
proof (cases "canonical a")
  case True
  have root: "frame_of (ucast (pml4 bi)) = ucast (pml4 bi) + 4096 * of_nat 0"
    using frame_of_table(1) [OF assms(1), of 0] table_page(1) [OF assms(1)] by simp
  have f: "frame_of (push_bit 12 (table_page bi + of_nat i) OR 3) = ucast (pml4 bi) + 4096 * of_nat i" if "i \<le> 3" for i
    using frame_of_table(2) [OF assms(1) that] .
  have w3: "walk m 4 (ucast (pml4 bi)) a = (if table_index 3 a = 0 then walk m 3 (push_bit 12 (table_page bi + of_nat 1) OR 3) a else None)"
    using walk_table [OF assms _ root, of a] by simp
  have w2: "walk m 3 (push_bit 12 (table_page bi + of_nat 1) OR 3) a = (if table_index 2 a = 0 then walk m 2 (push_bit 12 (table_page bi + of_nat 2) OR 3) a else None)"
    using walk_table [OF assms _ f [of 1], of a] by (simp add: numeral_eq_Suc)
  have w1: "walk m 2 (push_bit 12 (table_page bi + of_nat 2) OR 3) a = (if table_index 1 a = 0 then walk m 1 (push_bit 12 (table_page bi + of_nat 3) OR 3) a else None)"
    using walk_table [OF assms _ f [of 2], of a] by (simp add: numeral_eq_Suc)
  have w0: "walk m 1 (push_bit 12 (table_page bi + of_nat 3) OR 3) a = Some (push_bit 12 (of_nat (table_index 0 a)) OR (a AND 0xFFF))"
    using walk_page [OF assms f [of 3]] by simp
  show ?thesis
    using True low_indices [OF True] page_and_offset [of a] unfolding translate_def w3 w2 w1 w0 by simp
next
  case False
  then have "\<not> a < 0x200000" by (auto simp: canonical_def word_less_nat_alt word_le_nat_alt)
  with False show ?thesis by (simp add: translate_def)
qed

section \<open>Handing over\<close>

lemma store32_outside:
  "tables_placed bi \<Longrightarrow> k < 2048 \<Longrightarrow> \<not> in_region (ucast (pml4 bi)) 0x4000 x \<Longrightarrow> store32 m (pml4 bi + 8 * of_nat k) v x = m x"
proof -
  assume a: "tables_placed bi" "k < 2048" and x: "\<not> in_region (ucast (pml4 bi)) 0x4000 x"
  let ?t = "ucast (pml4 bi) :: u64"
  have "\<not> in_region (?t + 8 * of_nat k) 4 x"
  proof
    assume "in_region (?t + 8 * of_nat k) 4 x"
    then obtain i where i: "i < 4" "x = ?t + 8 * of_nat k + of_nat i" by (rule in_regionE)
    then have xk: "x = ?t + of_nat (8 * k + i)" by simp
    have "in_region ?t 0x4000 x"
      unfolding xk by (subst in_region_offset) (use i(1) a(2) in simp_all)
    with x show False ..
  qed
  then show ?thesis by (simp add: store32_def slot_address [OF a] store_bytes_outside)
qed

lemma fill_pt_outside:
  assumes "tables_placed bi" "\<not> in_region (ucast (pml4 bi)) 0x4000 x"
  shows "k + n \<le> 2048 \<Longrightarrow> fill_pt n v (pml4 bi + 8 * of_nat k) m x = m x"
proof (induction n arbitrary: k v m)
  case (Suc n)
  have forward: "pml4 bi + 8 * of_nat k + 8 = pml4 bi + 8 * of_nat (Suc k)" by (simp add: algebra_simps)
  have "k < 2048" using Suc.prems by simp
  then show ?case
    using Suc.IH [of "Suc k"] Suc.prems store32_outside [OF assms(1) _ assms(2)] unfolding fill_pt.simps forward by simp
qed simp

lemma page_tables_outside:
  assumes "tables_placed bi" "\<not> in_region (ucast (pml4 bi)) 0x4000 x"
  shows "page_tables bi m x = m x"
proof -
  have at: "pdpt bi = pml4 bi + 8 * of_nat 512" "pd bi = pml4 bi + 8 * of_nat 1024" "pt bi = pml4 bi + 8 * of_nat 1536"
    "pml4 bi = pml4 bi + 8 * of_nat 0"
    by (simp_all add: pdpt_def pd_def pt_def)
  note o = store32_outside [OF assms(1) _ assms(2)]
  have "store32 (store32 (store32 m (pml4 bi) a) (pdpt bi) b) (pd bi) c x = m x" for a b c
    using o [of 0 m a] o [of 512 "store32 m (pml4 bi) a" b] o [of 1024 "store32 (store32 m (pml4 bi) a) (pdpt bi) b" c]
    by (simp add: pdpt_def pd_def)
  then show ?thesis
    using fill_pt_outside [OF assms, of 1536 512] at(3) unfolding page_tables_def Let_def by simp
qed

lemma handed_over_eq:
  "handed_over bi eax ebx (c, s) =
    (boot_start64 bi (fst (boot_start bi eax ebx (c, s))),
     s\<lparr>boot_info_addr := (boot_info_addr s AND NOT 0xFFFFFFFF) OR ucast ebx, multiboot2_magic := eax, ram := page_tables bi (ram s)\<rparr>)"
  by (simp add: handed_over_def boot_start_def Let_def)

text \<open>C8: The boot code maps the first two megabytes of the address space to themselves and no other address: wherever the linker has put the four tables
  below 4 GB, page aligned and zero, the processor translates an address below 2 MB to itself and faults
  on every other.\<close>

theorem boot_maps_2MB:
  assumes "tables_placed bi" "tables_empty bi (ram s)" "(c', t) = handed_over bi eax ebx (c, s)"
  shows "translate (ram t) (cr3 c') a = (if a < 0x200000 then Some a else None)"
proof -
  have "boot_tables bi (page_tables bi (ram s))"
    using page_tables_slots [OF assms(1,2)] by (simp add: boot_tables_def)
  moreover have "ram t = page_tables bi (ram s)" "cr3 c' = ucast (pml4 bi)"
    using assms(3) by (simp_all add: handed_over_eq boot_start64_def boot_start_def Let_def)
  ultimately show ?thesis using translate_boot [OF assms(1)] by simp
qed

definition some_tables :: boot_image where
  "some_tables = \<lparr>pml4 = 0x101000, gdt64 = 0x105000, stack_top = 0x106010\<rparr>"

definition some_cpu :: boot_cpu where
  "some_cpu = \<lparr>cr0 = 0x11, cr3 = 0, cr4 = 0, efer = 0, gdtr_limit = 0, gdtr_base = 0, seg_cs = 0x10, seg_ds = 0x18, seg_es = 0x18,
     seg_fs = 0x18, seg_gs = 0x18, seg_ss = 0x18, boot_rsp = 0, boot_rbp = 0, boot_if = False\<rparr>"

lemma some_tables_placed: "tables_placed some_tables"
  by (simp add: tables_placed_def some_tables_def)

theorem boot_maps_2MB_witness:
  "\<exists>c t. handed_over some_tables 0x36d76289 0x1F0000 (some_cpu, intr_boot\<lparr>ram := \<lambda>a. 0\<rparr>) = (c, t)
    \<and> translate (ram t) (cr3 c) 0xB8000 = Some 0xB8000 \<and> translate (ram t) (cr3 c) 0x200000 = None"
proof -
  let ?s = "intr_boot\<lparr>ram := \<lambda>a. 0\<rparr>"
  have "tables_empty some_tables (ram ?s)"
    by (simp add: tables_empty_def table_slot_def read64_def bytes_at_def upt_conv_Cons)
  note maps = boot_maps_2MB [OF some_tables_placed this]
  obtain c t where ct: "handed_over some_tables 0x36d76289 0x1F0000 (some_cpu, ?s) = (c, t)" by (cases "handed_over some_tables 0x36d76289 0x1F0000 (some_cpu, ?s)")
  then show ?thesis using maps [OF ct [symmetric], of "0xB8000"] maps [OF ct [symmetric], of "0x200000"] by simp
qed

text \<open>From the entry point to the running kernel: when the static constructors return in a state the kernel can start on, the boot code
  ends in the halt of \<open>kernel_main\<close>, with every subsystem up.\<close>

lemma boot_kernel_runs:
  fixes u :: "'a intr_scheme"
  assumes "cpp_init call init_start init_end (snd (handed_over bi eax ebx p)) = ret u" "kernel_bootable mi u tg"
  shows "boot_kernel bi mi call init_start init_end eax ebx p = seq (seq (test_vga u) (test mi)) halt"
    and "runs (seq (test_vga u) (test mi)) (kernel_up mi u)"
  using assms test_vga_test_runs [OF assms(2)] by (simp_all add: boot_kernel_def kernel_main_def seq_assoc)

text \<open>C9: With what else the boot code hands over: paging, long mode and PAE are on and SSE is usable, interrupts are off, the stack pointer is
  page aligned, inside the 16 KB of the stack with more than 12 KB below it, the frame chain ends, the C++ code finds the pointer and the
  magic number of the boot loader in its variables, and nothing but the four tables has been written.\<close>

theorem boot_hands_over:
  assumes "tables_placed bi" "boot_info_addr s AND NOT 0xFFFFFFFF = 0" "unat (stack_top bi) + 0x4000 < 2 ^ 64"
    "(c', t) = handed_over bi eax ebx (c, s)"
  shows "bit (cr0 c') 31 \<and> bit (cr4 c') 5 \<and> bit (efer c') 8
    \<and> \<not> bit (cr0 c') 2 \<and> bit (cr0 c') 1 \<and> bit (cr4 c') 9 \<and> bit (cr4 c') 10 \<and> \<not> boot_if c'
    \<and> boot_rsp c' AND 0xFFF = 0 \<and> unat (stack_top bi) + 0x3000 < unat (boot_rsp c') \<and> unat (boot_rsp c') \<le> unat (stack_top bi) + 0x4000
    \<and> boot_rbp c' = 0 \<and> boot_info_addr t = ucast ebx \<and> multiboot2_magic t = eax
    \<and> (\<forall>a. \<not> in_region (ucast (pml4 bi)) 0x4000 a \<longrightarrow> ram t a = ram s a)"
proof -
  define top where "top = stack_top bi + 0x4000"
  have t: "boot_info_addr t = ucast ebx" "multiboot2_magic t = eax" "ram t = page_tables bi (ram s)"
    using assms(2,4) by (simp_all add: handed_over_eq)
  have c: "c' = boot_start64 bi (fst (boot_start bi eax ebx (c, s)))" using assms(4) by (simp add: handed_over_eq)
  have rsp: "boot_rsp c' = top AND 0xFFFFFFFFFFFFF000" "boot_rbp c' = 0" "\<not> boot_if c'"
    unfolding c by (simp_all add: boot_start64_def boot_start_def Let_def top_def)
  have m: "(0xFFFFFFFFFFFFF000 :: u64) = NOT (mask 12)" "(0xFFF :: u64) = mask 12" by (simp_all add: mask_eq_exp_minus_1)
  have floor: "unat (boot_rsp c') = unat top div 4096 * 4096" unfolding rsp(1) m by (rule page_floor)
  have top: "unat top = unat (stack_top bi) + 0x4000"
    using unat_add_fits [of "stack_top bi" "0x4000"] assms(3) by (simp add: top_def)
  have aligned: "boot_rsp c' AND 0xFFF = 0"
    unfolding rsp(1) m by (intro bit_word_eqI) (simp add: bit_and_iff bit_not_iff)
  have "cr0 c' = ((cr0 c OR push_bit 31 1) AND NOT (push_bit 2 1)) OR push_bit 1 1" "cr4 c' = (cr4 c OR push_bit 5 1) OR push_bit 9 3"
    "efer c' = efer c OR push_bit 8 1"
    unfolding c by (simp_all add: boot_start64_def boot_start_def Let_def)
  then have bits: "bit (cr0 c') 31" "bit (cr4 c') 5" "bit (efer c') 8" "\<not> bit (cr0 c') 2" "bit (cr0 c') 1" "bit (cr4 c') 9" "bit (cr4 c') 10"
    by (simp_all only: bit_or_iff bit_and_iff bit_not_iff bit_push_bit_iff bit_three) simp_all
  have "unat (stack_top bi) + 0x3000 < unat (boot_rsp c')" "unat (boot_rsp c') \<le> unat (stack_top bi) + 0x4000"
    using div_mult_mod_eq [of "unat top" 4096] mod_less_divisor [of 4096 "unat top"] unfolding floor top by linarith+
  then show ?thesis
    using bits rsp(2,3) aligned t page_tables_outside [OF assms(1)] by simp
qed

theorem boot_hands_over_witness:
  "\<exists>c t. handed_over some_tables 0x36d76289 0x1F0000 (some_cpu, intr_boot\<lparr>boot_info_addr := 0\<rparr>) = (c, t)
    \<and> boot_rsp c AND 0xFFF = 0 \<and> 0x109010 < unat (boot_rsp c) \<and> boot_info_addr t = 0x1F0000 \<and> multiboot2_magic t = 0x36d76289"
proof -
  obtain c t where ct: "handed_over some_tables 0x36d76289 0x1F0000 (some_cpu, intr_boot\<lparr>boot_info_addr := 0\<rparr>) = (c, t)"
    by (cases "handed_over some_tables 0x36d76289 0x1F0000 (some_cpu, intr_boot\<lparr>boot_info_addr := 0\<rparr>)")
  then show ?thesis using boot_hands_over [OF some_tables_placed _ _ ct [symmetric]] by (simp add: some_tables_def)
qed

section \<open>Segments\<close>

lemma gdt_words:
  assumes "bytes_at m b 40 = gdt64_bytes"
  shows "read64 m (b + 8) = 0x00209A0000000000" "read64 m (b + 16) = 0x0000920000000000"
    "read64 m (b + 24) = 0x0020FA0000000000" "read64 m (b + 32) = 0x0000F20000000000"
  using read64_part [of 1 40 m b] read64_part [of 2 40 m b] read64_part [of 3 40 m b] read64_part [of 4 40 m b] assms
  by (simp_all add: gdt64_bytes_def)

lemma gdt_descriptors:
  assumes "bytes_at m (gdtr_base c) 40 = gdt64_bytes" "gdtr_limit c = 39"
  shows "descriptor m c 0x08 = Some (gdt_entry 0x00209A0000000000)" "descriptor m c 0x10 = Some (gdt_entry 0x0000920000000000)"
    "descriptor m c 0x18 = Some (gdt_entry 0x0020FA0000000000)" "descriptor m c 0x20 = Some (gdt_entry 0x0000F20000000000)"
  using gdt_words [OF assms(1)] assms(2) by (simp_all add: descriptor_def)

lemma gate_selector: "gate_p (idt_gates mi v) \<noteq> 0 \<Longrightarrow> selector (idt_gates mi v) = 0x08"
  by (auto simp: idt_gates_def gate_def zero_entry_def split: if_splits)



section \<open>The memory the kernel gives out\<close>

text \<open>C10: The pages the kernel gives out are mostly out of reach: while the tables of the boot code are in use, no byte of any block that
  \<open>alloc_pages\<close> grants to a client is mapped, so the first access to it faults, and of the blocks of the kernel space exactly the bytes
  below 2 MB are.\<close>

theorem granted_blocks_unmapped:
  assumes "pmm_inv s0" "pmm_client im s0 s kbs ubs" "0x100000 \<le> kernel_space_start s0" "tables_placed bi" "boot_tables bi m"
  shows "(\<forall>(b, n) \<in> set ubs. \<forall>i < 4096 * unat n. translate m (ucast (pml4 bi)) (b + of_nat i) = None)
    \<and> (\<forall>(a, n) \<in> set kbs. \<forall>i < 4096 * unat n. translate m (ucast (pml4 bi)) (a + of_nat i) =
        (if unat a + i < 0x200000 then Some (a + of_nat i) else None))"
proof
  have v: "pmm_view s0 s kbs ubs" using pmm_client_view [OF assms(2,1)] .
  obtain k u where le: "unat (kernel_space_start s0) + 0x800000 + unat (non_kernel_space_length s0) < 2 ^ 64"
    using assms(1) by (rule pmm_invE) blast
  have start: "0x100000 \<le> unat (kernel_space_start s0)" using assms(3) by (simp add: word_le_nat_alt)
  have byte: "translate m (ucast (pml4 bi)) (a + of_nat i) = (if unat a + i < 0x200000 then Some (a + of_nat i) else None)"
    if "unat a + i < 2 ^ 64" for a i
    using translate_boot [OF assms(4,5), of "a + of_nat i"] unat_add_fits [OF that] by (simp add: word_less_nat_alt)
  show "\<forall>(b, n) \<in> set ubs. \<forall>i < 4096 * unat n. translate m (ucast (pml4 bi)) (b + of_nat i) = None"
    using user_block [OF v assms(1)] start le by (fastforce simp: byte)
  show "\<forall>(a, n) \<in> set kbs. \<forall>i < 4096 * unat n. translate m (ucast (pml4 bi)) (a + of_nat i) =
      (if unat a + i < 0x200000 then Some (a + of_nat i) else None)"
    using kernel_block [OF v assms(1)] le by (fastforce simp: byte)
qed

lemma two_spaces_first_user: "\<exists>t. alloc_pages two_spaces 1 = ret (0x900000, t)"
proof -
  note s = parts [OF two_spaces_inv]
  have "pages (user_part two_spaces) = pages (fresh 16)"
    by (simp add: user_part_def two_spaces_def pages_def used_def)
  then have part: "pages (user_part two_spaces) = {}" "ff_pages (user_part two_spaces) = 16" "non_kernel_space_start two_spaces = 0x900000"
    using s(8) by (simp_all add: user_part_def two_spaces_def user_pages_def)
  have free: "free_run {} 16 i (Suc 0) \<longleftrightarrow> i < 16" for i by (auto simp: free_run_def page_run_def)
  from ff_alloc_step [OF s(6), of 1] part s(7) obtain i g where
    g: "ff_alloc (user_part two_spaces) 1 = ret (page_addr 0x900000 i, g)" and i: "i < 16" "\<forall>j < i. \<not> j < 16"
    by (auto simp: free split: if_splits dest: spec [of _ 0])
  have "i = 0" using i by (cases i) auto
  then show ?thesis using g s(5) by (simp add: alloc_pages_def deref_def page_addr_def)
qed

theorem granted_blocks_unmapped_witness:
  "\<exists>s. pmm_client small_image two_spaces s [] [(0x900000, 1)]
    \<and> translate (page_tables some_tables (\<lambda>a. 0)) 0x101000 (0x900000 + of_nat 4095) = None"
proof -
  have "tables_empty some_tables (\<lambda>a. 0)"
    by (simp add: tables_empty_def table_slot_def read64_def bytes_at_def upt_conv_Cons)
  then have tables: "boot_tables some_tables (page_tables some_tables (\<lambda>a. 0))"
    using page_tables_slots [OF some_tables_placed] by (simp add: boot_tables_def)
  obtain t where "alloc_pages two_spaces 1 = ret (0x900000, t)" using two_spaces_first_user by blast
  from pmm_client.User [OF pmm_client.Start _ this] have c: "pmm_client small_image two_spaces t [] [(0x900000, 1)]" by simp
  have start: "0x100000 \<le> kernel_space_start two_spaces" by (simp add: two_spaces_def)
  have "translate (page_tables some_tables (\<lambda>a. 0)) (ucast (pml4 some_tables)) (0x900000 + of_nat i) = None" if "i < 4096" for i
    using conjunct1 [OF granted_blocks_unmapped [OF two_spaces_inv c start some_tables_placed tables]] that by simp
  from this [of 4095] c show ?thesis by (auto simp: some_tables_def)
qed

end
