(* ===== verification/Interrupt_Entry.thy ===== *)
theory Interrupt_Entry
  imports Interrupt_Props
begin

text \<open>
  The way into an interrupt handler and back: what the processor does when it delivers an interrupt through a gate of the table, the
  stubs of \<open>src/platform/x86_64/idt/idt.S\<close> (the macros \<open>IRQ\<close>, \<open>ISR_NO_ERROR_CODE\<close> and \<open>ISR_ERROR_CODE\<close> with \<open>pusha_64\<close>
  and \<open>popa_64\<close>), and the structure \<open>intr_context_t\<close> of \<open>intr.h\<close> through which a handler sees the interrupted registers. The registers
  are a record of their own, apart from the flags, which are a field of the machine already; the arithmetic flags,
  which \<open>xor\<close> sets and \<open>iretq\<close> restores, are not followed in between. The compiled C function a stub calls is an
  argument of the stub.
\<close>

section \<open>Registers\<close>

record cpu_regs =
  rax :: u64
  rbx :: u64
  rcx :: u64
  rdx :: u64
  rsi :: u64
  rdi :: u64
  rbp :: u64
  r8 :: u64
  r9 :: u64
  r10 :: u64
  r11 :: u64
  r12 :: u64
  r13 :: u64
  r14 :: u64
  r15 :: u64
  rip :: u64
  reg_cs :: u64
  rsp :: u64
  reg_ss :: u64

record intr_context_t =
  ctx_r15 :: u64
  ctx_r14 :: u64
  ctx_r13 :: u64
  ctx_r12 :: u64
  ctx_r11 :: u64
  ctx_r10 :: u64
  ctx_r9 :: u64
  ctx_r8 :: u64
  ctx_rbp :: u64
  ctx_rdi :: u64
  ctx_rsi :: u64
  ctx_rdx :: u64
  ctx_rcx :: u64
  ctx_rbx :: u64
  ctx_rax :: u64
  ctx_rip :: u64
  ctx_cs :: u64
  ctx_rflags :: u64
  ctx_rsp :: u64
  ctx_ss :: u64

text \<open>The members of the structure lie one after the other.\<close>

definition read_context :: "mem \<Rightarrow> addr \<Rightarrow> intr_context_t" where
  "read_context m a = \<lparr>ctx_r15 = read64 m a, ctx_r14 = read64 m (a + 8), ctx_r13 = read64 m (a + 16),
     ctx_r12 = read64 m (a + 24), ctx_r11 = read64 m (a + 32), ctx_r10 = read64 m (a + 40), ctx_r9 = read64 m (a + 48),
     ctx_r8 = read64 m (a + 56), ctx_rbp = read64 m (a + 64), ctx_rdi = read64 m (a + 72), ctx_rsi = read64 m (a + 80),
     ctx_rdx = read64 m (a + 88), ctx_rcx = read64 m (a + 96), ctx_rbx = read64 m (a + 104), ctx_rax = read64 m (a + 112),
     ctx_rip = read64 m (a + 120), ctx_cs = read64 m (a + 128), ctx_rflags = read64 m (a + 136),
     ctx_rsp = read64 m (a + 144), ctx_ss = read64 m (a + 152)\<rparr>"

section \<open>The stack\<close>

definition push :: "u64 \<Rightarrow> cpu_regs \<times> 'a intr_scheme \<Rightarrow> cpu_regs \<times> 'a intr_scheme" where
  "push v = (\<lambda>(r, s). (r\<lparr>rsp := rsp r - 8\<rparr>, s\<lparr>ram := store_bytes (ram s) (rsp r - 8) (le_bytes 8 (unat v))\<rparr>))"

definition pop_into :: "((u64 \<Rightarrow> u64) \<Rightarrow> cpu_regs \<Rightarrow> cpu_regs) \<Rightarrow> cpu_regs \<times> 'a intr_scheme \<Rightarrow> cpu_regs \<times> 'a intr_scheme" where
  "pop_into update = (\<lambda>(r, s). (update (\<lambda>_. read64 (ram s) (rsp r)) (r\<lparr>rsp := rsp r + 8\<rparr>), s))"

definition push_reg :: "(cpu_regs \<Rightarrow> u64) \<Rightarrow> cpu_regs \<times> 'a intr_scheme \<Rightarrow> cpu_regs \<times> 'a intr_scheme" where
  "push_reg reg p = push (reg (fst p)) p"

definition pusha_64 :: "cpu_regs \<times> 'a intr_scheme \<Rightarrow> cpu_regs \<times> 'a intr_scheme" where
  "pusha_64 = fold push_reg [rax, rbx, rcx, rdx, rsi, rdi, rbp, r8, r9, r10, r11, r12, r13, r14, r15]"

definition popa_64 :: "cpu_regs \<times> 'a intr_scheme \<Rightarrow> cpu_regs \<times> 'a intr_scheme" where
  "popa_64 = fold pop_into [r15_update, r14_update, r13_update, r12_update, r11_update, r10_update, r9_update, r8_update,
     rbp_update, rdi_update, rsi_update, rdx_update, rcx_update, rbx_update, rax_update]"

text \<open>\<open>push 40(%rsp)\<close>: the address is computed before the stack pointer moves.\<close>

definition push_40 :: "cpu_regs \<times> 'a intr_scheme \<Rightarrow> cpu_regs \<times> 'a intr_scheme" where
  "push_40 p = push (read64 (ram (snd p)) (rsp (fst p) + 40)) p"

section \<open>The processor\<close>

text \<open>
  Delivery in long mode at the privilege level of the kernel: the stack pointer is aligned to 16 bytes, the frame and, for some
  exceptions, an error code are pushed, and control goes to the address in the gate. An interrupt gate also clears the
  interrupt flag.
\<close>

definition deliver :: "nat \<Rightarrow> u64 option \<Rightarrow> cpu_regs \<times> 'a intr_scheme \<Rightarrow> (cpu_regs \<times> 'a intr_scheme) exec" where
  "deliver v err = (\<lambda>(r, s).
     let g = idt s ! v in
     if gate_p g = 0 then fail No_gate
     else
       let p = (r\<lparr>rsp := rsp r AND NOT 0xF\<rparr>, s);
           p = push (reg_ss r) p; p = push (rsp r) p; p = push (cpu_rflags s) p; p = push (reg_cs r) p; p = push (rip r) p;
           (r, s) = (case err of None \<Rightarrow> p | Some e \<Rightarrow> push e p)
       in ret (r\<lparr>rip := gate_target g, reg_cs := ucast (selector g)\<rparr>,
               s\<lparr>cpu_rflags := cpu_rflags s AND NOT (if gate_type g = 0xE then 0x34300 else 0x34100)\<rparr>))"

definition iretq :: "cpu_regs \<times> 'a intr_scheme \<Rightarrow> cpu_regs \<times> 'a intr_scheme" where
  "iretq = (\<lambda>(r, s).
     (r\<lparr>rip := read64 (ram s) (rsp r), reg_cs := read64 (ram s) (rsp r + 8),
        rsp := read64 (ram s) (rsp r + 24), reg_ss := read64 (ram s) (rsp r + 32)\<rparr>,
      s\<lparr>cpu_rflags := read64 (ram s) (rsp r + 16)\<rparr>))"

section \<open>The stubs\<close>

type_synonym 'a c_function = "cpu_regs \<times> 'a intr_scheme \<Rightarrow> (cpu_regs \<times> 'a intr_scheme) exec"

text \<open>\<open>call\<close> pushes the address behind itself, which the function takes off the stack when it returns.\<close>

definition call_c :: "u64 \<Rightarrow> 'a c_function \<Rightarrow> 'a c_function" where
  "call_c return_address f p = seq (f (push return_address p)) (\<lambda>(r, s). ret (r\<lparr>rsp := rsp r + 8\<rparr>, s))"

definition leave_stub :: "cpu_regs \<times> 'a intr_scheme \<Rightarrow> cpu_regs \<times> 'a intr_scheme" where
  "leave_stub p = iretq (popa_64 p)"

definition stub_args :: "nat \<Rightarrow> u64 \<Rightarrow> cpu_regs \<times> 'a intr_scheme \<Rightarrow> cpu_regs \<times> 'a intr_scheme" where
  "stub_args no err = (\<lambda>(r, s). (r\<lparr>rdi := of_nat no, rsi := rsp r, rdx := err, rbp := 0\<rparr>, s))"

definition IRQ_stub :: "nat \<Rightarrow> u64 \<Rightarrow> 'a c_function \<Rightarrow> 'a c_function" where
  "IRQ_stub no return_address handler = (\<lambda>(r, s).
     let p = (r, intr_disable s); p = pusha_64 p; p = stub_args no 0 p
     in seq (call_c return_address handler p) (\<lambda>p. ret (leave_stub p)))"

definition ISR_NO_ERROR_CODE :: "nat \<Rightarrow> u64 \<Rightarrow> 'a c_function \<Rightarrow> 'a c_function" where
  "ISR_NO_ERROR_CODE no return_address handler = (\<lambda>(r, s).
     let p = (r, intr_disable s); p = pusha_64 p; p = stub_args no 0 p
     in seq (call_c return_address handler p) (\<lambda>p. ret (leave_stub p)))"

definition ISR_ERROR_CODE :: "nat \<Rightarrow> u64 \<Rightarrow> 'a c_function \<Rightarrow> 'a c_function" where
  "ISR_ERROR_CODE no return_address handler = (\<lambda>(r, s).
     let p = (r, intr_disable s);
         p = push_40 p; p = push_40 p; p = push_40 p; p = push_40 p; p = push_40 p;
         p = pusha_64 p;
         p = stub_args no (read64 (ram (snd p)) (rsp (fst p) + 160)) p
     in seq (call_c return_address handler p) (\<lambda>p. ret (leave_stub p)))"

text \<open>The exceptions with the macro for an error code.\<close>

definition error_stub :: "nat \<Rightarrow> bool" where
  "error_stub no \<longleftrightarrow> no \<in> set [8, 10, 11, 12, 13, 14, 15, 17]"

definition isr_code :: "nat \<Rightarrow> u64 \<Rightarrow> 'a c_function \<Rightarrow> 'a c_function" where
  "isr_code no = (if error_stub no then ISR_ERROR_CODE no else ISR_NO_ERROR_CODE no)"

section \<open>The kernel behind the stubs\<close>

text \<open>
  The C functions as compiled: the arguments are in \<open>rdi\<close>, \<open>rsi\<close> and \<open>rdx\<close>; \<open>clobber\<close> says what the compiler's code leaves in the
  registers.
\<close>

definition compiled_irq :: "'b image_scheme \<Rightarrow> (cpu_regs \<Rightarrow> cpu_regs) \<Rightarrow> 'a c_function" where
  "compiled_irq im clobber = (\<lambda>(r, s). seq (irq_handler im (ucast (rdi r)) (rsi r) s) (\<lambda>s. ret (clobber r, s)))"

definition compiled_isr :: "'b image_scheme \<Rightarrow> (cpu_regs \<Rightarrow> cpu_regs) \<Rightarrow> 'a c_function" where
  "compiled_isr im clobber = (\<lambda>(r, s). seq (isr_handler im (ucast (rdi r)) (rsi r) (rdx r) s) (\<lambda>s. ret (clobber r, s)))"

end
