(* ===== verification/Interrupt_Entry_Props.thy ===== *)
theory Interrupt_Entry_Props
  imports Interrupt_Entry
begin

text \<open>
  Interrupts from the side of the interrupted program: the handler sees its registers in the structure of \<open>intr.h\<close>, and when the
  handler keeps to the calling convention the program goes on with the registers it had. What is lost is what it
  kept below its stack pointer.
\<close>

section \<open>Words on the stack\<close>

definition qwords :: "u64 list \<Rightarrow> u8 list" where
  "qwords vs = concat (map (\<lambda>v. le_bytes 8 (unat v)) vs)"

lemma qwords_simps [simp]:
  "qwords [] = []" "qwords (v # vs) = le_bytes 8 (unat v) @ qwords vs" "qwords (vs @ ws) = qwords vs @ qwords ws"
  "length (qwords vs) = 8 * length vs"
  by (simp_all add: qwords_def) (induction vs; simp add: qwords_def)

lemma take_drop_qwords: "i < length vs \<Longrightarrow> take 8 (drop (8 * i) (qwords vs)) = le_bytes 8 (unat (vs ! i))"
proof (induction vs arbitrary: i)
  case (Cons v vs)
  then show ?case by (cases i) simp_all
qed simp

lemma read_qword:
  assumes "bytes_at m a (8 * length vs) = qwords vs" "i < length vs"
  shows "read64 m (a + 8 * of_nat i) = vs ! i"
  using read64_part [of i "8 * length vs" m a] assms unat_lt_64 [of "vs ! i"]
  by (simp add: take_drop_qwords le_nat_le_bytes)

lemma push_words:
  "8 * length vs \<le> 2 ^ 64 \<Longrightarrow> fold push vs (r, s) =
    (r\<lparr>rsp := rsp r - 8 * of_nat (length vs)\<rparr>, s\<lparr>ram := store_bytes (ram s) (rsp r - 8 * of_nat (length vs)) (qwords (rev vs))\<rparr>)"
proof (induction vs arbitrary: r s)
  case (Cons v vs)
  let ?a = "rsp r - 8 - 8 * of_nat (length vs)"
  have "store_bytes (store_bytes (ram s) (?a + of_nat (length (qwords (rev vs)))) (le_bytes 8 (unat v))) ?a (qwords (rev vs))
      = store_bytes (ram s) ?a (qwords (rev vs) @ le_bytes 8 (unat v))"
    using Cons.prems by (intro store_bytes_tail_head) simp
  then show ?case using Cons by (simp add: push_def algebra_simps)
qed simp

text \<open>The registers in the order in which \<open>pusha_64\<close> pushes them.\<close>

definition saved :: "cpu_regs \<Rightarrow> u64 list" where
  "saved r = [rax r, rbx r, rcx r, rdx r, rsi r, rdi r, rbp r, r8 r, r9 r, r10 r, r11 r, r12 r, r13 r, r14 r, r15 r]"

lemma pusha_words: "pusha_64 (r, s) = fold push (saved r) (r, s)"
  by (simp add: pusha_64_def push_reg_def saved_def push_def)

definition frame :: "cpu_regs \<Rightarrow> u64 \<Rightarrow> u64 list" where
  "frame r flags = [reg_ss r, rsp r, flags, reg_cs r, rip r]"

definition top_of_stack :: "cpu_regs \<Rightarrow> u64" where
  "top_of_stack r = rsp r AND NOT 0xF"

section \<open>Into the handler\<close>

definition context_of :: "cpu_regs \<Rightarrow> u64 \<Rightarrow> intr_context_t" where
  "context_of r flags = \<lparr>ctx_r15 = r15 r, ctx_r14 = r14 r, ctx_r13 = r13 r, ctx_r12 = r12 r, ctx_r11 = r11 r,
     ctx_r10 = r10 r, ctx_r9 = r9 r, ctx_r8 = r8 r, ctx_rbp = rbp r, ctx_rdi = rdi r, ctx_rsi = rsi r, ctx_rdx = rdx r,
     ctx_rcx = rcx r, ctx_rbx = rbx r, ctx_rax = rax r, ctx_rip = rip r, ctx_cs = reg_cs r, ctx_rflags = flags,
     ctx_rsp = rsp r, ctx_ss = reg_ss r\<rparr>"

definition context_words :: "cpu_regs \<Rightarrow> u64 \<Rightarrow> u64 list" where
  "context_words r flags = rev (saved r) @ rev (frame r flags)"

lemma context_words_read:
  assumes "bytes_at m a 160 = qwords (context_words r flags)"
  shows "read_context m a = context_of r flags"
proof -
  have "read64 m (a + 8 * of_nat i) = context_words r flags ! i" if "i < 20" for i
    using read_qword [of m a "context_words r flags" i] assms that by (simp add: context_words_def saved_def frame_def)
  from this [of 0] this [of 1] this [of 2] this [of 3] this [of 4] this [of 5] this [of 6] this [of 7] this [of 8]
    this [of 9] this [of 10] this [of 11] this [of 12] this [of 13] this [of 14] this [of 15] this [of 16]
    this [of 17] this [of 18] this [of 19]
  show ?thesis by (simp add: read_context_def context_of_def context_words_def saved_def frame_def)
qed

text \<open>The flags a handler runs with.\<close>

definition masked_flags :: "nat \<Rightarrow> 'a intr_scheme \<Rightarrow> u64" where
  "masked_flags v s = (cpu_rflags s AND NOT (if gate_type (idt s ! v) = 0xE then 0x34300 else 0x34100)) AND NOT 0x200"

lemma deliver_plain:
  assumes "gate_p (idt s ! v) \<noteq> 0"
  shows "deliver v None (r, s) = ret
    (r\<lparr>rip := gate_target (idt s ! v), reg_cs := ucast (selector (idt s ! v)), rsp := top_of_stack r - 40\<rparr>,
     s\<lparr>ram := store_bytes (ram s) (top_of_stack r - 40) (qwords (rev (frame r (cpu_rflags s)))),
       cpu_rflags := cpu_rflags s AND NOT (if gate_type (idt s ! v) = 0xE then 0x34300 else 0x34100)\<rparr>)"
proof -
  have stack: "push (rip r) (push (reg_cs r) (push (cpu_rflags s) (push (rsp r) (push (reg_ss r) (r\<lparr>rsp := rsp r AND NOT 0xF\<rparr>, s)))))
      = (r\<lparr>rsp := top_of_stack r - 40\<rparr>, s\<lparr>ram := store_bytes (ram s) (top_of_stack r - 40) (qwords (rev (frame r (cpu_rflags s))))\<rparr>)"
    using push_words [of "frame r (cpu_rflags s)" "r\<lparr>rsp := top_of_stack r\<rparr>" s] by (simp add: frame_def top_of_stack_def)
  show ?thesis
    unfolding deliver_def Let_def prod.case stack option.case using assms by simp
qed

lemma deliver_error:
  assumes "gate_p (idt s ! v) \<noteq> 0"
  shows "deliver v (Some e) (r, s) = ret
    (r\<lparr>rip := gate_target (idt s ! v), reg_cs := ucast (selector (idt s ! v)), rsp := top_of_stack r - 48\<rparr>,
     s\<lparr>ram := store_bytes (ram s) (top_of_stack r - 48) (qwords (e # rev (frame r (cpu_rflags s)))),
       cpu_rflags := cpu_rflags s AND NOT (if gate_type (idt s ! v) = 0xE then 0x34300 else 0x34100)\<rparr>)"
proof -
  have stack: "push e (push (rip r) (push (reg_cs r) (push (cpu_rflags s) (push (rsp r) (push (reg_ss r) (r\<lparr>rsp := rsp r AND NOT 0xF\<rparr>, s))))))
      = (r\<lparr>rsp := top_of_stack r - 48\<rparr>, s\<lparr>ram := store_bytes (ram s) (top_of_stack r - 48) (qwords (e # rev (frame r (cpu_rflags s))))\<rparr>)"
    using push_words [of "frame r (cpu_rflags s) @ [e]" "r\<lparr>rsp := top_of_stack r\<rparr>" s] by (simp add: frame_def top_of_stack_def)
  show ?thesis
    unfolding deliver_def Let_def prod.case stack option.case using assms by simp
qed

text \<open>Five times \<open>push 40(%rsp)\<close> copies the frame.\<close>

definition stack_is :: "u64 list \<Rightarrow> cpu_regs \<times> 'a intr_scheme \<Rightarrow> bool" where
  "stack_is ws p \<longleftrightarrow> bytes_at (ram (snd p)) (rsp (fst p)) (8 * length ws) = qwords ws"

lemma push_stack:
  assumes "bytes_at (ram s) (rsp r) (8 * length ws) = qwords ws" "8 * length (v # ws) \<le> 2 ^ 64"
  shows "bytes_at (ram (snd (push v (r, s)))) (rsp (fst (push v (r, s)))) (8 * length (v # ws)) = qwords (v # ws)"
proof -
  let ?m = "store_bytes (ram s) (rsp r - 8) (le_bytes 8 (unat v))"
  have "bytes_at ?m (rsp r - 8) (8 + 8 * length ws) = bytes_at ?m (rsp r - 8) 8 @ bytes_at ?m (rsp r) (8 * length ws)"
    by (simp add: bytes_at_add)
  moreover have "bytes_at ?m (rsp r - 8) 8 = le_bytes 8 (unat v)"
    using bytes_at_store_bytes [of "le_bytes 8 (unat v)" "ram s" "rsp r - 8"] by simp
  moreover have "bytes_at ?m (rsp r) (8 * length ws) = bytes_at (ram s) (rsp r) (8 * length ws)"
  proof (rule bytes_at_cong)
    fix x assume x: "in_region (rsp r) (8 * length ws) x"
    then obtain i where i: "i < 8 * length ws" "i < 2 ^ 64" "x = rsp r + of_nat i" by (rule in_regionE)
    then have x: "x = (rsp r - 8) + of_nat (8 + i)" by simp
    have less: "8 + i < 2 ^ 64" using i(1) assms(2) by simp
    have "\<not> in_region (rsp r - 8) 8 x" unfolding x in_region_offset [OF less] by simp
    then show "?m x = ram s x" by (simp add: store_bytes_outside)
  qed (use assms(2) in simp)
  ultimately show ?thesis using assms(1) by (simp add: push_def)
qed

lemma push_40_step:
  assumes "stack_is ws p" "5 < length ws" "length ws < 20" "ws ! 5 = v"
  shows "push_40 p = push v p \<and> stack_is (v # ws) (push v p)"
  using assms read_qword [of "ram (snd p)" "rsp (fst p)" ws 5] push_stack [of "snd p" "fst p" ws v]
  by (simp add: push_40_def stack_is_def)

lemma push_40_frame:
  assumes "stack_is (e # rev (frame x flags)) p"
  shows "push_40 (push_40 (push_40 (push_40 (push_40 p)))) = fold push (frame x flags) p"
proof -
  define w where "w = [e, rip x, reg_cs x, flags, rsp x, reg_ss x]"
  have w: "stack_is w p" using assms by (simp add: w_def frame_def)
  have s1: "push_40 p = push (reg_ss x) p \<and> stack_is (reg_ss x # w) (push (reg_ss x) p)"
    by (rule push_40_step [OF w]) (simp_all add: w_def)
  have s2: "push_40 (push (reg_ss x) p) = push (rsp x) (push (reg_ss x) p)
      \<and> stack_is (rsp x # reg_ss x # w) (push (rsp x) (push (reg_ss x) p))"
    by (rule push_40_step [OF conjunct2 [OF s1]]) (simp_all add: w_def)
  have s3: "push_40 (push (rsp x) (push (reg_ss x) p)) = push flags (push (rsp x) (push (reg_ss x) p))
      \<and> stack_is (flags # rsp x # reg_ss x # w) (push flags (push (rsp x) (push (reg_ss x) p)))"
    by (rule push_40_step [OF conjunct2 [OF s2]]) (simp_all add: w_def)
  have s4: "push_40 (push flags (push (rsp x) (push (reg_ss x) p))) = push (reg_cs x) (push flags (push (rsp x) (push (reg_ss x) p)))
      \<and> stack_is (reg_cs x # flags # rsp x # reg_ss x # w) (push (reg_cs x) (push flags (push (rsp x) (push (reg_ss x) p))))"
    by (rule push_40_step [OF conjunct2 [OF s3]]) (simp_all add: w_def)
  have s5: "push_40 (push (reg_cs x) (push flags (push (rsp x) (push (reg_ss x) p))))
      = push (rip x) (push (reg_cs x) (push flags (push (rsp x) (push (reg_ss x) p))))"
    by (rule conjunct1 [OF push_40_step [OF conjunct2 [OF s4]]]) (simp_all add: w_def)
  show ?thesis using s1 s2 s3 s4 s5 by (simp add: frame_def)
qed

text \<open>The state in which the handler is called: \<open>ws\<close> are the words on the stack above the return address.\<close>

definition entry_state :: "nat \<Rightarrow> u64 \<Rightarrow> u64 \<Rightarrow> u64 \<Rightarrow> u64 list \<Rightarrow> cpu_regs \<Rightarrow> 'a intr_scheme \<Rightarrow> cpu_regs \<times> 'a intr_scheme" where
  "entry_state v depth ra err ws r s =
     (r\<lparr>rip := gate_target (idt s ! v), reg_cs := ucast (selector (idt s ! v)), rsp := top_of_stack r - depth - 8,
        rdi := of_nat v, rsi := top_of_stack r - depth, rdx := err, rbp := 0\<rparr>,
      s\<lparr>cpu_rflags := masked_flags v s, ram := store_bytes (ram s) (top_of_stack r - depth - 8) (qwords (ra # ws))\<rparr>)"

lemma stub_prefix:
  "push ra (stub_args v err (pusha_64 (r, s))) =
    (r\<lparr>rsp := rsp r - 128, rdi := of_nat v, rsi := rsp r - 120, rdx := err, rbp := 0\<rparr>,
     s\<lparr>ram := store_bytes (ram s) (rsp r - 128) (qwords (ra # rev (saved r)))\<rparr>)"
proof -
  have "store_bytes (store_bytes (ram s) (rsp r - 128 + of_nat (length (le_bytes 8 (unat ra)))) (qwords (rev (saved r))))
      (rsp r - 128) (le_bytes 8 (unat ra)) = store_bytes (ram s) (rsp r - 128) (le_bytes 8 (unat ra) @ qwords (rev (saved r)))"
    by (intro store_bytes_tail_head) (simp add: saved_def)
  then show ?thesis
    unfolding pusha_words using push_words [of "saved r" r s]
    by (simp add: saved_def stub_args_def push_def del: fold_simps)
qed

lemma saved_same [simp]: "saved (r\<lparr>rip := a\<rparr>) = saved r" "saved (r\<lparr>reg_cs := a\<rparr>) = saved r" "saved (r\<lparr>rsp := a\<rparr>) = saved r"
  by (simp_all add: saved_def)

lemma stack_lengths [simp]: "length (saved r) = 15" "length (frame r flags) = 5" "length (context_words r flags) = 20"
  by (simp_all add: saved_def frame_def context_words_def)

lemma irq_entry:
  assumes "gate_p (idt s ! v) \<noteq> 0"
  shows "seq (deliver v None (r, s)) (ISR_NO_ERROR_CODE v ra f) =
    seq (f (entry_state v 160 ra 0 (context_words r (cpu_rflags s)) r s)) (\<lambda>(r', t). ret (leave_stub (r'\<lparr>rsp := rsp r' + 8\<rparr>, t)))"
proof -
  let ?ws = "rev (frame r (cpu_rflags s))" and ?top = "top_of_stack r"
  have "store_bytes (store_bytes (ram s) (?top - 168 + of_nat (length (qwords (ra # rev (saved r))))) (qwords ?ws))
      (?top - 168) (qwords (ra # rev (saved r))) = store_bytes (ram s) (?top - 168) (qwords (ra # rev (saved r)) @ qwords ?ws)"
    by (intro store_bytes_tail_head) simp
  then have merged: "store_bytes (store_bytes (ram s) (?top - 40) (qwords ?ws)) (?top - 168) (qwords (ra # rev (saved r)))
      = store_bytes (ram s) (?top - 168) (qwords (ra # context_words r (cpu_rflags s)))"
    by (simp add: context_words_def)
  show ?thesis
    unfolding deliver_plain [OF assms] seq_ret ISR_NO_ERROR_CODE_def prod.case Let_def call_c_def seq_assoc intr_disable_def
      stub_prefix entry_state_def
    using merged by (simp add: masked_flags_def case_prod_unfold del: qwords_simps)
qed

lemma pusha_state:
  "pusha_64 (r, s) = (r\<lparr>rsp := rsp r - 120\<rparr>, s\<lparr>ram := store_bytes (ram s) (rsp r - 120) (qwords (rev (saved r)))\<rparr>)"
  unfolding pusha_words using push_words [of "saved r" r s] by (simp del: fold_simps)

lemma store_qwords_below:
  "8 * (length vs + length ws) \<le> 2 ^ 64 \<Longrightarrow> b = a + 8 * of_nat (length vs) \<Longrightarrow>
    store_bytes (store_bytes m b (qwords ws)) a (qwords vs) = store_bytes m a (qwords (vs @ ws))"
  using store_bytes_tail_head [of "qwords vs" "qwords ws" m a] by (simp add: algebra_simps)

lemma isr_entry:
  assumes "gate_p (idt s ! v) \<noteq> 0"
  shows "seq (deliver v (Some e) (r, s)) (ISR_ERROR_CODE v ra f) =
    seq (f (entry_state v 208 ra e (context_words r (cpu_rflags s) @ e # rev (frame r (cpu_rflags s))) r s))
      (\<lambda>(r', t). ret (leave_stub (r'\<lparr>rsp := rsp r' + 8\<rparr>, t)))"
proof -
  let ?fr = "frame r (cpu_rflags s)" and ?top = "top_of_stack r"
  let ?r = "r\<lparr>rip := gate_target (idt s ! v), reg_cs := ucast (selector (idt s ! v)), rsp := ?top - 48\<rparr>"
  let ?s = "s\<lparr>ram := store_bytes (ram s) (?top - 48) (qwords (e # rev ?fr)), cpu_rflags := masked_flags v s\<rparr>"
  have "stack_is (e # rev ?fr) (?r, ?s)"
    using bytes_at_store_bytes [of "qwords (e # rev ?fr)" "ram s" "?top - 48"] by (simp add: stack_is_def del: qwords_simps(1-3))
  then have copies: "push_40 (push_40 (push_40 (push_40 (push_40 (?r, ?s))))) =
      (?r\<lparr>rsp := ?top - 88\<rparr>, ?s\<lparr>ram := store_bytes (ram s) (?top - 88) (qwords (rev ?fr @ e # rev ?fr))\<rparr>)"
    using push_40_frame [of e r "cpu_rflags s" "(?r, ?s)"] push_words [of ?fr ?r ?s]
      store_qwords_below [of "rev ?fr" "e # rev ?fr" "?top - 48" "?top - 88" "ram s"]
    by (simp del: qwords_simps(1-3) fold_simps)
  let ?p = "(?r\<lparr>rsp := ?top - 88\<rparr>, ?s\<lparr>ram := store_bytes (ram s) (?top - 88) (qwords (rev ?fr @ e # rev ?fr))\<rparr>)"
  have words: "store_bytes (store_bytes (ram s) (?top - 88) (qwords (rev ?fr @ e # rev ?fr))) (?top - 208) (qwords (rev (saved r)))
      = store_bytes (ram s) (?top - 208) (qwords (context_words r (cpu_rflags s) @ e # rev ?fr))"
    using store_qwords_below [of "rev (saved r)" "rev ?fr @ e # rev ?fr" "?top - 88" "?top - 208" "ram s"]
    by (simp add: context_words_def del: qwords_simps(1-3))
  have code: "read64 (ram (snd (pusha_64 ?p))) (rsp (fst (pusha_64 ?p)) + 160) = e"
    using words read_qword [of "store_bytes (ram s) (?top - 208) (qwords (context_words r (cpu_rflags s) @ e # rev ?fr))" "?top - 208"
        "context_words r (cpu_rflags s) @ e # rev ?fr" 20]
      bytes_at_store_bytes [of "qwords (context_words r (cpu_rflags s) @ e # rev ?fr)" "ram s" "?top - 208"]
    by (simp add: pusha_state nth_append del: qwords_simps(1-3))
  have all: "store_bytes (store_bytes (ram s) (?top - 88) (qwords (rev ?fr @ e # rev ?fr))) (?top - 216) (qwords (ra # rev (saved r)))
      = store_bytes (ram s) (?top - 216) (qwords (ra # context_words r (cpu_rflags s) @ e # rev ?fr))"
    using store_qwords_below [of "ra # rev (saved r)" "rev ?fr @ e # rev ?fr" "?top - 88" "?top - 216" "ram s"]
    by (simp add: context_words_def del: qwords_simps(1-3))
  have masked: "intr_disable (s\<lparr>ram := store_bytes (ram s) (?top - 48) (qwords (e # rev ?fr)),
      cpu_rflags := cpu_rflags s AND NOT (if gate_type (idt s ! v) = 0xE then 0x34300 else 0x34100)\<rparr>) = ?s"
    by (simp add: intr_disable_def masked_flags_def del: qwords_simps)
  show ?thesis
    unfolding deliver_error [OF assms] seq_ret ISR_ERROR_CODE_def prod.case Let_def call_c_def seq_assoc masked copies code
      stub_prefix entry_state_def
    using all by (simp add: case_prod_unfold del: qwords_simps)
qed

section \<open>And back\<close>

definition regs_of :: "intr_context_t \<Rightarrow> cpu_regs" where
  "regs_of c = \<lparr>rax = ctx_rax c, rbx = ctx_rbx c, rcx = ctx_rcx c, rdx = ctx_rdx c, rsi = ctx_rsi c, rdi = ctx_rdi c,
     rbp = ctx_rbp c, r8 = ctx_r8 c, r9 = ctx_r9 c, r10 = ctx_r10 c, r11 = ctx_r11 c, r12 = ctx_r12 c, r13 = ctx_r13 c,
     r14 = ctx_r14 c, r15 = ctx_r15 c, rip = ctx_rip c, reg_cs = ctx_cs c, rsp = ctx_rsp c, reg_ss = ctx_ss c\<rparr>"

lemma regs_of_context [simp]: "regs_of (context_of r flags) = r"
  by (simp add: regs_of_def context_of_def)

lemma ctx_rflags_context [simp]: "ctx_rflags (context_of r flags) = flags"
  by (simp add: context_of_def)

text \<open>The end of a stub loads all registers from the structure on the stack, whatever the handler left in them.\<close>

lemma leave_stub_context:
  "leave_stub (r, t) = (regs_of (read_context (ram t) (rsp r)), t\<lparr>cpu_rflags := ctx_rflags (read_context (ram t) (rsp r))\<rparr>)"
  by (simp add: leave_stub_def popa_64_def pop_into_def iretq_def regs_of_def read_context_def ac_simps)

section \<open>The handler and the interrupted program\<close>

text \<open>The state at the first instruction of the handler; \<open>depth\<close> is what lies on the stack above its return address.\<close>

definition at_entry :: "nat \<Rightarrow> u64 option \<Rightarrow> cpu_regs \<Rightarrow> 'a intr_scheme \<Rightarrow> cpu_regs \<Rightarrow> 'a intr_scheme \<Rightarrow> bool" where
  "at_entry v err r s re se \<longleftrightarrow>
     (let depth = (if err = None then 160 else 208) in
       read_context (ram se) (rsi re) = context_of r (cpu_rflags s)
       \<and> rdi re = of_nat v \<and> rdx re = (case err of None \<Rightarrow> 0 | Some e \<Rightarrow> e) \<and> rip re = gate_target (idt s ! v)
       \<and> rsp re + 8 = rsi re \<and> rsi re = top_of_stack r - of_nat depth \<and> rsi re AND 0xF = 0
       \<and> se = s\<lparr>cpu_rflags := masked_flags v s, ram := ram se\<rparr>
       \<and> (\<forall>a. \<not> in_region (rsp re) (depth + 8) a \<longrightarrow> ram se a = ram s a))"

lemma masked_off: "\<not> bit (masked_flags v s) 9"
  by (simp add: masked_flags_def bit_and_iff bit_not_iff bit_numeral_rec)

lemma at_entryD:
  assumes "at_entry v err r s re se"
  shows "read_context (ram se) (rsi re) = context_of r (cpu_rflags s)" "rdi re = of_nat v"
    "rdx re = (case err of None \<Rightarrow> 0 | Some e \<Rightarrow> e)" "rip re = gate_target (idt s ! v)" "rsp re + 8 = rsi re"
    "rsi re = top_of_stack r - of_nat (if err = None then 160 else 208)" "rsi re AND 0xF = 0"
    "\<not> bit (cpu_rflags se) 9" "\<forall>a. \<not> in_region (rsp re) 216 a \<longrightarrow> ram se a = ram s a"
    "se = s\<lparr>cpu_rflags := masked_flags v s, ram := ram se\<rparr>"
proof -
  note e = assms [unfolded at_entry_def Let_def]
  show "read_context (ram se) (rsi re) = context_of r (cpu_rflags s)" "rdi re = of_nat v"
    "rdx re = (case err of None \<Rightarrow> 0 | Some e \<Rightarrow> e)" "rip re = gate_target (idt s ! v)" "rsp re + 8 = rsi re"
    "rsi re = top_of_stack r - of_nat (if err = None then 160 else 208)" "rsi re AND 0xF = 0"
    using e by blast+
  show se: "se = s\<lparr>cpu_rflags := masked_flags v s, ram := ram se\<rparr>" using e by blast
  show "\<not> bit (cpu_rflags se) 9"
    using arg_cong [OF se, of cpu_rflags] masked_off [of v s] by simp
  have "\<forall>a. \<not> in_region (rsp re) ((if err = None then 160 else 208) + 8) a \<longrightarrow> ram se a = ram s a" using e by blast
  then show "\<forall>a. \<not> in_region (rsp re) 216 a \<longrightarrow> ram se a = ram s a"
    using in_region_mono [of "rsp re" "(if err = None then 160 else 208) + 8" _ 216] by (cases err) auto
qed

lemma sixteen_aligned: "16 * z AND 0xF = (0 :: u64)"
proof -
  have "(0xF :: u64) = mask 4" "16 * z = push_bit 4 z" by (simp_all add: mask_eq_exp_minus_1 push_bit_eq_mult)
  then have "16 * z AND 0xF = take_bit 4 (push_bit 4 z)" by (simp only: take_bit_eq_mask)
  then show ?thesis by (simp add: take_bit_push_bit)
qed

lemma aligned_below: "(top_of_stack r - 16 * k) AND 0xF = 0"
proof -
  have m: "NOT (0xF :: u64) = NOT (mask 4)" by (simp add: mask_eq_exp_minus_1)
  have "top_of_stack r = push_bit 4 (drop_bit 4 (rsp r))" unfolding top_of_stack_def m
    by (rule bit_word_eqI) (auto simp: bit_and_iff bit_not_iff bit_mask_iff bit_push_bit_iff bit_drop_bit_eq)
  then have "top_of_stack r - 16 * k = 16 * (drop_bit 4 (rsp r) - k)"
    by (simp add: push_bit_eq_mult algebra_simps)
  then show ?thesis by (simp only: sixteen_aligned)
qed

lemma entry_state_at:
  assumes "ws = context_words r (cpu_rflags s) @ rest" "8 * length ws = depth" "depth = (if err = None then 160 else 208)"
  shows "at_entry v err r s (fst (entry_state v (of_nat depth) ra (case err of None \<Rightarrow> 0 | Some e \<Rightarrow> e) ws r s))
    (snd (entry_state v (of_nat depth) ra (case err of None \<Rightarrow> 0 | Some e \<Rightarrow> e) ws r s))"
proof -
  let ?a = "top_of_stack r - of_nat depth - 8" and ?n = "8 * length (ra # ws)"
  let ?m = "store_bytes (ram s) ?a (qwords (ra # ws))"
  have n: "length (qwords (ra # ws)) = depth + 8" "depth \<le> 208" "160 \<le> depth" using assms(2,3) by (simp_all split: if_splits)
  have whole: "bytes_at ?m ?a (depth + 8) = qwords (ra # ws)"
    using bytes_at_store_bytes [of "qwords (ra # ws)" "ram s" ?a] n by (simp del: qwords_simps)
  have "bytes_at ?m (?a + of_nat 8) 160 = take 160 (drop 8 (bytes_at ?m ?a (depth + 8)))"
    using n(3) by (intro bytes_at_part) simp
  also have "\<dots> = qwords (context_words r (cpu_rflags s))" unfolding whole by (simp add: assms(1))
  finally have "read_context ?m (top_of_stack r - of_nat depth) = context_of r (cpu_rflags s)"
    by (intro context_words_read) simp
  moreover have "(top_of_stack r - of_nat depth) AND 0xF = 0"
    using aligned_below [of r 10] aligned_below [of r 13] assms(3) by (cases err) simp_all
  moreover have "\<forall>a. \<not> in_region ?a (depth + 8) a \<longrightarrow> ?m a = ram s a"
  proof (intro allI impI)
    fix x assume "\<not> in_region ?a (depth + 8) x"
    then show "?m x = ram s x" using n(2) by (intro store_bytes_outside) (simp_all only: n(1), simp_all)
  qed
  ultimately show ?thesis
    unfolding at_entry_def entry_state_def Let_def assms(3) [symmetric] by simp
qed

lemma isr_code_enters:
  fixes s :: "'a intr_scheme"
  assumes "gate_p (idt s ! v) \<noteq> 0" "error_stub v \<longleftrightarrow> err \<noteq> None"
  shows "\<exists>re se. at_entry v err r s re se \<and> (\<forall>f. seq (deliver v err (r, s)) (isr_code v ra f) =
    seq (f (re, se)) (\<lambda>(r', t). ret (leave_stub (r'\<lparr>rsp := rsp r' + 8\<rparr>, t))))"
proof (cases err)
  case None
  let ?E = "entry_state v 160 ra 0 (context_words r (cpu_rflags s)) r s"
  have "at_entry v None r s (fst ?E) (snd ?E)"
    using entry_state_at [of "context_words r (cpu_rflags s)" r s "[]" 160 None v ra] by simp
  moreover have "isr_code v ra f = ISR_NO_ERROR_CODE v ra f" for f :: "'a c_function"
    using assms(2) None by (simp add: isr_code_def)
  ultimately show ?thesis
    unfolding None by (intro exI [of _ "fst ?E"] exI [of _ "snd ?E"]) (simp add: irq_entry [OF assms(1)])
next
  case (Some e)
  let ?ws = "context_words r (cpu_rflags s) @ e # rev (frame r (cpu_rflags s))"
  let ?E = "entry_state v 208 ra e ?ws r s"
  have "at_entry v (Some e) r s (fst ?E) (snd ?E)"
    using entry_state_at [of ?ws r s "e # rev (frame r (cpu_rflags s))" 208 "Some e" v ra] by simp
  moreover have "isr_code v ra f = ISR_ERROR_CODE v ra f" for f :: "'a c_function"
    using assms(2) Some by (simp add: isr_code_def)
  ultimately show ?thesis
    unfolding Some by (intro exI [of _ "fst ?E"] exI [of _ "snd ?E"]) (simp add: isr_entry [OF assms(1)])
qed

lemma IRQ_stub_code: "IRQ_stub = ISR_NO_ERROR_CODE"
  by (intro ext) (simp add: IRQ_stub_def ISR_NO_ERROR_CODE_def)

text \<open>What the stubs rely on: the function comes back with the stack pointer it was called with, and has left the structure alone.\<close>

definition keeps_stack :: "'a c_function \<Rightarrow> cpu_regs \<Rightarrow> 'a intr_scheme \<Rightarrow> ('a intr_scheme \<Rightarrow> bool) \<Rightarrow> bool" where
  "keeps_stack f re se Q \<longleftrightarrow> runs (f (re, se)) (\<lambda>(r', t). rsp r' = rsp re
     \<and> bytes_at (ram t) (rsi re) 160 = bytes_at (ram se) (rsi re) 160 \<and> Q t)"

lemma read_context_cong: "bytes_at m a 160 = bytes_at m' a 160 \<Longrightarrow> read_context m a = read_context m' a"
proof -
  assume same: "bytes_at m a 160 = bytes_at m' a 160"
  have "read64 m (a + 8 * of_nat i) = read64 m' (a + 8 * of_nat i)" if "i < 20" for i
    using that same by (simp add: read64_part [of i 160])
  from this [of 0] this [of 1] this [of 2] this [of 3] this [of 4] this [of 5] this [of 6] this [of 7] this [of 8]
    this [of 9] this [of 10] this [of 11] this [of 12] this [of 13] this [of 14] this [of 15] this [of 16]
    this [of 17] this [of 18] this [of 19]
  show ?thesis by (simp add: read_context_def)
qed

lemma stub_restores:
  fixes s :: "'a intr_scheme"
  assumes "at_entry v err r s re se" "keeps_stack f re se Q"
  shows "runs (seq (f (re, se)) (\<lambda>(r', t). ret (leave_stub (r'\<lparr>rsp := rsp r' + 8\<rparr>, t))))
    (\<lambda>(r', t). r' = r \<and> (\<exists>u. Q u \<and> t = u\<lparr>cpu_rflags := cpu_rflags s\<rparr>))"
proof (rule runs_seq [OF assms(2) [unfolded keeps_stack_def]])
  fix p :: "cpu_regs \<times> 'a intr_scheme" assume "case p of (r', t) \<Rightarrow> rsp r' = rsp re \<and> bytes_at (ram t) (rsi re) 160 = bytes_at (ram se) (rsi re) 160 \<and> Q t"
  then obtain r' t where p: "p = (r', t)" and t: "rsp r' = rsp re" "bytes_at (ram t) (rsi re) 160 = bytes_at (ram se) (rsi re) 160" "Q t"
    by (elim case_prodE conjE)
  have "rsp re + 8 = rsi re" "read_context (ram se) (rsi re) = context_of r (cpu_rflags s)"
    using assms(1) unfolding at_entry_def Let_def by blast+
  then have "leave_stub (r'\<lparr>rsp := rsp r' + 8\<rparr>, t) = (r, t\<lparr>cpu_rflags := cpu_rflags s\<rparr>)"
    using read_context_cong [OF t(2)] t(1) by (simp add: leave_stub_context)
  then show "runs (case p of (r', t) \<Rightarrow> ret (leave_stub (r'\<lparr>rsp := rsp r' + 8\<rparr>, t)))
      (\<lambda>(r', t). r' = r \<and> (\<exists>u. Q u \<and> t = u\<lparr>cpu_rflags := cpu_rflags s\<rparr>))"
    using t(3) unfolding p by auto
qed


text \<open>A program above 1 MB with its stack below 1.5 MB, interrupted by a page fault.\<close>

definition some_program :: cpu_regs where
  "some_program = \<lparr>rax = 1, rbx = 2, rcx = 3, rdx = 4, rsi = 5, rdi = 6, rbp = 7, r8 = 8, r9 = 9, r10 = 10, r11 = 11, r12 = 12,
     r13 = 13, r14 = 14, r15 = 15, rip = 0x150000, reg_cs = 8, rsp = 0x178008, reg_ss = 16\<rparr>"

definition gated :: intr where
  "gated = intr_boot\<lparr>idt := replicate 256 (gate 0x110380), interrupt_handlers := replicate 256 (Some Timer_intr), cpu_rflags := 0x202\<rparr>"

lemma gated_present: "v < 256 \<Longrightarrow> gate_p (idt gated ! v) \<noteq> 0"
  by (simp add: gated_def gate_def)


section \<open>The timer interrupt\<close>

lemma timer_ready_entry: "timer_ready im (s\<lparr>cpu_rflags := f, ram := m\<rparr>) = timer_ready im s"
  by (simp add: timer_ready_def console_ready_def tui_ok_def)

text \<open>The part of the stack that the interrupt uses, down to the return address of the call.\<close>

definition used_stack :: "cpu_regs \<Rightarrow> addr \<Rightarrow> bool" where
  "used_stack r = in_region (top_of_stack r - 168) 168"

definition stack_apart :: "'b image_scheme \<Rightarrow> cpu_regs \<Rightarrow> bool" where
  "stack_apart im r \<longleftrightarrow> disjoint_regions 0xB8000 4000 (top_of_stack r - 168) 168
     \<and> disjoint_regions (image_buf im) 512 (top_of_stack r - 168) 168"

lemma ticked_context:
  assumes "ticked im s t" "stack_apart im r"
  shows "bytes_at (ram t) (top_of_stack r - 160) 160 = bytes_at (ram s) (top_of_stack r - 160) 160"
proof (rule bytes_at_cong)
  fix x assume "in_region (top_of_stack r - 160) 160 x"
  then obtain i where "i < 160" "x = top_of_stack r - 160 + of_nat i" by (rule in_regionE)
  then have x: "x = (top_of_stack r - 168) + of_nat (8 + i)" "8 + i < 168" by simp_all
  have "outside_screen x \<and> \<not> in_region (image_buf im) 512 x"
    using assms(2) disjoint_regions_notin [OF _ x(2)] unfolding x(1) outside_screen_def stack_apart_def by blast
  then show "ram t x = ram s x" using assms(1) by (simp add: ticked_def)
qed simp

lemma timer_keeps_stack:
  assumes e: "at_entry 32 None r s re se" and "timer_ready im s" "\<And>x. rsp (clobber x) = rsp x" "stack_apart im r"
  shows "keeps_stack (compiled_irq im clobber) re se (ticked im se)"
proof -
  have se: "timer_ready im se"
    by (subst at_entryD(10) [OF e]) (simp add: timer_ready_entry assms(2))
  then obtain t where t: "irq_handler im IRQ0 (rsi re) se = ret t" "ticked im se t" using irq_timer by blast
  have args: "ucast (rdi re) = IRQ0" using at_entryD(2) [OF e] by (simp add: IRQ0_def)
  have "rsi re = top_of_stack r - 160" using at_entryD(6) [OF e] by simp
  then have "bytes_at (ram t) (rsi re) 160 = bytes_at (ram se) (rsi re) 160"
    using ticked_context [OF t(2) assms(4)] by simp
  then show ?thesis
    unfolding keeps_stack_def compiled_irq_def prod.case args t(1) seq_ret runs_ret using assms(3) t(2) by simp
qed

lemma timer_returns:
  fixes s :: "'a intr_scheme"
  assumes "gate_p (idt s ! 32) \<noteq> 0" "timer_ready im s" "\<And>x. rsp (clobber x) = rsp x" "stack_apart im r"
  shows "runs (seq (deliver 32 None (r, s)) (IRQ_stub 32 ra (compiled_irq im clobber))) (\<lambda>(r', t). r' = r \<and>
    (\<exists>re se u. at_entry 32 None r s re se \<and> ticked im se u \<and> t = u\<lparr>cpu_rflags := cpu_rflags s\<rparr>))"
proof -
  have "error_stub 32 \<longleftrightarrow> (None :: u64 option) \<noteq> None" by (simp add: error_stub_def)
  from isr_code_enters [where s = s and r = r and ra = ra, OF assms(1) this]
  obtain re and se :: "'a intr_scheme" where e: "at_entry 32 None r s re se"
    and f: "\<forall>f. seq (deliver 32 None (r, s)) (isr_code 32 ra f) =
      seq (f (re, se)) (\<lambda>(r', t). ret (leave_stub (r'\<lparr>rsp := rsp r' + 8\<rparr>, t)))" by (elim exE conjE)
  have code: "IRQ_stub 32 ra g = isr_code 32 ra g" for g :: "'a c_function"
    by (simp add: IRQ_stub_code isr_code_def error_stub_def)
  show ?thesis
    unfolding code f [rule_format]
    by (rule runs_mono [OF stub_restores [OF e timer_keeps_stack [OF e assms(2-4)]]]) (use e in auto)
qed


lemma some_program_apart: "stack_apart kernel_image some_program"
  unfolding stack_apart_def kernel_image_def some_program_def top_of_stack_def
  by (auto intro!: disjoint_regionsI_below simp: fits_def)

lemma gated_ready: "timer_ready kernel_image gated"
  using console_intr_boot by (simp add: timer_ready_def console_ready_def gated_def tui_ok_def)



definition leaf_program :: cpu_regs where
  "leaf_program = some_program\<lparr>rsp := 0x178000\<rparr>"


end
