(* ===== verification/Reentrancy.thy ===== *)
theory Reentrancy
  imports Interrupt_Entry_Props
begin

text \<open>
  A message interrupted by the timer. \<open>printf\<close> formats into the one array \<open>buf\<close> of \<open>src/libk/src/io.cpp\<close> and then sends it; the timer handler
  reports every second through the same array. The definition places one timer interrupt between the two steps.
\<close>

definition printf_interrupted ::
  "'b image_scheme \<Rightarrow> addr \<Rightarrow> string \<Rightarrow> va_arg list \<Rightarrow> 'a intr_scheme \<Rightarrow> (u32 \<times> 'a intr_scheme) exec" where
  "printf_interrupted im ctxt fmt args s =
     seq (vsnprintf (ram s) (image_buf im) BUF_SIZE fmt args) (\<lambda>(n, m).
     seq (irq_handler im IRQ0 ctxt (s\<lparr>ram := m\<rparr>)) (\<lambda>s.
     seq (io_write_string (image_buf im) s) (\<lambda>(_, s).
     ret (n, s\<lparr>ram := bzero (ram s) (image_buf im) BUF_SIZE\<rparr>))))"

text \<open>What is in the buffer when the message is sent.\<close>

lemma buffer_after_tick:
  assumes "ticked im (s\<lparr>ram := store_bytes m (image_buf im) (map of_char cs @ [0])\<rparr>) t" "length cs < 512"
  shows "\<exists>ds. ds = (if (g_ticks s + 1) mod 1000 = 0 then '''' else cs)
    \<and> bytes_at (ram t) (image_buf im) (length ds + 1) = map of_char ds @ [0]"
proof (cases "(g_ticks s + 1) mod 1000 = 0")
  case True
  then have "bytes_at (ram t) (image_buf im) (1 + 511) = replicate 512 0" using assms(1) by (simp add: ticked_def)
  then have "bytes_at (ram t) (image_buf im) 1 = take 1 (replicate 512 0)" by (metis append_eq_conv_conj bytes_at_add length_bytes_at)
  then show ?thesis using True by simp
next
  case False
  then have "ram t = store_bytes m (image_buf im) (map of_char cs @ [0])" using assms(1) by (simp add: ticked_def)
  then show ?thesis
    using False assms(2) bytes_at_store_bytes [of "map of_char cs @ [0]" m "image_buf im"] by simp
qed

text \<open>C11: A message does not survive every interrupt: a timer interrupt between the formatting and the sending of a \<open>printf\<close> leaves the message
  alone unless its tick is a multiple of 1000; then the message of the handler is sent and the interrupted one is lost, because the handler
  has used and cleared the buffer. Either way \<open>printf\<close> returns the length of its text.\<close>

theorem tick_in_printf:
  fixes s :: "'a intr_scheme"
  assumes "timer_ready im s" "format_text fmt args = ret cs" "length cs < 2 ^ 64" "CHR 0x09 \<notin> set cs" "CHR 0x00 \<notin> set cs"
  shows "\<exists>u. printf_interrupted im ctxt fmt args s = ret (of_nat (length cs), u) \<and> g_ticks u = g_ticks s + 1
    \<and> written 0x3F8 (ports u) = written 0x3F8 (ports s)
        @ tui_serials (if (g_ticks s + 1) mod 1000 = 0 then tick_text else take 511 cs)"
proof -
  let ?buf = "image_buf im" and ?cs = "take 511 cs"
  let ?s = "s\<lparr>ram := store_bytes (ram s) ?buf (map of_char ?cs @ [0])\<rparr>"
  have buf: "buf_ok ?buf" using assms(1) by (simp add: timer_ready_def console_ready_def)
  have fmt: "vsnprintf (ram s) ?buf BUF_SIZE fmt args = ret (of_nat (length cs), store_bytes (ram s) ?buf (map of_char ?cs @ [0]))"
    using vsnprintf_stores [OF assms(2,3), of "ram s" ?buf BUF_SIZE] buf
    by (simp add: buf_ok_def BUF_SIZE_def truncated_def)
  have "timer_ready im ?s" using assms(1) by (simp add: timer_ready_def console_ready_def tui_ok_def)
  then obtain t where t: "irq_handler im IRQ0 ctxt ?s = ret t" "ticked im ?s t" using irq_timer by blast
  define ds where "ds = (if (g_ticks s + 1) mod 1000 = 0 then '''' else ?cs)"
  have "bytes_at (ram t) ?buf (length ds + 1) = map of_char ds @ [0]"
    using buffer_after_tick [OF t(2)] by (simp add: ds_def)
  moreover have "tui_ok t" "uart_drains (device t)" using t(2) by (simp_all add: ticked_def console_ready_def)
  moreover have "CHR 0x09 \<notin> set ds" "CHR 0x00 \<notin> set ds" "length ds < 512"
    using assms(4,5) by (auto simp: ds_def dest: in_set_takeD)
  ultimately obtain u where u: "tui_write_string ?buf t = ret u" "tui_step 2000 t u (tui_serials ds)"
    using tui_write_string_types [of t ?buf ds] buf by blast
  have "written 0x3F8 (ports u) = written 0x3F8 (ports s)
      @ tui_serials (if (g_ticks s + 1) mod 1000 = 0 then tick_text else ?cs)"
    using u(2) t(2) by (simp add: tui_step_def ticked_def ds_def)
  moreover have "g_ticks u = g_ticks s + 1"
    using u(2) t(2) more_intr [of u t] by (simp add: tui_step_def ticked_def)
  ultimately show ?thesis
    by (intro exI [of _ "u\<lparr>ram := bzero (ram u) ?buf BUF_SIZE\<rparr>"]) (simp add: printf_interrupted_def fmt t(1) io_write_string_def u(1))
qed

theorem tick_in_printf_witness:
  "\<exists>u. printf_interrupted kernel_image 0 ''hi%%'' [] (gated\<lparr>g_ticks := 999\<rparr>) = ret (3, u)
    \<and> written 0x3F8 (ports u) = written 0x3F8 (ports gated) @ tui_serials tick_text"
proof -
  have "format_text ''hi%%'' [] = ret ''hi%''"
    by (simp add: format_text.simps directive_text_def parse_width_def parse_precision_def parse_length_def
        peek_def convert_text_def adv_def is_digit_def)
  moreover have "timer_ready kernel_image (gated\<lparr>g_ticks := 999\<rparr>)"
    using gated_ready by (simp add: timer_ready_def console_ready_def tui_ok_def)
  ultimately show ?thesis using tick_in_printf [of kernel_image "gated\<lparr>g_ticks := 999\<rparr>" "''hi%%''" "[]" "''hi%''" 0] by auto
qed

end
