(* ===== verification/Plat_Time.thy ===== *)
theory Plat_Time
  imports Logging
begin

text \<open>
  The time source, \<open>src/platform/x86_64/src/c_time.cpp\<close> with \<open>c_time.h\<close> and the instructions of \<open>cpu.h\<close> it uses: the
  calibration of the time stamp counter against the HPET and the reading of the time. The counters run by
  themselves: what \<open>cpuid\<close>, the time stamp counter and the registers of the HPET answer is the record \<open>clock_hw\<close>, a
  parameter, as a function of the number \<open>now\<close> of instructions that looked at the hardware or paused so far. The theorems say
  for which hardware the calibration returns, and what the time is afterwards.
\<close>

section \<open>The hardware\<close>

record clock_hw =
  cpuid_edx :: "u32 \<Rightarrow> u32"
  tsc_at :: "nat \<Rightarrow> u64"
  mmio_at :: "addr \<Rightarrow> nat \<Rightarrow> u64"

record plat_clock =
  tsc_freq :: u64
  tsc_ok :: u32
  now :: nat

definition HPET_BASE :: addr where "HPET_BASE = 0xFED00000"
definition HPET_GEN_CAP :: addr where "HPET_GEN_CAP = HPET_BASE + 0x00"
definition HPET_MAIN_CNT :: addr where "HPET_MAIN_CNT = HPET_BASE + 0xF0"

definition tick :: "'a plat_clock_scheme \<Rightarrow> 'a plat_clock_scheme" where
  "tick s = s\<lparr>now := now s + 1\<rparr>"

definition rdtsc :: "clock_hw \<Rightarrow> 'a plat_clock_scheme \<Rightarrow> u64 \<times> 'a plat_clock_scheme" where
  "rdtsc hw s =
     (let lo = ucast (tsc_at hw (now s)) :: u32; hi = ucast (drop_bit 32 (tsc_at hw (now s))) :: u32
      in (push_bit 32 (ucast hi) OR ucast lo, tick s))"

definition read_mmio :: "clock_hw \<Rightarrow> addr \<Rightarrow> 'a plat_clock_scheme \<Rightarrow> u64 \<times> 'a plat_clock_scheme" where
  "read_mmio hw a s = (mmio_at hw a (now s), tick s)"

definition cpu_pause :: "'a plat_clock_scheme \<Rightarrow> 'a plat_clock_scheme" where
  "cpu_pause s = tick s"

section \<open>Calibration\<close>

partial_function (option) hpet_wait ::
  "clock_hw \<Rightarrow> u64 \<Rightarrow> u64 \<Rightarrow> 'a plat_clock_scheme \<Rightarrow> 'a plat_clock_scheme exec" where
  "hpet_wait hw start ticks s =
     (case read_mmio hw HPET_MAIN_CNT s of
        (cnt, s) \<Rightarrow> if cnt - start < ticks then hpet_wait hw start ticks (cpu_pause s) else ret s)"

definition plat_time_init :: "clock_hw \<Rightarrow> 'a plat_clock_scheme \<Rightarrow> (u32 \<times> 'a plat_clock_scheme) exec" where
  "plat_time_init hw s =
     (let d = cpuid_edx hw 0x80000007
      in if d AND push_bit 8 1 = 0 then ret (- 22, s)
         else
           let (tsc0, s) = rdtsc hw s;
               (start, s) = read_mmio hw HPET_MAIN_CNT s;
               (cap, s) = read_mmio hw HPET_GEN_CAP s;
               period_fs = ucast (drop_bit 32 cap) :: u32
           in if period_fs = 0 then fail Division_by_zero
              else
                let hpet_freq = 1000000000000000 div (ucast period_fs :: u64);
                    ticks = hpet_freq * 10 div 1000
                in seq (hpet_wait hw start ticks s) (\<lambda>s.
                   let (tsc1, s) = rdtsc hw s;
                       s = s\<lparr>tsc_freq := (tsc1 - tsc0) * 1000 div 10\<rparr>;
                       s = s\<lparr>tsc_ok := 0\<rparr>
                   in ret (tsc_ok s, s)))"

definition plat_get_time_ns :: "clock_hw \<Rightarrow> 'a plat_clock_scheme \<Rightarrow> (u64 \<times> 'a plat_clock_scheme) exec" where
  "plat_get_time_ns hw s =
     (if tsc_ok s = 0 then ret (rdtsc hw s)
      else let (t, s) = rdtsc hw s
           in if tsc_freq s = 0 then fail Division_by_zero else ret (t * 1000000000 div tsc_freq s, s))"

section \<open>When the calibration ends\<close>

lemma rdtsc_value [simp]: "rdtsc hw s = (tsc_at hw (now s), tick s)"
proof -
  have "push_bit 32 (ucast (ucast (drop_bit 32 t) :: u32)) OR ucast (ucast t :: u32) = t" for t :: u64
    by (rule bit_word_eqI) (auto simp: bit_or_iff bit_push_bit_iff bit_ucast_iff bit_drop_bit_eq not_less)
  then show ?thesis by (simp add: rdtsc_def)
qed

text \<open>What the main counter of the HPET has advanced at the \<open>k\<close>-th look of the loop.\<close>

definition elapsed :: "clock_hw \<Rightarrow> u64 \<Rightarrow> 'a plat_clock_scheme \<Rightarrow> nat \<Rightarrow> u64" where
  "elapsed hw start s k = mmio_at hw HPET_MAIN_CNT (now s + 2 * k) - start"

lemma elapsed_pause: "elapsed hw start (cpu_pause (tick s)) k = elapsed hw start s (Suc k)"
  by (simp add: elapsed_def cpu_pause_def tick_def)

lemma hpet_wait_step:
  "hpet_wait hw start ticks s =
     (if elapsed hw start s 0 < ticks then hpet_wait hw start ticks (cpu_pause (tick s)) else ret (tick s))"
  by (subst hpet_wait.simps) (simp add: read_mmio_def elapsed_def)

lemma hpet_wait_returns:
  "ticks \<le> elapsed hw start s k \<Longrightarrow> \<forall>i < k. elapsed hw start s i < ticks \<Longrightarrow>
    hpet_wait hw start ticks s = ret (s\<lparr>now := now s + 2 * k + 1\<rparr>)"
proof (induction k arbitrary: s)
  case 0
  then show ?case by (subst hpet_wait_step) (simp add: tick_def not_less [symmetric])
next
  case (Suc k)
  have "hpet_wait hw start ticks (cpu_pause (tick s)) =
      ret ((cpu_pause (tick s))\<lparr>now := now (cpu_pause (tick s)) + 2 * k + 1\<rparr>)"
    using Suc.prems by (intro Suc.IH) (simp_all add: elapsed_pause)
  moreover have "elapsed hw start s 0 < ticks" using Suc.prems(2) by blast
  ultimately show ?case by (subst hpet_wait_step) (simp add: cpu_pause_def tick_def)
qed

lemma hpet_wait_reached:
  assumes "hpet_wait hw start ticks s = Some r"
  shows "\<exists>k. ticks \<le> elapsed hw start s k"
proof (rule hpet_wait.raw_induct [where P = "\<lambda>hw start ticks s _. \<exists>k. ticks \<le> elapsed hw start s k", OF _ assms])
  fix wait :: "clock_hw \<Rightarrow> u64 \<Rightarrow> u64 \<Rightarrow> 'a plat_clock_scheme \<Rightarrow> 'a plat_clock_scheme exec"
    and hw start ticks s r
  assume IH: "\<And>hw start ticks s r. wait hw start ticks s = Some r \<Longrightarrow> \<exists>k. ticks \<le> elapsed hw start s k"
    and run: "(case read_mmio hw HPET_MAIN_CNT s of
        (cnt, s) \<Rightarrow> if cnt - start < ticks then wait hw start ticks (cpu_pause s) else ret s) = Some r"
  show "\<exists>k. ticks \<le> elapsed hw start s k"
  proof (cases "elapsed hw start s 0 < ticks")
    case True
    then have "wait hw start ticks (cpu_pause (tick s)) = Some r" using run by (simp add: read_mmio_def elapsed_def)
    from IH [OF this] show ?thesis by (auto simp: elapsed_pause)
  qed (auto simp: not_less)
qed

text \<open>The ten milliseconds the code waits for, in ticks of an HPET with the given period.\<close>

definition ten_ms :: "u32 \<Rightarrow> u64" where
  "ten_ms period = 1000000000000000 div ucast period * 10 div 1000"

definition hpet_period :: "clock_hw \<Rightarrow> 'a plat_clock_scheme \<Rightarrow> u32" where
  "hpet_period hw s = ucast (drop_bit 32 (mmio_at hw HPET_GEN_CAP (now s + 2)))"

text \<open>The state in which the waiting loop is entered, and the counter value it compares with.\<close>

definition wait_start :: "clock_hw \<Rightarrow> 'a plat_clock_scheme \<Rightarrow> u64" where
  "wait_start hw s = mmio_at hw HPET_MAIN_CNT (now s + 1)"

lemma plat_time_init_wait:
  assumes "bit (cpuid_edx hw 0x80000007) 8" "hpet_period hw s \<noteq> 0"
  shows "plat_time_init hw s =
    seq (hpet_wait hw (wait_start hw s) (ten_ms (hpet_period hw s)) (s\<lparr>now := now s + 3\<rparr>)) (\<lambda>t.
      ret (0, t\<lparr>now := now t + 1, tsc_freq := (tsc_at hw (now t) - tsc_at hw (now s)) * 1000 div 10, tsc_ok := 0\<rparr>))"
proof -
  have "bit (cpuid_edx hw 0x80000007 AND push_bit 8 1) 8" using assms(1) by (simp add: bit_and_iff bit_push_bit_iff bit_1_iff)
  then have edx: "cpuid_edx hw 0x80000007 AND push_bit 8 1 \<noteq> 0" by auto
  show ?thesis
    using edx assms(2) unfolding plat_time_init_def
    by (simp add: read_mmio_def tick_def Let_def hpet_period_def wait_start_def ten_ms_def numeral_3_eq_3 numeral_2_eq_2
        del: push_bit_of_1)
qed

text \<open>C27: With an invariant time stamp counter and a usable HPET, \<open>plat_time_init\<close> returns exactly if the main counter is
  ever seen ten milliseconds ahead, at the first such look; it then returns 0 and has stored the cycles of the wait times 100 as
  frequency. But it leaves \<open>tsc_ok\<close> at 0, so \<open>plat_get_time_ns\<close> returns cycles, not nanoseconds.\<close>

theorem plat_time_calibrates:
  assumes "bit (cpuid_edx hw 0x80000007) 8" "hpet_period hw s \<noteq> 0"
  shows "if \<exists>k. ten_ms (hpet_period hw s) \<le> elapsed hw (wait_start hw s) (s\<lparr>now := now s + 3\<rparr>) k
    then \<exists>k t. ten_ms (hpet_period hw s) \<le> elapsed hw (wait_start hw s) (s\<lparr>now := now s + 3\<rparr>) k
      \<and> (\<forall>i < k. elapsed hw (wait_start hw s) (s\<lparr>now := now s + 3\<rparr>) i < ten_ms (hpet_period hw s))
      \<and> plat_time_init hw s = ret (0, t) \<and> now t = now s + 2 * k + 5
      \<and> tsc_freq t = (tsc_at hw (now s + 2 * k + 4) - tsc_at hw (now s)) * 1000 div 10
      \<and> plat_get_time_ns hw t = ret (tsc_at hw (now t), tick t)
    else plat_time_init hw s = None"
proof (cases "\<exists>k. ten_ms (hpet_period hw s) \<le> elapsed hw (wait_start hw s) (s\<lparr>now := now s + 3\<rparr>) k")
  case True
  let ?reached = "\<lambda>k. ten_ms (hpet_period hw s) \<le> elapsed hw (wait_start hw s) (s\<lparr>now := now s + 3\<rparr>) k"
  obtain k where k: "?reached k" "\<forall>i < k. \<not> ?reached i" using True unfolding exists_least_iff [of ?reached] by blast
  then have less: "\<forall>i < k. elapsed hw (wait_start hw s) (s\<lparr>now := now s + 3\<rparr>) i < ten_ms (hpet_period hw s)"
    by (simp add: not_le)
  show ?thesis
    unfolding plat_time_init_wait [OF assms] hpet_wait_returns [OF k(1) less] if_P [OF True]
    using k(1) less by (intro exI conjI) (auto simp: plat_get_time_ns_def ac_simps)
next
  case False
  then have "hpet_wait hw (wait_start hw s) (ten_ms (hpet_period hw s)) (s\<lparr>now := now s + 3\<rparr>) = None"
    using hpet_wait_reached by (metis not_None_eq)
  then show ?thesis unfolding plat_time_init_wait [OF assms] if_not_P [OF False] by (simp add: seq_def)
qed

text \<open>An HPET of 100 MHz whose counter advances by a microsecond per instruction, with a time stamp counter of 2 GHz.\<close>

definition qemu_clock :: clock_hw where
  "qemu_clock = \<lparr>cpuid_edx = \<lambda>_. 0x100, tsc_at = \<lambda>n. 2000 * of_nat n,
     mmio_at = \<lambda>a n. if a = HPET_GEN_CAP then push_bit 32 10000000 else 100 * of_nat n\<rparr>"

theorem plat_time_calibrates_witness:
  "\<exists>t. plat_time_init qemu_clock \<lparr>tsc_freq = 0, tsc_ok = 0, now = 0\<rparr> = ret (0, t) \<and> tsc_freq t = 2000400000
    \<and> plat_get_time_ns qemu_clock t = ret (20006000, tick t)"
proof -
  let ?s = "\<lparr>tsc_freq = 0, tsc_ok = 0, now = 0\<rparr>"
  have period: "hpet_period qemu_clock ?s = 10000000" by (simp add: hpet_period_def qemu_clock_def)
  have ten: "ten_ms 10000000 = 1000000" by (simp add: ten_ms_def)
  have other: "HPET_MAIN_CNT \<noteq> HPET_GEN_CAP" by (simp add: HPET_GEN_CAP_def HPET_MAIN_CNT_def HPET_BASE_def)
  have e: "elapsed qemu_clock (wait_start qemu_clock ?s) (?s\<lparr>now := now ?s + 3\<rparr>) k = 200 * of_nat k + 200" for k
    using other by (simp add: elapsed_def wait_start_def qemu_clock_def algebra_simps)
  have edx: "bit (cpuid_edx qemu_clock 0x80000007) 8" by (simp add: qemu_clock_def bit_numeral_rec)
  have reach: "\<exists>k. ten_ms (hpet_period qemu_clock ?s) \<le> elapsed qemu_clock (wait_start qemu_clock ?s) (?s\<lparr>now := now ?s + 3\<rparr>) k"
    unfolding period ten e by (rule exI [of _ 4999]) simp
  have p0: "hpet_period qemu_clock ?s \<noteq> 0" by (simp add: period)
  obtain k t where k: "1000000 \<le> 200 * (of_nat k :: u64) + 200" "\<forall>i < k. 200 * (of_nat i :: u64) + 200 < 1000000"
    and t: "plat_time_init qemu_clock ?s = ret (0, t)" "now t = now ?s + 2 * k + 5"
      "tsc_freq t = (tsc_at qemu_clock (now ?s + 2 * k + 4) - tsc_at qemu_clock (now ?s)) * 1000 div 10"
      "plat_get_time_ns qemu_clock t = ret (tsc_at qemu_clock (now t), tick t)"
    using plat_time_calibrates [OF edx p0, unfolded if_P [OF reach]] unfolding period ten e by blast
  have "\<not> 200 * (of_nat 4999 :: u64) + 200 < 1000000" by simp
  then have "k \<le> 4999" using k(2) not_le by blast
  moreover have "4999 \<le> k"
  proof (rule ccontr)
    assume "\<not> 4999 \<le> k"
    then have "unat (200 * (of_nat k :: u64) + 200) = 200 * k + 200"
      by (simp add: unat_word_ariths unat_of_nat_64)
    with k(1) \<open>\<not> 4999 \<le> k\<close> show False by (simp add: word_le_nat_alt)
  qed
  ultimately have "k = 4999" by simp
  with t show ?thesis by (intro exI [of _ t]) (simp add: qemu_clock_def)
qed

end
