(* ===== verification/Cxxabi_Props.thy ===== *)
theory Cxxabi_Props
  imports Cxxabi
begin

text \<open>
  The table of destructors stays well-formed whatever destructors do, registered objects are destroyed in the
  reverse order of their registration, a destructor that was finalized is not called again, and the
  constructors of static objects run in the order of their table.
\<close>

section \<open>The table\<close>

definition atexit_ok :: "'a cxx_scheme \<Rightarrow> bool" where
  "atexit_ok s \<longleftrightarrow> length (atexit_funcs s) = ATEXIT_MAX_FUNCS \<and> unat (atexit_func_count s) \<le> ATEXIT_MAX_FUNCS"

definition registered :: "'a cxx_scheme \<Rightarrow> atexit_func_entry_t list" where
  "registered s = take (unat (atexit_func_count s)) (atexit_funcs s)"

lemma count_Suc: "unat c < 128 \<Longrightarrow> unat (c + 1) = Suc (unat c)" for c :: u32
  by (simp add: unat_word_ariths)

lemma aeabi_atexit_ok: "atexit_ok s \<Longrightarrow> atexit_ok (snd (aeabi_atexit f obj dso s))"
  by (auto simp: atexit_ok_def aeabi_atexit_def ATEXIT_MAX_FUNCS_def count_Suc)

lemma aeabi_atexit_registers:
  assumes "atexit_ok s" "unat (atexit_func_count s) < ATEXIT_MAX_FUNCS"
  shows "fst (aeabi_atexit f obj dso s) = 0"
    "registered (snd (aeabi_atexit f obj dso s)) =
      registered s @ [\<lparr>destructor_func = f, obj_ptr = obj, dso_handle = dso\<rparr>]"
    "unat (atexit_func_count (snd (aeabi_atexit f obj dso s))) = Suc (unat (atexit_func_count s))"
  using assms by (simp_all add: aeabi_atexit_def registered_def atexit_ok_def ATEXIT_MAX_FUNCS_def count_Suc
      take_Suc_conv_app_nth)

lemma atexit_ok_update: "atexit_ok s \<Longrightarrow> atexit_ok (s\<lparr>atexit_funcs := (atexit_funcs s)[i := e]\<rparr>)"
  by (simp add: atexit_ok_def)

lemma finalize_all_ok:
  assumes "\<forall>f obj t. atexit_ok t \<longrightarrow> runs (call f obj t) atexit_ok"
  shows "atexit_ok s \<Longrightarrow> i \<le> ATEXIT_MAX_FUNCS \<Longrightarrow> runs (finalize_all call i s) atexit_ok"
proof (induction i arbitrary: s)
  case (Suc i)
  have "runs (call f obj s) atexit_ok" for f obj using assms Suc.prems(1) by blast
  then have "runs (seq (call f obj s) (finalize_all call i)) atexit_ok" for f obj
    by (rule runs_seq) (use Suc in auto)
  with Suc show ?case by auto
qed simp

lemma finalize_one_ok:
  assumes "\<forall>f obj t. atexit_ok t \<longrightarrow> runs (call f obj t) atexit_ok"
  shows "atexit_ok s \<Longrightarrow> i \<le> ATEXIT_MAX_FUNCS \<Longrightarrow> runs (finalize_one call f i s) atexit_ok"
proof (induction i arbitrary: s)
  case (Suc i)
  have "runs (call f obj s) atexit_ok" for obj using assms Suc.prems(1) by blast
  then have "runs (seq (call f obj s) (\<lambda>s. finalize_one call f i
      (s\<lparr>atexit_funcs := (atexit_funcs s)[i := (atexit_funcs s ! i)\<lparr>destructor_func := 0\<rparr>]\<rparr>))) atexit_ok" for obj
    by (rule runs_seq) (use Suc in \<open>auto intro: Suc.IH atexit_ok_update\<close>)
  with Suc show ?case by auto
qed simp


text \<open>A destructor that registers itself again, run on a table with one entry.\<close>

definition empty_table :: cxx where
  "empty_table = \<lparr>ram = \<lambda>_. 0, ports = [], device = \<lambda>_ _. 0,
     atexit_funcs = replicate 128 \<lparr>destructor_func = 0, obj_ptr = 0, dso_handle = 0\<rparr>, atexit_func_count = 0\<rparr>"

lemma empty_table_ok: "atexit_ok empty_table" "registered empty_table = []"
  by (simp_all add: atexit_ok_def registered_def empty_table_def ATEXIT_MAX_FUNCS_def)


section \<open>What is destroyed, and in which order\<close>

text \<open>Destructors that always return and neither read nor write the table.\<close>

definition table_blind ::
  "(addr \<Rightarrow> addr \<Rightarrow> 'a cxx_scheme \<Rightarrow> 'a cxx_scheme exec) \<Rightarrow> (addr \<Rightarrow> addr \<Rightarrow> 'a cxx_scheme \<Rightarrow> 'a cxx_scheme) \<Rightarrow> bool" where
  "table_blind call act \<longleftrightarrow> (\<forall>f obj t. call f obj t = ret (act f obj t) \<and> atexit_func_count (act f obj t) = atexit_func_count t
     \<and> (\<forall>xs. act f obj (t\<lparr>atexit_funcs := xs\<rparr>) = (act f obj t)\<lparr>atexit_funcs := xs\<rparr>))"

definition destroy :: "(addr \<Rightarrow> addr \<Rightarrow> 'a cxx_scheme \<Rightarrow> 'a cxx_scheme) \<Rightarrow> atexit_func_entry_t list \<Rightarrow> 'a cxx_scheme \<Rightarrow> 'a cxx_scheme" where
  "destroy act es s = fold (\<lambda>e. act (destructor_func e) (obj_ptr e)) es s"

lemma act_keeps:
  assumes "table_blind call act"
  shows "call f obj t = ret (act f obj t)" "atexit_funcs (act f obj t) = atexit_funcs t"
    "atexit_func_count (act f obj t) = atexit_func_count t"
    "act f obj (t\<lparr>atexit_funcs := xs\<rparr>) = (act f obj t)\<lparr>atexit_funcs := xs\<rparr>"
proof -
  note blind = assms [unfolded table_blind_def, rule_format]
  show "call f obj t = ret (act f obj t)" "atexit_func_count (act f obj t) = atexit_func_count t"
    and upd: "act f obj (t\<lparr>atexit_funcs := xs\<rparr>) = (act f obj t)\<lparr>atexit_funcs := xs\<rparr>" for xs using blind by blast+
  have "act f obj t = (act f obj t)\<lparr>atexit_funcs := atexit_funcs t\<rparr>" using upd [of "atexit_funcs t"] by simp
  from arg_cong [OF this, of atexit_funcs] show "atexit_funcs (act f obj t) = atexit_funcs t" by simp
qed

lemma destroy_keeps:
  assumes "table_blind call act"
  shows "atexit_funcs (destroy act es t) = atexit_funcs t" "atexit_func_count (destroy act es t) = atexit_func_count t"
    "destroy act es (t\<lparr>atexit_funcs := xs\<rparr>) = (destroy act es t)\<lparr>atexit_funcs := xs\<rparr>"
  by (induction es arbitrary: t) (simp_all add: destroy_def act_keeps [OF assms])

lemma destroy_simps [simp]:
  "destroy act [] s = s" "destroy act (e # es) s = destroy act es (act (destructor_func e) (obj_ptr e) s)"
  "destroy act (es @ es') s = destroy act es' (destroy act es s)"
  by (simp_all add: destroy_def)

lemma take_filter_rev:
  "i < length xs \<Longrightarrow> rev (filter P (take (Suc i) xs)) = (if P (xs ! i) then [xs ! i] else []) @ rev (filter P (take i xs))"
  by (simp add: take_Suc_conv_app_nth)

lemma finalize_all_destroys:
  assumes "table_blind call act"
  shows "i \<le> ATEXIT_MAX_FUNCS \<Longrightarrow> length (atexit_funcs s) = ATEXIT_MAX_FUNCS \<Longrightarrow>
    finalize_all call i s = ret (destroy act (rev (filter (\<lambda>e. destructor_func e \<noteq> 0) (take i (atexit_funcs s)))) s)"
proof (induction i arbitrary: s)
  case (Suc i)
  then have "i < length (atexit_funcs s)" by simp
  from take_filter_rev [OF this] Suc show ?case by (simp add: act_keeps [OF assms])
qed simp

definition unset :: "addr \<Rightarrow> atexit_func_entry_t \<Rightarrow> atexit_func_entry_t" where
  "unset f e = (if destructor_func e = f then e\<lparr>destructor_func := 0\<rparr> else e)"

lemma finalize_one_destroys:
  assumes "table_blind call act"
  shows "i \<le> ATEXIT_MAX_FUNCS \<Longrightarrow> length (atexit_funcs s) = ATEXIT_MAX_FUNCS \<Longrightarrow>
    finalize_one call f i s = ret ((destroy act (rev (filter (\<lambda>e. destructor_func e = f) (take i (atexit_funcs s)))) s)
      \<lparr>atexit_funcs := map (unset f) (take i (atexit_funcs s)) @ drop i (atexit_funcs s)\<rparr>)"
proof (induction i arbitrary: s)
  case (Suc i)
  let ?xs = "atexit_funcs s"
  have i: "i < length ?xs" using Suc.prems by simp
  have split: "take (Suc i) ?xs = take i ?xs @ [?xs ! i]" "drop i ?xs = ?xs ! i # drop (Suc i) ?xs"
    using i by (simp_all add: take_Suc_conv_app_nth Cons_nth_drop_Suc)
  have upd: "take i (?xs[i := e]) = take i ?xs" "drop i (?xs[i := e]) = e # drop (Suc i) ?xs" for e
    using i by (simp_all add: drop_update_swap Cons_nth_drop_Suc [of i, symmetric])
  show ?case
  proof (cases "destructor_func (?xs ! i) = f")
    case True
    then show ?thesis
      using Suc i by (simp add: act_keeps [OF assms] destroy_keeps [OF assms] split(1) upd unset_def)
  next
    case False
    then show ?thesis using Suc i by (simp add: split unset_def)
  qed
qed simp

lemma cxa_finalize_one:
  assumes "table_blind call act" "atexit_ok s" "f \<noteq> 0"
  shows "cxa_finalize call f s = ret ((destroy act (rev (filter (\<lambda>e. destructor_func e = f) (registered s))) s)
    \<lparr>atexit_funcs := map (unset f) (registered s) @ drop (unat (atexit_func_count s)) (atexit_funcs s)\<rparr>)"
  using assms(2,3) by (simp add: cxa_finalize_def registered_def atexit_ok_def finalize_one_destroys [OF assms(1)])

text \<open>A program that registers objects one after the other.\<close>

definition register_all :: "(addr \<times> addr) list \<Rightarrow> 'a cxx_scheme \<Rightarrow> 'a cxx_scheme" where
  "register_all objs s = fold (\<lambda>(f, obj) s. snd (aeabi_atexit f obj 0 s)) objs s"

lemma register_all_registered:
  "atexit_ok s \<Longrightarrow> unat (atexit_func_count s) + length objs \<le> ATEXIT_MAX_FUNCS \<Longrightarrow>
    atexit_ok (register_all objs s) \<and> registered (register_all objs s) =
      registered s @ map (\<lambda>(f, obj). \<lparr>destructor_func = f, obj_ptr = obj, dso_handle = 0\<rparr>) objs"
proof (induction objs arbitrary: s)
  case (Cons x objs)
  obtain f obj where x: "x = (f, obj)" by (cases x)
  let ?t = "snd (aeabi_atexit f obj 0 s)"
  have step: "registered ?t = registered s @ [\<lparr>destructor_func = f, obj_ptr = obj, dso_handle = 0\<rparr>]"
    "unat (atexit_func_count ?t) = Suc (unat (atexit_func_count s))" "atexit_ok ?t"
    using aeabi_atexit_registers [OF Cons.prems(1)] aeabi_atexit_ok [OF Cons.prems(1)] Cons.prems(2) by simp_all
  have "unat (atexit_func_count ?t) + length objs \<le> ATEXIT_MAX_FUNCS" using step(2) Cons.prems(2) by simp
  from Cons.IH [OF step(3) this] step(1) show ?case by (simp add: register_all_def x)
qed (simp add: register_all_def)

text \<open>C24: Up to 128 objects, registered one after the other with \<open>__aeabi_atexit\<close>, are destroyed by \<open>__cxa_finalize(0)\<close> in the
  reverse order, each exactly once.\<close>

theorem finalize_reverses:
  assumes "atexit_ok s" "atexit_func_count s = 0" "length objs \<le> ATEXIT_MAX_FUNCS" "0 \<notin> fst ` set objs"
    and "table_blind call act"
  shows "cxa_finalize call 0 (register_all objs s)
    = ret (fold (\<lambda>(f, obj). act f obj) (rev objs) (register_all objs s))"
proof -
  let ?entry = "\<lambda>(f, obj). \<lparr>destructor_func = f, obj_ptr = obj, dso_handle = 0\<rparr>" and ?t = "register_all objs s"
  have reg: "atexit_ok ?t" "registered ?t = map ?entry objs"
    using register_all_registered [OF assms(1), of objs] assms(2,3) by (simp_all add: registered_def)
  have "filter (\<lambda>e. destructor_func e \<noteq> 0) (map ?entry objs) = map ?entry objs"
    using assms(4) by (force simp: filter_id_conv)
  moreover have "destroy act (rev (map ?entry objs)) ?t = fold (\<lambda>(f, obj). act f obj) (rev objs) ?t"
    by (simp add: destroy_def rev_map fold_map comp_def case_prod_unfold)
  moreover have "cxa_finalize call 0 ?t = ret (destroy act (rev (filter (\<lambda>e. destructor_func e \<noteq> 0) (registered ?t))) ?t)"
    using reg(1) finalize_all_destroys [OF assms(5), of "unat (atexit_func_count ?t)" ?t]
    by (simp add: cxa_finalize_def registered_def atexit_ok_def)
  ultimately show ?thesis by (simp add: reg(2))
qed

text \<open>C25: \<open>__cxa_finalize(f)\<close> calls the destructor \<open>f\<close> for each object registered with it, the last one first, and marks
  their entries: a second call does nothing, and \<open>__cxa_finalize(0)\<close> later destroys only the other objects. The entries are not given
  back: the count stays what it was.\<close>

theorem finalize_once:
  assumes "table_blind call act" "atexit_ok s" "f \<noteq> 0"
  shows "\<exists>t. cxa_finalize call f s = ret t \<and> cxa_finalize call f t = ret t
    \<and> t\<lparr>atexit_funcs := atexit_funcs s\<rparr> = destroy act (rev (filter (\<lambda>e. destructor_func e = f) (registered s))) s
    \<and> cxa_finalize call 0 t = ret (destroy act (rev (filter (\<lambda>e. destructor_func e \<noteq> 0 \<and> destructor_func e \<noteq> f) (registered s))) t)
    \<and> atexit_func_count t = atexit_func_count s"
proof -
  let ?xs = "map (unset f) (registered s) @ drop (unat (atexit_func_count s)) (atexit_funcs s)"
  define u where "u = destroy act (rev (filter (\<lambda>e. destructor_func e = f) (registered s))) s"
  define t where "t = u\<lparr>atexit_funcs := ?xs\<rparr>"
  have first: "cxa_finalize call f s = ret t" unfolding t_def u_def by (rule cxa_finalize_one [OF assms])
  have u: "atexit_funcs u = atexit_funcs s" "atexit_func_count u = atexit_func_count s"
    by (simp_all add: u_def destroy_keeps [OF assms(1)])
  have len: "length (registered s) = unat (atexit_func_count s)"
    using assms(2) by (simp add: registered_def atexit_ok_def)
  have t: "atexit_func_count t = atexit_func_count s" "registered t = map (unset f) (registered s)" "atexit_ok t"
    using assms(2) len by (simp_all add: t_def u registered_def atexit_ok_def)
  have gone: "filter (\<lambda>e. destructor_func e = f) (registered t) = []" "map (unset f) (registered t) = registered t"
    using assms(3) by (auto simp: t(2) filter_empty_conv unset_def)
  have "cxa_finalize call f t = ret (t\<lparr>atexit_funcs := registered t @ drop (unat (atexit_func_count t)) (atexit_funcs t)\<rparr>)"
    using cxa_finalize_one [OF assms(1) t(3) assms(3)] gone by simp
  then have again: "cxa_finalize call f t = ret t" by (simp add: registered_def)
  have "map (unset f) (filter (\<lambda>e. destructor_func e \<noteq> 0 \<and> destructor_func e \<noteq> f) (registered s))
      = filter (\<lambda>e. destructor_func e \<noteq> 0 \<and> destructor_func e \<noteq> f) (registered s)"
    by (auto simp: unset_def intro: map_idI)
  moreover have "filter (\<lambda>e. destructor_func e \<noteq> 0) (map (unset f) es)
      = map (unset f) (filter (\<lambda>e. destructor_func e \<noteq> 0 \<and> destructor_func e \<noteq> f) es)" for es
    by (induction es) (auto simp: unset_def)
  ultimately have others: "filter (\<lambda>e. destructor_func e \<noteq> 0) (registered t)
      = filter (\<lambda>e. destructor_func e \<noteq> 0 \<and> destructor_func e \<noteq> f) (registered s)"
    by (simp add: t(2))
  have "cxa_finalize call 0 t = ret (destroy act (rev (filter (\<lambda>e. destructor_func e \<noteq> 0) (registered t))) t)"
    using t(3) finalize_all_destroys [OF assms(1), of "unat (atexit_func_count t)" t]
    by (simp add: cxa_finalize_def registered_def atexit_ok_def)
  then show ?thesis using first again others t(1) u_def by (intro exI [of _ t]) (simp add: t_def u(1) [symmetric])
qed

text \<open>Destructors that report the object on a port.\<close>

definition report :: "addr \<Rightarrow> addr \<Rightarrow> 'a cxx_scheme \<Rightarrow> 'a cxx_scheme" where
  "report f obj s = s\<lparr>ports := Out32 (ucast f) (ucast obj) # ports s\<rparr>"

lemma report_blind: "table_blind (\<lambda>f obj s. ret (report f obj s)) report"
  by (simp add: table_blind_def report_def)

theorem finalize_reverses_witness:
  "\<exists>t. cxa_finalize (\<lambda>f obj s. ret (report f obj s)) 0 (register_all [(1, 11), (2, 12), (1, 13)] empty_table) = ret t
    \<and> ports t = [Out32 1 11, Out32 2 12, Out32 1 13]"
  using finalize_reverses [OF empty_table_ok(1) _ _ _ report_blind, of "[(1, 11), (2, 12), (1, 13)]"]
  by (auto simp: report_def register_all_def aeabi_atexit_def empty_table_def ATEXIT_MAX_FUNCS_def)

theorem finalize_once_witness:
  "\<exists>t. cxa_finalize (\<lambda>f obj s. ret (report f obj s)) 1 (register_all [(1, 11), (2, 12), (1, 13)] empty_table) = ret t
    \<and> ports t = [Out32 1 11, Out32 1 13] \<and> cxa_finalize (\<lambda>f obj s. ret (report f obj s)) 1 t = ret t"
proof -
  let ?s = "register_all [(1, 11), (2, 12), (1, 13)] empty_table"
  have ok: "atexit_ok ?s" "registered ?s = [\<lparr>destructor_func = 1, obj_ptr = 11, dso_handle = 0\<rparr>,
      \<lparr>destructor_func = 2, obj_ptr = 12, dso_handle = 0\<rparr>, \<lparr>destructor_func = 1, obj_ptr = 13, dso_handle = 0\<rparr>]"
    using register_all_registered [OF empty_table_ok(1), of "[(1, 11), (2, 12), (1, 13)]"] empty_table_ok(2)
    by (simp_all add: empty_table_def ATEXIT_MAX_FUNCS_def)
  have "ports ?s = []" by (simp add: register_all_def aeabi_atexit_def empty_table_def ATEXIT_MAX_FUNCS_def)
  have p: "ports (x\<lparr>atexit_funcs := y\<rparr>) = ports x" for x :: cxx and y by simp
  obtain t where t: "cxa_finalize (\<lambda>f obj s. ret (report f obj s)) 1 ?s = ret t"
      "cxa_finalize (\<lambda>f obj s. ret (report f obj s)) 1 t = ret t"
      "t\<lparr>atexit_funcs := atexit_funcs ?s\<rparr> = destroy report (rev (filter (\<lambda>e. destructor_func e = 1) (registered ?s))) ?s"
    using finalize_once [OF report_blind ok(1), of 1] by auto
  from arg_cong [OF t(3), of ports] \<open>ports ?s = []\<close> have "ports t = [Out32 1 11, Out32 1 13]"
    by (simp add: p ok(2) report_def)
  with t show ?thesis by blast
qed

section \<open>Constructors\<close>

definition ctor_table :: "mem \<Rightarrow> addr \<Rightarrow> nat \<Rightarrow> addr list" where
  "ctor_table m a n = map (\<lambda>i. read64 m (a + 8 * of_nat i)) [0..<n]"

lemma ctor_table_cong:
  "bytes_at m a (8 * n) = bytes_at m' a (8 * n) \<Longrightarrow> ctor_table m a n = ctor_table m' a n"
  by (auto simp: ctor_table_def read64_part [of _ "8 * n"])

lemma length_ctor_table [simp]: "length (ctor_table m a n) = n"
  by (simp add: ctor_table_def)

lemma ctor_loop_runs:
  assumes "unat start + 8 * n < 2 ^ 64"
    and "\<forall>f t. call f t = ret (act f t) \<and> bytes_at (ram (act f t)) start (8 * n) = bytes_at (ram t) start (8 * n)"
  shows "k \<le> n \<Longrightarrow> ctor_loop call (start + 8 * of_nat (n - k)) (start + 8 * of_nat n) s
    = ret (fold act (drop (n - k) (ctor_table (ram s) start n)) s)"
proof (induction k arbitrary: s)
  case 0
  then show ?case by (subst ctor_loop.simps) simp
next
  case (Suc k)
  let ?i = "n - Suc k" and ?table = "ctor_table (ram s) start n"
  let ?t = "act (read64 (ram s) (start + 8 * of_nat ?i)) s"
  have at: "unat (start + 8 * of_nat j :: addr) = unat start + 8 * j" if "j \<le> n" for j
    using that assms(1) by (simp add: unat_word_ariths unat_of_nat_64)
  have less: "start + 8 * of_nat ?i < start + 8 * of_nat n"
    using Suc.prems at [of ?i] at [of n] by (simp add: word_less_nat_alt)
  have call: "call f t = ret (act f t)" for f t using assms(2) by blast
  have following: "start + 8 * of_nat ?i + 8 = start + 8 * of_nat (n - k)"
    using Suc.prems by (simp add: algebra_simps flip: Suc_diff_le)
  have "ctor_table (ram ?t) start n = ?table"
    using assms(2) by (intro ctor_table_cong) blast
  moreover have "drop ?i ?table = read64 (ram s) (start + 8 * of_nat ?i) # drop (n - k) ?table"
    using Suc.prems by (subst Cons_nth_drop_Suc [symmetric]) (simp_all add: ctor_table_def Suc_diff_Suc)
  moreover have "ctor_loop call (start + 8 * of_nat (n - k)) (start + 8 * of_nat n) ?t
      = ret (fold act (drop (n - k) (ctor_table (ram ?t) start n)) ?t)"
    using Suc by simp
  moreover have "ctor_loop call (start + 8 * of_nat ?i) (start + 8 * of_nat n) s
      = ctor_loop call (start + 8 * of_nat (n - k)) (start + 8 * of_nat n) ?t"
    unfolding following [symmetric] by (subst ctor_loop.simps) (simp add: less call del: of_nat_diff)
  ultimately show ?case by (simp del: of_nat_diff)
qed

text \<open>C26: \<open>cpp_init\<close> calls every constructor of the table between the two linker symbols exactly once, in the order of the
  table, and returns, provided each returns and leaves the table alone.\<close>

theorem cpp_init_calls:
  assumes "unat start + 8 * n < 2 ^ 64"
    and "\<forall>f t. call f t = ret (act f t) \<and> bytes_at (ram (act f t)) start (8 * n) = bytes_at (ram t) start (8 * n)"
  shows "cpp_init call start (start + 8 * of_nat n) s
    = ret (fold act (map (\<lambda>i. read64 (ram s) (start + 8 * of_nat i)) [0..<n]) s)"
  using ctor_loop_runs [OF assms le_refl, of s] by (simp add: cpp_init_def ctor_table_def)

theorem cpp_init_calls_witness:
  "\<exists>t. cpp_init (\<lambda>f t. ret (t\<lparr>ports := Out32 0 (ucast f) # ports t\<rparr>)) 0x1000 0x1010
      \<lparr>ram = (\<lambda>_. 0)(0x1000 := 7, 0x1008 := 9), ports = [], device = \<lambda>_ _. 0\<rparr> = ret t \<and> ports t = [Out32 0 9, Out32 0 7]"
  using cpp_init_calls [where start = "0x1000" and n = "2" and call = "\<lambda>f t. ret (t\<lparr>ports := Out32 0 (ucast f) # ports t\<rparr>)"
    and act = "\<lambda>f t. t\<lparr>ports := Out32 0 (ucast f) # ports t\<rparr>" and s = "\<lparr>ram = (\<lambda>_. 0)(0x1000 := 7, 0x1008 := 9), ports = [], device = \<lambda>_ _. 0\<rparr>"]
  by (simp add: read64_def bytes_at_def upt_conv_Cons)

end
