(* ===== verification/Selfboot.thy ===== *)
theory Selfboot
  imports Kernel
begin

text \<open>
  The kernel of the self-made boot loader, \<open>src/selfboot/mainself.c\<close>: it writes five cells of the text screen and
  halts. The lemma says what the screen shows.
\<close>

definition self_vga_entry :: "char \<Rightarrow> u8 \<Rightarrow> u16" where
  "self_vga_entry c color = scast (of_char c :: u8) OR push_bit 8 (ucast color)"

definition self_hello :: "'a machine_scheme \<Rightarrow> 'a machine_scheme" where
  "self_hello s =
     (let VGA = (0xB8000 :: addr);
          s = s\<lparr>ram := store16 (ram s) VGA (self_vga_entry CHR ''H'' 0x0F)\<rparr>;
          s = s\<lparr>ram := store16 (ram s) (VGA + 2) (self_vga_entry CHR ''E'' 0x0F)\<rparr>;
          s = s\<lparr>ram := store16 (ram s) (VGA + 4) (self_vga_entry CHR ''L'' 0x0F)\<rparr>;
          s = s\<lparr>ram := store16 (ram s) (VGA + 6) (self_vga_entry CHR ''L'' 0x0F)\<rparr>
      in s\<lparr>ram := store16 (ram s) (VGA + 8) (self_vga_entry CHR ''O'' 0x0F)\<rparr>)"

definition self_kernel_main :: "'a machine_scheme \<Rightarrow> unit exec" where
  "self_kernel_main s = halt (self_hello s)"

lemma self_cells:
  "bytes_at (ram (self_hello s)) 0xB8000 10 = [0x48, 0x0F, 0x45, 0x0F, 0x4C, 0x0F, 0x4C, 0x0F, 0x4F, 0x0F]"
  by (simp add: self_hello_def self_vga_entry_def Let_def store16_def write8_def bytes_at_def upt_conv_Cons)

end
