(* ===== verification/Spec2Isabelle.thy ===== *)
theory Spec2Isabelle
  imports String_Props Boot_Props Reentrancy Plat_Time Cxxabi_Props Selfboot
begin

text \<open>
  A verification development for CKernel, a small x86_64 kernel in C and C++.

  \<^bold>\<open>The program.\<close> The boot loader hands over to assembly code, which switches to long mode, lets \<open>cpp_init\<close> run the static
  constructors and calls \<open>kernel_main\<close>. That prints on a debug console, takes over the boot information, starts the memory
  manager with its two page allocators, the interrupts and the timer, and halts; from then on the
  kernel only serves interrupts. Messages go through a formatter, a text console and the serial port.

  \<^bold>\<open>How the code is modelled.\<close> Integers are words of the width the x86_64 build gives them, so every wrap-around of the code is one of
  the model. All pointers refer to one flat memory \<open>ram\<close> from 64-bit addresses to bytes; what the code keeps behind pointers (the
  screen, strings, buffers, the boot information, the descriptor of the interrupt table) lies there, and overlaps are the overlaps of the
  addresses. Global and static objects are fields of a record: \<open>machine\<close> (memory, trace of port instructions,
  devices), extended along the start of the kernel to \<open>vga\<close>, \<open>tui\<close>, \<open>boot\<close>, \<open>pmm\<close> and \<open>intr\<close>. A C++ class
  whose only object is a singleton is a part of this record; \<open>FIRSTFIT\<close>, of which there are two objects, is a
  record of its own, an extension of \<open>ALLOCATOR\<close>. A definition is polymorphic in the rest of the record, so what it cannot touch it does
  not change. A run has the type \<open>'a exec\<close>: it does not return (\<open>None\<close>), leaves the language (\<open>Inl\<close> of a
  fault: an index outside an array, a null pointer, an overflow of a signed integer, a missing argument, a division by zero, an
  undefined shift), or returns. Loops that end by construction are recursive functions with their measure; those that
  wait for a device, search for a NUL in memory or spin are partial functions, and whether they return is a theorem. No definition
  takes fuel.

  \<^bold>\<open>Theories.\<close>
  \<^item> \<open>Kernel_Prelude\<close>, \<open>Machine\<close>, \<open>Logging\<close>, \<open>Numerals\<close>, \<open>Text_Screen\<close>: words, memory and regions of it; runs, port
    instructions (\<open>port.cpp\<close>, \<open>c_port.cpp\<close>) and faults; the rules for runs that print; numerals; the
    abstract 80 x 25 screen both consoles implement.
  \<^item> \<open>String_Lib\<close>, \<open>Strnlen\<close>, \<open>String_Props\<close>: \<open>libc/src/string/string.c\<close>. Copies respect overlap, scans stop at the first NUL,
    the word-at-a-time \<open>strnlen\<close> equals the plain scan.
  \<^item> \<open>Vga\<close>, \<open>Vga_Props\<close>, \<open>Vga_Printf\<close>: the debug console and the serial port of \<open>libk/src/vgaprint.cpp\<close>. The console refines
    the abstract screen, the serial port gets every character if it drains, \<open>vga_printf\<close> prints the text of its format.
  \<^item> \<open>Vsprintf\<close>, \<open>Vsprintf_Text\<close>, \<open>Vsprintf_Props\<close>: the formatter \<open>libc/src/stdio/vsprintf.c\<close>. It never leaves its
    buffers, and agrees with \<open>vga_printf\<close> on what both know.
  \<^item> \<open>Tui\<close>, \<open>Tui_Props\<close>, \<open>Tui_Text\<close>, \<open>Io\<close>, \<open>Io_Props\<close>: the text console of \<open>libk/src/tui.cpp\<close>, the layer \<open>libk/src/io.cpp\<close> above it
    and the streams of \<open>libcxx/src/iostream.cpp\<close>. \<open>put_char\<close> refines the abstract screen, \<open>printf\<close>, \<open>info\<close>, \<open>warn\<close> and \<open>err\<close> print.
  \<^item> \<open>Allocator\<close>, \<open>Firstfit\<close>, \<open>Firstfit_Props\<close>, \<open>Firstfit_Claims\<close>: \<open>common.h\<close>, the class \<open>ALLOCATOR\<close> and
    \<open>libk/src/firstfit.cpp\<close>. The locale \<open>page_allocator\<close> is the contract of the abstract class; what clients of it may do is
    proved in it once, and \<open>FIRSTFIT\<close> is its interpretation.
  \<^item> \<open>Multiboot2\<close>, \<open>Multiboot_Props\<close>: \<open>libk/src/multiboot2.cpp\<close>. Which boot information is accepted, what is
    counted, when the search for the memory map never ends.
  \<^item> \<open>Pmm\<close>, \<open>Pmm_Props\<close>, \<open>Pmm_Init\<close>: \<open>libk/src/pmm.cpp\<close>. Its invariant; the two spaces as interpretations of the locale
    \<open>allocator_part\<close>, a contract kept by a part of a larger state; the start from the boot information.
  \<^item> \<open>Interrupts\<close>, \<open>Interrupt_Props\<close>: \<open>platform/x86_64/src/intr.cpp\<close>, \<open>timer.cpp\<close> and the routine \<open>idt_load\<close> of \<open>idt.S\<close>. The table
    the CPU gets, the masks of the controller, unhandled vectors, and the ticks of a halted kernel: a step relation, with the contract of
    an interrupt line as the locale \<open>interrupt_line\<close> and the timer as its interpretation.
  \<^item> \<open>Interrupt_Entry\<close>, \<open>Interrupt_Entry_Props\<close>: the stubs of \<open>idt.S\<close> between the processor's delivery of an interrupt and the
    handler, and \<open>intr_context_t\<close>. What a handler sees, what an interrupted program keeps, and what it loses below its stack pointer.
  \<^item> \<open>Reentrancy\<close>: a message interrupted by the timer, which prints through the same buffer.
  \<^item> \<open>Kernel\<close>, \<open>Kernel_Props\<close>: \<open>kernel/kernel_main.cpp\<close>. The start of all subsystems from the state the boot code leaves, and what
    holds when the kernel halts and while it serves its timer.
  \<^item> \<open>Boot\<close>, \<open>Boot_Props\<close>: \<open>platform/x86_64/boot/boot.S\<close> and the descriptors of \<open>gdt.h\<close>. The addresses the page tables of the boot code
    map, the state it hands over, its segments, and what of the memory the kernel gives out is mapped.
  \<^item> \<open>Plat_Time\<close>: \<open>platform/x86_64/src/c_time.cpp\<close>. When the calibration returns and what it leaves.
  \<^item> \<open>Cxxabi\<close>, \<open>Cxxabi_Props\<close>: \<open>libcxx/src/cxxabi.cpp\<close>. The table of destructors, their order, the constructors.
  \<^item> \<open>Selfboot\<close>: \<open>selfboot/mainself.c\<close>.

  \<^bold>\<open>Parameters.\<close> What is not code under \<open>src/\<close> is an argument: the answers of the devices (\<open>device\<close>, a function of the trace of port
  instructions so far), the counters of the clock (\<open>clock_hw\<close>), the addresses the linker chooses (\<open>image\<close>, \<open>machine_image\<close>), the
  constructors and destructors behind the pointers of the run-time support. What a theorem needs of them is a hypothesis:
  \<open>uart_drains\<close> (a polled serial port becomes ready), \<open>table_blind\<close> (destructors do not touch the table of destructors),
  \<open>kernel_bootable\<close> (the memory between 8 MB and 136 MB, the boot information behind the kernel image and not in the screen memory,
  an aligned interrupt table).

  \<^bold>\<open>Bounds.\<close> The bitmap of \<open>FIRSTFIT\<close> has 512 words, so the allocators are right up to 32768 pages each; the starting kernel
  needs at least 8 MB because the length of the second space is computed without a check. Messages are cut off at
  511 characters, the buffer of \<open>IO\<close>. Number conversions fit in 32 characters.

  \<^bold>\<open>Assembly.\<close> The registers are a record of their own beside the memory; \<open>boot.S\<close> is modelled by what its instructions leave in
  the control registers, the segments and memory, \<open>idt.S\<close> with every push and pop. The processor itself (delivery through a gate, \<open>iretq\<close>, the walk
  through the page tables, the reading of a descriptor) is defined as its manual describes it. The compiled C functions behind the
  stubs are an argument that says what they leave in the registers; that they return with their stack pointer, as the calling convention
  demands, is a hypothesis, and their own frames are not part of the memory.

  \<^bold>\<open>Not modelled.\<close> The 16-bit loader \<open>selfboot/bootstage2.asm\<close> and the linker scripts: no C or C++ code, and their result is the initial
  state. \<open>_ftoa\<close> and \<open>_etoa\<close> of \<open>vsprintf.c\<close> and the branch for 32-bit division, which the build does not
  compile. \<open>dtb.h\<close>, \<open>gdt.h\<close> and \<open>time.h\<close> declare functions no file defines; \<open>gdt.cpp\<close> and \<open>cstdio.cpp\<close> are empty;
  \<open>stddef.h\<close>, \<open>stdint.h\<close>, \<open>stdarg.h\<close>, \<open>stdbool.h\<close> hold types and macros only. Page faults in the middle of C++ code: the theorems
  about it are about the memory as it is, and \<open>Boot_Props\<close> says which addresses the processor would reach. Interrupts in the middle of C++ code
  other than \<open>printf\<close>: \<open>TIMER::init\<close> enables them, and the two messages printed after that are modelled without an interrupt in between;
  later a handler runs to its end before the next one. The arithmetic flags and the SSE registers.
\<close>

end
